(* ===== verification/Py_Prelude.thy ===== *)
theory Py_Prelude
  imports Complex_Main "HOL-Library.AList" "HOL-Library.List_Lexorder" "HOL-Library.Char_ord"
begin

text \<open>
  The Python values and operations every component uses.

  \<^item> \<open>json\<close> is \<open>pydantic.JsonValue\<close>: what a plan, an LLM answer, a Google response or a JSONB
    column holds. A \<open>dict\<close> is an association list in insertion order; the operations below keep
    its keys distinct, as Python does.
  \<^item> \<open>str\<close> is \<open>string\<close>: a list of code points below 256. Code points above are outside the model.
  \<^item> A raised exception is the left side of a sum, \<open>py_error + 'a\<close>.
  \<^item> Python's unbounded \<open>int\<close> is \<open>int\<close>; a \<open>float\<close> is the rational number it denotes.
\<close>

section \<open>Collections of facts\<close>

named_theorems dict_simps \<open>laws of dict access and update\<close>
named_theorems wf_json_intros \<open>closure of well-formed JSON under the operations\<close>

section \<open>JSON values\<close>

datatype json =
    JNull
  | JBool bool
  | JInt int
  | JFloat rat
  | JStr string
  | JList "json list"
  | JObj "(string \<times> json) list"

type_synonym dict = "(string \<times> json) list"

fun is_str :: "json \<Rightarrow> bool" where
  "is_str (JStr _) = True"
| "is_str _ = False"

fun is_list :: "json \<Rightarrow> bool" where
  "is_list (JList _) = True"
| "is_list _ = False"

fun is_dict :: "json \<Rightarrow> bool" where
  "is_dict (JObj _) = True"
| "is_dict _ = False"

text \<open>Python truthiness: \<open>bool(value)\<close>.\<close>

fun py_truthy :: "json \<Rightarrow> bool" where
  "py_truthy JNull = False"
| "py_truthy (JBool b) = b"
| "py_truthy (JInt i) = (i \<noteq> 0)"
| "py_truthy (JFloat r) = (r \<noteq> 0)"
| "py_truthy (JStr s) = (s \<noteq> [])"
| "py_truthy (JList xs) = (xs \<noteq> [])"
| "py_truthy (JObj kvs) = (kvs \<noteq> [])"

section \<open>Dictionaries\<close>

text \<open>
  \<open>d.get(k)\<close>, \<open>k in d\<close>, \<open>d[k] = v\<close> (in place, or appended), \<open>d.pop(k, None)\<close> and the
  comprehension \<open>{f(x): g(x) for x in xs}\<close>, in which a later item overwrites an earlier one
  but keeps its place.
\<close>

abbreviation dict_get :: "(string \<times> 'v) list \<Rightarrow> string \<Rightarrow> 'v option" where
  "dict_get d k \<equiv> map_of d k"

definition dict_keys :: "(string \<times> 'v) list \<Rightarrow> string list" where
  "dict_keys d = map fst d"

definition has_key :: "(string \<times> 'v) list \<Rightarrow> string \<Rightarrow> bool" where
  "has_key d k \<longleftrightarrow> k \<in> set (map fst d)"

definition dict_get_or :: "(string \<times> 'v) list \<Rightarrow> string \<Rightarrow> 'v \<Rightarrow> 'v" where
  "dict_get_or d k v = (case dict_get d k of None \<Rightarrow> v | Some x \<Rightarrow> x)"

definition dict_set :: "string \<Rightarrow> 'v \<Rightarrow> (string \<times> 'v) list \<Rightarrow> (string \<times> 'v) list" where
  "dict_set = AList.update"

definition dict_pop :: "string \<Rightarrow> (string \<times> 'v) list \<Rightarrow> (string \<times> 'v) list" where
  "dict_pop k d = filter (\<lambda>p. fst p \<noteq> k) d"

fun dict_of :: "(string \<times> 'v) list \<Rightarrow> (string \<times> 'v) list \<Rightarrow> (string \<times> 'v) list" where
  "dict_of acc [] = acc"
| "dict_of acc ((k, v) # kvs) = dict_of (dict_set k v acc) kvs"

abbreviation distinct_keys :: "(string \<times> 'v) list \<Rightarrow> bool" where
  "distinct_keys d \<equiv> distinct (map fst d)"

lemma dict_set_simps [simp]:
  "dict_set k v [] = [(k, v)]"
  "dict_set k v (p # ps) = (if fst p = k then (k, v) # ps else p # dict_set k v ps)"
  by (simp_all add: dict_set_def)

lemma has_key_iff [dict_simps]: "has_key d k \<longleftrightarrow> dict_get d k \<noteq> None"
  by (simp add: has_key_def map_of_eq_None_iff)

lemma has_key_simps [simp]:
  "has_key [] k \<longleftrightarrow> False"
  "has_key (p # ps) k \<longleftrightarrow> fst p = k \<or> has_key ps k"
  by (auto simp: has_key_def)

lemma has_key_append [simp]: "has_key (d @ e) k \<longleftrightarrow> has_key d k \<or> has_key e k"
  by (auto simp: has_key_def)

lemma has_key_map [simp]: "has_key (map (\<lambda>x. (f x, g x)) xs) k \<longleftrightarrow> k \<in> f ` set xs"
  by (auto simp: has_key_def)

lemma has_key_filter [simp]:
  "has_key (filter (\<lambda>p. fst p \<notin> S) d) k \<longleftrightarrow> has_key d k \<and> k \<notin> S"
  "has_key (filter (\<lambda>p. fst p \<noteq> x) d) k \<longleftrightarrow> has_key d k \<and> k \<noteq> x"
  by (auto simp: has_key_def)

lemma has_keyE:
  assumes "has_key d k"
  obtains v where "dict_get d k = Some v"
  using assms by (auto simp: has_key_iff)

lemma dict_get_set [dict_simps]:
  "dict_get (dict_set k v d) k' = (if k' = k then Some v else dict_get d k')"
  by (simp add: dict_set_def AList.update_conv)

lemma has_key_set [dict_simps]: "has_key (dict_set k v d) k' \<longleftrightarrow> k' = k \<or> has_key d k'"
  by (simp add: has_key_iff dict_get_set)

lemma dict_get_pop [dict_simps]:
  "dict_get (dict_pop k d) k' = (if k' = k then None else dict_get d k')"
  by (induction d) (auto simp: dict_pop_def)

lemma distinct_keys_set: "distinct_keys d \<Longrightarrow> distinct_keys (dict_set k v d)"
  by (simp add: dict_set_def AList.distinct_update)

lemma distinct_keys_pop: "distinct_keys d \<Longrightarrow> distinct_keys (dict_pop k d)"
  by (induction d) (auto simp: dict_pop_def)

lemma dict_set_new: "\<not> has_key d k \<Longrightarrow> dict_set k v d = d @ [(k, v)]"
  by (induction d) auto

lemma dict_of_distinct:
  "distinct_keys (acc @ kvs) \<Longrightarrow> dict_of acc kvs = acc @ kvs"
proof (induction kvs arbitrary: acc)
  case Nil
  then show ?case by simp
next
  case (Cons p kvs)
  obtain k v where p: "p = (k, v)" by (cases p)
  with Cons.prems have "dict_set k v acc = acc @ [(k, v)]"
    by (intro dict_set_new) (auto simp: has_key_def)
  with Cons.IH [of "acc @ [(k, v)]"] Cons.prems p show ?case by simp
qed

section \<open>Well-formed JSON: every object has distinct keys\<close>

fun wf_json :: "json \<Rightarrow> bool" and wf_jsons :: "json list \<Rightarrow> bool" and wf_items :: "dict \<Rightarrow> bool" where
  "wf_json (JList xs) = wf_jsons xs"
| "wf_json (JObj kvs) = (distinct_keys kvs \<and> wf_items kvs)"
| "wf_json _ = True"
| "wf_jsons [] = True"
| "wf_jsons (x # xs) = (wf_json x \<and> wf_jsons xs)"
| "wf_items [] = True"
| "wf_items ((k, v) # kvs) = (wf_json v \<and> wf_items kvs)"

lemma wf_jsons_iff: "wf_jsons xs \<longleftrightarrow> (\<forall>x \<in> set xs. wf_json x)"
  by (induction xs) auto

lemma wf_items_iff: "wf_items kvs \<longleftrightarrow> (\<forall>(k, v) \<in> set kvs. wf_json v)"
  by (induction kvs) auto

lemma wf_json_get [wf_json_intros]: "wf_json (JObj d) \<Longrightarrow> dict_get d k = Some v \<Longrightarrow> wf_json v"
  by (auto simp: wf_items_iff dest!: map_of_SomeD)

lemma wf_json_nth [wf_json_intros]: "wf_json (JList xs) \<Longrightarrow> i < length xs \<Longrightarrow> wf_json (xs ! i)"
  by (auto simp: wf_jsons_iff)

section \<open>Strings\<close>

definition code_point :: "char \<Rightarrow> nat" where
  "code_point c = of_char c"

text \<open>
  \<open>str.isspace\<close> below code point 256, and the Unicode \<open>White_Space\<close> property, which Pydantic's
  \<open>strip_whitespace\<close> uses: the two differ on the four separators 28 to 31.
\<close>

definition unicode_space :: "char \<Rightarrow> bool" where
  "unicode_space c \<longleftrightarrow>
     (let n = code_point c in 9 \<le> n \<and> n \<le> 13 \<or> n = 32 \<or> n = 133 \<or> n = 160)"

definition py_isspace :: "char \<Rightarrow> bool" where
  "py_isspace c \<longleftrightarrow> unicode_space c \<or> (28 \<le> code_point c \<and> code_point c \<le> 31)"

definition strip_with :: "(char \<Rightarrow> bool) \<Rightarrow> string \<Rightarrow> string" where
  "strip_with p s = rev (dropWhile p (rev (dropWhile p s)))"

definition py_strip :: "string \<Rightarrow> string" where
  "py_strip = strip_with py_isspace"

definition is_ascii_digit :: "char \<Rightarrow> bool" where
  "is_ascii_digit c \<longleftrightarrow> 48 \<le> code_point c \<and> code_point c \<le> 57"

definition digit_value :: "char \<Rightarrow> nat" where
  "digit_value c = code_point c - 48"

definition is_ascii_alpha :: "char \<Rightarrow> bool" where
  "is_ascii_alpha c \<longleftrightarrow>
     (let n = code_point c in 65 \<le> n \<and> n \<le> 90 \<or> 97 \<le> n \<and> n \<le> 122)"

text \<open>The decimal number a list of digits denotes.\<close>

definition digits_value :: "string \<Rightarrow> nat" where
  "digits_value s = foldl (\<lambda>n c. 10 * n + digit_value c) 0 s"

text \<open>\<open>str.split()\<close> and \<open>sep.join(xs)\<close>.\<close>

fun split_acc :: "string \<Rightarrow> string \<Rightarrow> string list" where
  "split_acc w [] = (if w = [] then [] else [w])"
| "split_acc w (c # cs) =
     (if py_isspace c then (if w = [] then split_acc [] cs else w # split_acc [] cs)
      else split_acc (w @ [c]) cs)"

definition py_split :: "string \<Rightarrow> string list" where
  "py_split s = split_acc [] s"

fun py_join :: "string \<Rightarrow> string list \<Rightarrow> string" where
  "py_join sep [] = []"
| "py_join sep [x] = x"
| "py_join sep (x # y # xs) = x @ sep @ py_join sep (y # xs)"

text \<open>\<open>', '.join(sorted(xs))\<close> for a set given as a list.\<close>

definition sorted_strs :: "string list \<Rightarrow> string list" where
  "sorted_strs xs = sort (remdups xs)"

lemma dropWhile_strip: "dropWhile p (strip_with p s) = strip_with p s"
proof (cases "strip_with p s = []")
  case True
  then show ?thesis by simp
next
  case False
  let ?t = "dropWhile p s"
  have t: "?t = strip_with p s @ rev (takeWhile p (rev ?t))"
    unfolding strip_with_def by (metis rev_append rev_rev_ident takeWhile_dropWhile_id)
  with False have "?t \<noteq> []" by (metis append_is_Nil_conv)
  then have "\<not> p (hd ?t)" by (rule hd_dropWhile)
  moreover have "hd ?t = hd (strip_with p s)" using t False by (metis hd_append)
  ultimately show ?thesis by (simp add: dropWhile_eq_self_iff)
qed

lemma strip_with_idem: "strip_with p (strip_with p s) = strip_with p s"
proof -
  have "strip_with p (strip_with p s) = rev (dropWhile p (rev (strip_with p s)))"
    by (simp add: strip_with_def [of p "strip_with p s"] dropWhile_strip)
  then show ?thesis by (simp add: strip_with_def dropWhile_idem)
qed

lemma set_strip_with: "set (strip_with p s) \<subseteq> set s"
  by (auto simp: strip_with_def dest!: set_dropWhileD)

lemma strip_with_id:
  assumes "\<forall>c \<in> set s. \<not> p c"
  shows "strip_with p s = s"
proof -
  have "dropWhile p xs = xs" if "set xs = set s" for xs
    using assms that by (cases xs) auto
  then show ?thesis by (simp add: strip_with_def)
qed

section \<open>Exceptions\<close>

datatype py_error =
    ValueError string
  | KeyError string
  | TypeError
  | RuntimeError string
  | LLMProviderError string
  | AttributeError
  | OverflowError

lemma sum_caseE [elim?]:
  assumes "(case r of Inl e \<Rightarrow> Inl e | Inr x \<Rightarrow> f x) = Inr y"
  obtains x where "r = Inr x" and "f x = Inr y"
  using assms by (cases r) auto

lemma sum_case_Inr_iff:
  "(case r of Inl e \<Rightarrow> Inl e | Inr x \<Rightarrow> f x) = Inr y \<longleftrightarrow> (\<exists>x. r = Inr x \<and> f x = Inr y)"
  by (cases r) auto

text \<open>\<open>for x in xs: check(x)\<close>, where \<open>check\<close> may raise.\<close>

fun for_each :: "('a \<Rightarrow> 'e + unit) \<Rightarrow> 'a list \<Rightarrow> 'e + unit" where
  "for_each f [] = Inr ()"
| "for_each f (x # xs) = (case f x of Inl e \<Rightarrow> Inl e | Inr _ \<Rightarrow> for_each f xs)"

lemma for_each_Inr [simp]: "for_each f xs = Inr u \<longleftrightarrow> (\<forall>x \<in> set xs. f x = Inr ())"
  by (induction xs) (auto split: sum.splits)

lemma for_each_cong [fundef_cong]:
  "xs = ys \<Longrightarrow> (\<And>x. x \<in> set ys \<Longrightarrow> f x = g x) \<Longrightarrow> for_each f xs = for_each g ys"
  by (induction xs arbitrary: ys) (auto split: sum.splits)

text \<open>\<open>[f(x) for x in xs]\<close>, where \<open>f\<close> may raise.\<close>

fun map_res :: "('a \<Rightarrow> 'e + 'b) \<Rightarrow> 'a list \<Rightarrow> 'e + 'b list" where
  "map_res f [] = Inr []"
| "map_res f (x # xs) =
     (case f x of Inl e \<Rightarrow> Inl e
      | Inr y \<Rightarrow> (case map_res f xs of Inl e \<Rightarrow> Inl e | Inr ys \<Rightarrow> Inr (y # ys)))"

lemma map_res_Inr: "map_res f xs = Inr ys \<longleftrightarrow> list_all2 (\<lambda>x y. f x = Inr y) xs ys"
proof (induction xs arbitrary: ys)
  case Nil
  then show ?case by auto
next
  case (Cons x xs)
  show ?case
    by (cases ys; cases "f x"; cases "map_res f xs") (auto simp: Cons.IH [symmetric])
qed

lemma map_res_total:
  "(\<And>x. x \<in> set xs \<Longrightarrow> f x = Inr (g x)) \<Longrightarrow> map_res f xs = Inr (map g xs)"
  by (induction xs) auto

lemma map_res_elemE:
  assumes "map_res f xs = Inr ys" and "y \<in> set ys"
  obtains x where "x \<in> set xs" and "f x = Inr y"
proof -
  from assms obtain i where "i < length ys" and "y = ys ! i" by (auto simp: in_set_conv_nth)
  moreover from assms(1) this have "f (xs ! i) = Inr (ys ! i)" and "i < length xs"
    by (auto simp: map_res_Inr list_all2_conv_all_nth)
  ultimately show ?thesis using that [of "xs ! i"] by simp
qed

lemma map_res_map: "(\<And>y. y \<in> set ys \<Longrightarrow> f (g y) = Inr y) \<Longrightarrow> map_res f (map g ys) = Inr ys"
  by (simp add: map_res_Inr list_all2_conv_all_nth)

end
