(* ===== verification/Contracts.thy ===== *)
theory Contracts
  imports Py_Prelude
begin

text \<open>
  The contract models of \<open>app/schemas/contracts.py\<close>: the enums, the records, their field
  validation, and the graph validation of an execution plan.

  \<open>plan_model_validate\<close> is \<open>ExecutionPlan.model_validate\<close>: Pydantic's field checks as the
  declarations state them (required fields, \<open>extra="forbid"\<close>, the identifier pattern, the
  declared field validators) and then \<open>validate_graph\<close>. Pydantic reports a list of errors;
  the model keeps one, and says whether a field or the graph was at fault.
\<close>

section \<open>Enums\<close>

datatype service = GMAIL | GOOGLE_CALENDAR | GOOGLE_DRIVE | WORKSPACE

fun service_value :: "service \<Rightarrow> string" where
  "service_value GMAIL = ''gmail''"
| "service_value GOOGLE_CALENDAR = ''google_calendar''"
| "service_value GOOGLE_DRIVE = ''google_drive''"
| "service_value WORKSPACE = ''workspace''"

text \<open>\<open>Service(value)\<close>: \<open>None\<close> is the \<open>ValueError\<close>.\<close>

definition service_of :: "string \<Rightarrow> service option" where
  "service_of s =
     (if s = ''gmail'' then Some GMAIL
      else if s = ''google_calendar'' then Some GOOGLE_CALENDAR
      else if s = ''google_drive'' then Some GOOGLE_DRIVE
      else if s = ''workspace'' then Some WORKSPACE
      else None)"

datatype execution_status = PENDING | RUNNING | COMPLETED | FAILED | SKIPPED | AWAITING_APPROVAL

fun status_value :: "execution_status \<Rightarrow> string" where
  "status_value PENDING = ''pending''"
| "status_value RUNNING = ''running''"
| "status_value COMPLETED = ''completed''"
| "status_value FAILED = ''failed''"
| "status_value SKIPPED = ''skipped''"
| "status_value AWAITING_APPROVAL = ''awaiting_approval''"

lemma service_of_value [simp]: "service_of (service_value s) = Some s"
  by (cases s) (simp_all add: service_of_def)

lemma service_value_eq [simp]: "service_value s = service_value t \<longleftrightarrow> s = t"
  by (metis option.inject service_of_value)

lemma status_value_eq [simp]: "status_value s = status_value t \<longleftrightarrow> s = t"
  by (cases s; cases t) simp_all

section \<open>Models\<close>

record error_info =
  err_code :: string
  err_message :: string
  err_details :: dict

record intent =
  intent_name :: string
  required_services :: "service list"
  extracted_entities :: dict
  requires_clarification :: bool
  clarification_question :: "string option"

record execution_step =
  step_id :: string
  service :: service
  operation :: string
  arguments :: dict
  depends_on :: "string list"

record execution_plan =
  steps :: "execution_step list"

record step_result =
  result_step_id :: string
  status :: execution_status
  data :: dict
  error :: "error_info option"

record agent_result =
  agent_status :: execution_status
  agent_data :: dict
  source_ids :: "string list"
  agent_error :: "error_info option"

section \<open>\<open>model_dump(mode="json")\<close>\<close>

definition error_dump :: "error_info \<Rightarrow> json" where
  "error_dump e = JObj
     [(''code'', JStr (err_code e)), (''message'', JStr (err_message e)),
      (''details'', JObj (err_details e))]"

definition intent_dump :: "intent \<Rightarrow> json" where
  "intent_dump i = JObj
     [(''intent_name'', JStr (intent_name i)),
      (''required_services'', JList (map (\<lambda>s. JStr (service_value s)) (required_services i))),
      (''extracted_entities'', JObj (extracted_entities i)),
      (''requires_clarification'', JBool (requires_clarification i)),
      (''clarification_question'',
         (case clarification_question i of None \<Rightarrow> JNull | Some q \<Rightarrow> JStr q))]"

definition step_dump :: "execution_step \<Rightarrow> json" where
  "step_dump s = JObj
     [(''step_id'', JStr (step_id s)), (''service'', JStr (service_value (service s))),
      (''operation'', JStr (operation s)), (''arguments'', JObj (arguments s)),
      (''depends_on'', JList (map JStr (depends_on s)))]"

definition plan_dump :: "execution_plan \<Rightarrow> json" where
  "plan_dump p = JObj [(''steps'', JList (map step_dump (steps p)))]"

section \<open>Field validation\<close>

datatype validation_error = FieldError | GraphError string | LookupRaised string

definition identifier_char :: "char \<Rightarrow> bool" where
  "identifier_char c \<longleftrightarrow> is_ascii_alpha c \<or> is_ascii_digit c \<or> c = CHR ''_'' \<or> c = CHR ''-''"

definition identifier_pattern :: "string \<Rightarrow> bool" where
  "identifier_pattern s \<longleftrightarrow> (case s of [] \<Rightarrow> False | c # cs \<Rightarrow> is_ascii_alpha c \<and> list_all identifier_char cs)"

text \<open>\<open>Identifier\<close>: whitespace is stripped first, then the length and the pattern are checked.\<close>

definition validate_identifier :: "json \<Rightarrow> validation_error + string" where
  "validate_identifier v =
     (case v of JStr s \<Rightarrow>
        (let t = strip_with unicode_space s in
         if t \<noteq> [] \<and> identifier_pattern t then Inr t else Inl FieldError)
      | _ \<Rightarrow> Inl FieldError)"

definition validate_operation_name :: "json \<Rightarrow> validation_error + string" where
  "validate_operation_name v =
     (case v of JStr s \<Rightarrow>
        (let t = strip_with unicode_space s in if t \<noteq> [] then Inr t else Inl FieldError)
      | _ \<Rightarrow> Inl FieldError)"

definition validate_service :: "json \<Rightarrow> validation_error + service" where
  "validate_service v =
     (case v of JStr s \<Rightarrow> (case service_of s of None \<Rightarrow> Inl FieldError | Some x \<Rightarrow> Inr x)
      | _ \<Rightarrow> Inl FieldError)"

definition validate_structured_data :: "json option \<Rightarrow> validation_error + dict" where
  "validate_structured_data v =
     (case v of None \<Rightarrow> Inr [] | Some (JObj d) \<Rightarrow> Inr d | Some _ \<Rightarrow> Inl FieldError)"

definition validate_list :: "(json \<Rightarrow> validation_error + 'a) \<Rightarrow> json option \<Rightarrow> validation_error + 'a list" where
  "validate_list f v =
     (case v of None \<Rightarrow> Inr [] | Some (JList xs) \<Rightarrow> map_res f xs | Some _ \<Rightarrow> Inl FieldError)"

text \<open>A required field, and \<open>extra="forbid"\<close>.\<close>

definition required_field :: "(json \<Rightarrow> validation_error + 'a) \<Rightarrow> json option \<Rightarrow> validation_error + 'a" where
  "required_field f v = (case v of None \<Rightarrow> Inl FieldError | Some x \<Rightarrow> f x)"

definition only_fields :: "string list \<Rightarrow> dict \<Rightarrow> bool" where
  "only_fields fs d \<longleftrightarrow> list_all (\<lambda>k. k \<in> set fs) (dict_keys d)"

definition dependencies_must_be_unique :: "string list \<Rightarrow> validation_error + string list" where
  "dependencies_must_be_unique ds = (if distinct ds then Inr ds else Inl FieldError)"

definition required_services_must_be_unique :: "service list \<Rightarrow> validation_error + service list" where
  "required_services_must_be_unique ss = (if distinct ss then Inr ss else Inl FieldError)"

definition step_model_validate :: "json \<Rightarrow> validation_error + execution_step" where
  "step_model_validate v =
     (case v of
        JObj d \<Rightarrow>
          (if \<not> only_fields [''step_id'', ''service'', ''operation'', ''arguments'', ''depends_on''] d
           then Inl FieldError
           else case required_field validate_identifier (dict_get d ''step_id'') of Inl e \<Rightarrow> Inl e | Inr sid \<Rightarrow>
             (case required_field validate_service (dict_get d ''service'') of Inl e \<Rightarrow> Inl e | Inr svc \<Rightarrow>
             (case required_field validate_operation_name (dict_get d ''operation'') of Inl e \<Rightarrow> Inl e | Inr op \<Rightarrow>
             (case validate_structured_data (dict_get d ''arguments'') of Inl e \<Rightarrow> Inl e | Inr args \<Rightarrow>
             (case validate_list validate_identifier (dict_get d ''depends_on'') of Inl e \<Rightarrow> Inl e | Inr ds \<Rightarrow>
             (case dependencies_must_be_unique ds of Inl e \<Rightarrow> Inl e | Inr ds' \<Rightarrow>
                Inr \<lparr>step_id = sid, service = svc, operation = op, arguments = args, depends_on = ds'\<rparr>))))))
      | _ \<Rightarrow> Inl FieldError)"

text \<open>
  Pydantic's lax \<open>bool\<close> takes the integers and floats 0 and 1 and the usual words in any case;
  \<open>str | None\<close> takes a string or \<open>null\<close>.
\<close>

definition ascii_lower :: "char \<Rightarrow> char" where
  "ascii_lower c = (if 65 \<le> code_point c \<and> code_point c \<le> 90 then char_of (code_point c + 32) else c)"

definition validate_bool :: "json \<Rightarrow> validation_error + bool" where
  "validate_bool v =
     (case v of
        JBool b \<Rightarrow> Inr b
      | JInt i \<Rightarrow> if i = 0 then Inr False else if i = 1 then Inr True else Inl FieldError
      | JFloat r \<Rightarrow> if r = 0 then Inr False else if r = 1 then Inr True else Inl FieldError
      | JStr s \<Rightarrow>
          (let t = map ascii_lower s in
           if t \<in> {''0'', ''off'', ''f'', ''false'', ''n'', ''no''} then Inr False
           else if t \<in> {''1'', ''on'', ''t'', ''true'', ''y'', ''yes''} then Inr True
           else Inl FieldError)
      | _ \<Rightarrow> Inl FieldError)"

definition validate_nonempty_str :: "json \<Rightarrow> validation_error + string" where
  "validate_nonempty_str v =
     (case v of JStr s \<Rightarrow> if s \<noteq> [] then Inr s else Inl FieldError | _ \<Rightarrow> Inl FieldError)"

definition validate_optional_str :: "json option \<Rightarrow> validation_error + string option" where
  "validate_optional_str v =
     (case v of None \<Rightarrow> Inr None | Some JNull \<Rightarrow> Inr None | Some (JStr s) \<Rightarrow> Inr (Some s)
      | Some _ \<Rightarrow> Inl FieldError)"

definition intent_model_validate :: "json \<Rightarrow> validation_error + intent" where
  "intent_model_validate v =
     (case v of
        JObj d \<Rightarrow>
          (if \<not> only_fields [''intent_name'', ''required_services'', ''extracted_entities'',
                ''requires_clarification'', ''clarification_question''] d
           then Inl FieldError
           else case required_field validate_nonempty_str (dict_get d ''intent_name'') of Inl e \<Rightarrow> Inl e | Inr n \<Rightarrow>
             (case validate_list validate_service (dict_get d ''required_services'') of Inl e \<Rightarrow> Inl e | Inr ss \<Rightarrow>
             (case required_services_must_be_unique ss of Inl e \<Rightarrow> Inl e | Inr ss' \<Rightarrow>
             (case validate_structured_data (dict_get d ''extracted_entities'') of Inl e \<Rightarrow> Inl e | Inr ents \<Rightarrow>
             (case (case dict_get d ''requires_clarification'' of None \<Rightarrow> Inr False | Some b \<Rightarrow> validate_bool b) of
                Inl e \<Rightarrow> Inl e | Inr rc \<Rightarrow>
             (case validate_optional_str (dict_get d ''clarification_question'') of Inl e \<Rightarrow> Inl e | Inr q \<Rightarrow>
                Inr \<lparr>intent_name = n, required_services = ss', extracted_entities = ents,
                     requires_clarification = rc, clarification_question = q\<rparr>))))))
      | _ \<Rightarrow> Inl FieldError)"

section \<open>References to earlier steps\<close>

text \<open>
  \<open>StepOutputReference.model_validate\<close> on an object that has \<open>$step\<close>: the identifier, and a
  path of strings and integers. Pydantic's lax integer accepts a boolean and an integral float.
\<close>

fun valid_path_segment :: "json \<Rightarrow> bool" where
  "valid_path_segment (JStr _) = True"
| "valid_path_segment (JInt _) = True"
| "valid_path_segment (JBool _) = True"
| "valid_path_segment (JFloat r) = (r = of_int \<lfloor>r\<rfloor>)"
| "valid_path_segment _ = False"

definition reference_model_validate :: "dict \<Rightarrow> validation_error + string" where
  "reference_model_validate d =
     (if \<not> only_fields [''$step'', ''path''] d then Inl FieldError
      else case required_field validate_identifier (dict_get d ''$step'') of Inl e \<Rightarrow> Inl e | Inr sid \<Rightarrow>
        (case dict_get d ''path'' of
           None \<Rightarrow> Inr sid
         | Some (JList segs) \<Rightarrow> if list_all valid_path_segment segs then Inr sid else Inl FieldError
         | Some _ \<Rightarrow> Inl FieldError))"

text \<open>
  \<open>_find_step_references\<close> is a generator. Its items are a list here; an \<open>Inl\<close> item is the point
  where validating a reference raises, and its consumer stops at the first.
\<close>

fun find_step_references :: "json \<Rightarrow> (validation_error + string) list"
  and find_refs_list :: "json list \<Rightarrow> (validation_error + string) list"
  and find_refs_items :: "dict \<Rightarrow> (validation_error + string) list" where
  "find_step_references (JObj d) =
     (if has_key d ''$step'' then [reference_model_validate d] else find_refs_items d)"
| "find_step_references (JList xs) = find_refs_list xs"
| "find_step_references _ = []"
| "find_refs_list [] = []"
| "find_refs_list (x # xs) = find_step_references x @ find_refs_list xs"
| "find_refs_items [] = []"
| "find_refs_items ((k, v) # kvs) = find_step_references v @ find_refs_items kvs"

section \<open>Graph validation\<close>

definition check_dependencies :: "string list \<Rightarrow> execution_step \<Rightarrow> validation_error + unit" where
  "check_dependencies known s = for_each (\<lambda>d.
     if d = step_id s then Inl (GraphError (''step '' @ step_id s @ '' cannot depend on itself''))
     else if d \<notin> set known then
       Inl (GraphError (''step '' @ step_id s @ '' depends on nonexistent step '' @ d))
     else Inr ()) (depends_on s)"

definition check_references :: "string list \<Rightarrow> execution_step \<Rightarrow> validation_error + unit" where
  "check_references known s = for_each (\<lambda>r.
     case r of Inl e \<Rightarrow> Inl e
     | Inr rid \<Rightarrow>
         if rid \<notin> set known then
           Inl (GraphError (''step '' @ step_id s @ '' references nonexistent step '' @ rid))
         else if rid \<notin> set (depends_on s) then
           Inl (GraphError (''step '' @ step_id s @ '' must depend on referenced step '' @ rid))
         else Inr ()) (find_step_references (JObj (arguments s)))"

definition check_step :: "string list \<Rightarrow> execution_step \<Rightarrow> validation_error + unit" where
  "check_step known s =
     (case check_dependencies known s of Inl e \<Rightarrow> Inl e | Inr _ \<Rightarrow> check_references known s)"

text \<open>
  The nested function \<open>visit\<close> and its loop over the dependencies, with the dictionary
  \<open>visit_state\<close> threaded through. The first argument bounds the depth of the recursion;
  \<open>None\<close> is running out of it, which \<open>visit_all_enough\<close> excludes for the bound used.
\<close>

type_synonym visit_state = "string \<rightharpoonup> nat"

fun visit :: "nat \<Rightarrow> (string \<rightharpoonup> string list) \<Rightarrow> string \<Rightarrow> visit_state \<Rightarrow> (validation_error + visit_state) option"
  and visit_all :: "nat \<Rightarrow> (string \<rightharpoonup> string list) \<Rightarrow> string list \<Rightarrow> visit_state \<Rightarrow> (validation_error + visit_state) option" where
  "visit 0 G s vs = None"
| "visit (Suc n) G s vs =
     (let state = (case vs s of None \<Rightarrow> 0 | Some k \<Rightarrow> k) in
      if state = 1 then Some (Inl (GraphError ''execution plan contains a dependency cycle''))
      else if state = 2 then Some (Inr vs)
      else case G s of
          None \<Rightarrow> Some (Inl (LookupRaised s))
        | Some ds \<Rightarrow>
            (case visit_all n G ds (vs(s \<mapsto> 1)) of
               Some (Inr vs') \<Rightarrow> Some (Inr (vs'(s \<mapsto> 2)))
             | r \<Rightarrow> r))"
| "visit_all n G [] vs = Some (Inr vs)"
| "visit_all n G (d # ds) vs =
     (case visit n G d vs of Some (Inr vs') \<Rightarrow> visit_all n G ds vs' | r \<Rightarrow> r)"

definition deps_by_id :: "execution_step list \<Rightarrow> string \<rightharpoonup> string list" where
  "deps_by_id ss = map_of (map (\<lambda>s. (step_id s, depends_on s)) ss)"

definition validate_graph :: "execution_plan \<Rightarrow> validation_error + execution_plan" where
  "validate_graph p =
     (let ids = map step_id (steps p) in
      if \<not> distinct ids then Inl (GraphError ''execution plan contains duplicate step IDs'')
      else case for_each (check_step ids) (steps p) of Inl e \<Rightarrow> Inl e | Inr _ \<Rightarrow>
        (case visit_all (Suc (length ids)) (deps_by_id (steps p)) ids Map.empty of
           None \<Rightarrow> Inl (LookupRaised [])
         | Some (Inl e) \<Rightarrow> Inl e
         | Some (Inr _) \<Rightarrow> Inr p))"

definition plan_model_validate :: "json \<Rightarrow> validation_error + execution_plan" where
  "plan_model_validate v =
     (case v of
        JObj d \<Rightarrow>
          (if \<not> only_fields [''steps''] d then Inl FieldError
           else case dict_get d ''steps'' of
               Some (JList xs) \<Rightarrow>
                 (case map_res step_model_validate xs of Inl e \<Rightarrow> Inl e
                  | Inr ss \<Rightarrow> validate_graph \<lparr>steps = ss\<rparr>)
             | _ \<Rightarrow> Inl FieldError)
      | _ \<Rightarrow> Inl FieldError)"

section \<open>What the graph validation establishes\<close>

text \<open>The dependency relation: \<open>(d, s)\<close> when step \<open>s\<close> depends on \<open>d\<close>.\<close>

definition dep_rel :: "(string \<rightharpoonup> string list) \<Rightarrow> (string \<times> string) set" where
  "dep_rel G = {(d, s). \<exists>ds. G s = Some ds \<and> d \<in> set ds}"

definition closed_deps :: "(string \<rightharpoonup> string list) \<Rightarrow> bool" where
  "closed_deps G \<longleftrightarrow> (\<forall>(d, s) \<in> dep_rel G. d \<in> dom G)"

definition visit_ok :: "(string \<rightharpoonup> string list) \<Rightarrow> visit_state \<Rightarrow> bool" where
  "visit_ok G vs \<longleftrightarrow> ran vs \<subseteq> {1, 2} \<and> (\<forall>x. vs x = Some 2 \<longrightarrow> x \<in> Wellfounded.acc (dep_rel G))"

definition visit_extends :: "visit_state \<Rightarrow> visit_state \<Rightarrow> bool" where
  "visit_extends vs vs' \<longleftrightarrow>
     (\<forall>x. (vs' x = Some 1) = (vs x = Some 1)) \<and> (\<forall>x. vs x = Some 2 \<longrightarrow> vs' x = Some 2)"

lemma visit_extends_trans: "visit_extends a b \<Longrightarrow> visit_extends b c \<Longrightarrow> visit_extends a c"
  by (simp add: visit_extends_def)

lemma visit_sound:
  "visit n G s vs = Some (Inr vs') \<Longrightarrow> visit_ok G vs \<Longrightarrow>
     visit_ok G vs' \<and> visit_extends vs vs' \<and> vs' s = Some 2"
  "visit_all n G ds vs = Some (Inr vs') \<Longrightarrow> visit_ok G vs \<Longrightarrow>
     visit_ok G vs' \<and> visit_extends vs vs' \<and> (\<forall>d \<in> set ds. vs' d = Some 2)"
proof (induction n G s vs and n G ds vs arbitrary: vs' and vs' rule: visit_visit_all.induct)
  case (2 n G s vs)
  show ?case
  proof (cases "vs s = Some 2")
    case True
    with "2.prems" show ?thesis by (auto simp: visit_extends_def)
  next
    case False
    with "2.prems" have white: "vs s = None"
      by (auto simp: visit_ok_def ran_def split: option.splits if_splits)
    with "2.prems"(1) obtain ds vs1 where G: "G s = Some ds"
      and all: "visit_all n G ds (vs(s \<mapsto> 1)) = Some (Inr vs1)" and vs': "vs' = vs1(s \<mapsto> 2)"
      by (auto split: option.splits sum.splits)
    have ok: "visit_ok G (vs(s \<mapsto> 1))"
      using "2.prems"(2) white by (auto simp: visit_ok_def ran_def)
    have "visit_ok G vs1 \<and> visit_extends (vs(s \<mapsto> 1)) vs1 \<and> (\<forall>d \<in> set ds. vs1 d = Some 2)"
      by (rule "2.IH" [OF refl _ _ G all ok]) (use white in auto)
    then have ok1: "visit_ok G vs1" and ext: "visit_extends (vs(s \<mapsto> 1)) vs1"
      and black: "\<forall>d \<in> set ds. vs1 d = Some 2" by simp_all
    have "s \<in> Wellfounded.acc (dep_rel G)"
      by (rule accI) (use black ok1 G in \<open>auto simp: dep_rel_def visit_ok_def\<close>)
    then have "visit_ok G vs'"
      using ok1 vs' by (auto simp: visit_ok_def ran_def)
    moreover have "visit_extends vs vs'"
      using ext white vs' by (auto simp: visit_extends_def split: if_splits)
    moreover have "vs' s = Some 2" using vs' by simp
    ultimately show ?thesis by blast
  qed
next
  case (4 n G d ds vs)
  then obtain vs1 where v: "visit n G d vs = Some (Inr vs1)"
    and all: "visit_all n G ds vs1 = Some (Inr vs')"
    by (auto split: option.splits sum.splits)
  from "4.IH"(1) v "4.prems"(2) have 1: "visit_ok G vs1" "visit_extends vs vs1" "vs1 d = Some 2"
    by auto
  with "4.IH"(2) v all have "visit_ok G vs'" "visit_extends vs1 vs'" "\<forall>d \<in> set ds. vs' d = Some 2"
    by auto
  with 1 show ?case by (auto simp: visit_extends_def)
qed (auto simp: visit_extends_def)

lemma visit_cycle:
  "visit n G s vs = Some (Inl (GraphError m)) \<Longrightarrow> visit_ok G vs \<Longrightarrow>
     (\<forall>g. vs g = Some 1 \<longrightarrow> (s, g) \<in> (dep_rel G)\<^sup>+) \<Longrightarrow> \<not> acyclic (dep_rel G)"
  "visit_all n G ds vs = Some (Inl (GraphError m)) \<Longrightarrow> visit_ok G vs \<Longrightarrow>
     (\<forall>d \<in> set ds. \<forall>g. vs g = Some 1 \<longrightarrow> (d, g) \<in> (dep_rel G)\<^sup>+) \<Longrightarrow> \<not> acyclic (dep_rel G)"
proof (induction n G s vs and n G ds vs rule: visit_visit_all.induct)
  case (2 n G s vs)
  show ?case
  proof (cases "vs s = Some 1")
    case True
    with "2.prems"(3) show ?thesis by (auto simp: acyclic_def)
  next
    case False
    with "2.prems" have white: "vs s = None"
      by (auto simp: visit_ok_def ran_def split: option.splits if_splits)
    with "2.prems"(1) obtain ds where G: "G s = Some ds"
      and all: "visit_all n G ds (vs(s \<mapsto> 1)) = Some (Inl (GraphError m))"
      by (auto split: option.splits sum.splits)
    have ok: "visit_ok G (vs(s \<mapsto> 1))"
      using "2.prems"(2) white by (auto simp: visit_ok_def ran_def)
    have edge: "(d, s) \<in> dep_rel G" if "d \<in> set ds" for d
      using that G by (auto simp: dep_rel_def)
    have grey: "\<forall>d \<in> set ds. \<forall>g. (vs(s \<mapsto> 1)) g = Some 1 \<longrightarrow> (d, g) \<in> (dep_rel G)\<^sup>+"
      using edge "2.prems"(3) by (auto intro: trancl_into_trancl2)
    show ?thesis
      by (rule "2.IH" [OF refl _ _ G all ok grey]) (use white in auto)
  qed
next
  case (4 n G d ds vs)
  show ?case
  proof (cases "visit n G d vs = Some (Inl (GraphError m))")
    case True
    with 4 show ?thesis by auto
  next
    case False
    with "4.prems"(1) obtain vs1 where v: "visit n G d vs = Some (Inr vs1)"
      and all: "visit_all n G ds vs1 = Some (Inl (GraphError m))"
      by (auto split: option.splits sum.splits)
    from visit_sound(1) [OF v "4.prems"(2)] have "visit_ok G vs1" "visit_extends vs vs1"
      by auto
    with "4.IH"(2) [OF v refl all] "4.prems"(3) show ?thesis
      by (auto simp: visit_extends_def)
  qed
qed auto

text \<open>The depth bound is never reached, and no lookup fails: every dependency names a step.\<close>

lemma visit_extends_dom: "visit_ok G vs \<Longrightarrow> visit_extends vs vs' \<Longrightarrow> dom vs \<subseteq> dom vs'"
  unfolding visit_ok_def visit_extends_def ran_def by fastforce

lemma visit_total:
  assumes closed: "closed_deps G" and fin: "finite (dom G)"
  shows "s \<in> dom G \<Longrightarrow> visit_ok G vs \<Longrightarrow> card (dom G - dom vs) < n \<Longrightarrow>
      \<exists>r. visit n G s vs = Some r \<and> (\<forall>x. r \<noteq> Inl (LookupRaised x) \<and> r \<noteq> Inl FieldError)"
    and "set ds \<subseteq> dom G \<Longrightarrow> visit_ok G vs \<Longrightarrow> card (dom G - dom vs) < n \<Longrightarrow>
      \<exists>r. visit_all n G ds vs = Some r \<and> (\<forall>x. r \<noteq> Inl (LookupRaised x) \<and> r \<noteq> Inl FieldError)"
proof (induction n G\<equiv>G s vs and n G\<equiv>G ds vs rule: visit_visit_all.induct)
  case (2 n s vs)
  show ?case
  proof (cases "vs s")
    case (Some k)
    with "2.prems"(2) have "k = 1 \<or> k = 2" by (auto simp: visit_ok_def ran_def)
    with Some show ?thesis by auto
  next
    case None
    from "2.prems"(1) obtain ds where G: "G s = Some ds" by auto
    have ok: "visit_ok G (vs(s \<mapsto> 1))"
      using "2.prems"(2) None by (auto simp: visit_ok_def ran_def)
    have sub: "set ds \<subseteq> dom G"
      using closed G by (auto simp: closed_deps_def dep_rel_def)
    have "dom G - dom (vs(s \<mapsto> 1)) \<subset> dom G - dom vs"
      using None G by auto
    with fin have "card (dom G - dom (vs(s \<mapsto> 1))) < card (dom G - dom vs)"
      by (auto intro!: psubset_card_mono)
    with "2.prems"(3) have less: "card (dom G - dom (vs(s \<mapsto> 1))) < n" by simp
    have "\<exists>r. visit_all n G ds (vs(s \<mapsto> 1)) = Some r
        \<and> (\<forall>x. r \<noteq> Inl (LookupRaised x) \<and> r \<noteq> Inl FieldError)"
      by (rule "2.hyps" [OF refl _ _ G sub ok less]) (use None in auto)
    with None G show ?thesis by (auto split: sum.splits)
  qed
next
  case (4 n d ds vs)
  then obtain r where r: "visit n G d vs = Some r"
    and no: "\<forall>x. r \<noteq> Inl (LookupRaised x) \<and> r \<noteq> Inl FieldError" by auto
  show ?case
  proof (cases r)
    case (Inl e)
    with r no show ?thesis by simp
  next
    case (Inr vs1)
    with r have "visit n G d vs = Some (Inr vs1)" by simp
    from visit_sound(1) [OF this "4.prems"(2)] have ok: "visit_ok G vs1" and "visit_extends vs vs1"
      by simp_all
    from visit_extends_dom [OF "4.prems"(2) this(2)] have "card (dom G - dom vs1) \<le> card (dom G - dom vs)"
      using fin by (intro card_mono) auto
    with "4.prems" ok r Inr show ?thesis
      using "4.hyps"(2) [of "Inr vs1" vs1] by auto
  qed
qed auto

lemma visit_all_enough:
  assumes "closed_deps G" and "dom G = set ids"
  obtains r where "visit_all (Suc (length ids)) G ids Map.empty = Some r"
    and "\<And>x. r \<noteq> Inl (LookupRaised x)" and "r \<noteq> Inl FieldError"
proof -
  have "card (dom G - dom Map.empty) < Suc (length ids)"
    using assms(2) by (simp add: card_length le_imp_less_Suc)
  moreover have "visit_ok G Map.empty" by (simp add: visit_ok_def)
  ultimately have "\<exists>r. visit_all (Suc (length ids)) G ids Map.empty = Some r
      \<and> (\<forall>x. r \<noteq> Inl (LookupRaised x) \<and> r \<noteq> Inl FieldError)"
    using assms by (intro visit_total(2)) auto
  with that show ?thesis by blast
qed

text \<open>The cycle check decides acyclicity.\<close>

lemma visit_all_iff_acyclic:
  assumes closed: "closed_deps G" and dom: "dom G = set ids"
  shows "(\<exists>vs. visit_all (Suc (length ids)) G ids Map.empty = Some (Inr vs)) \<longleftrightarrow> acyclic (dep_rel G)"
    (is "?ok \<longleftrightarrow> _")
proof
  have ok0: "visit_ok G Map.empty" by (simp add: visit_ok_def)
  {
    assume ?ok
    then obtain vs where vs: "visit_all (Suc (length ids)) G ids Map.empty = Some (Inr vs)" ..
    from visit_sound(2) [OF this ok0] have black: "\<forall>d \<in> set ids. d \<in> Wellfounded.acc (dep_rel G)"
      by (auto simp: visit_ok_def)
    have "x \<in> Wellfounded.acc (dep_rel G)" for x
    proof (cases "x \<in> set ids")
      case False
      then have "\<And>d. (d, x) \<notin> dep_rel G" using dom by (auto simp: dep_rel_def)
      then show ?thesis by (auto intro: accI)
    qed (use black in blast)
    then have "wf (dep_rel G)" by (simp add: wf_iff_acc)
    then show "acyclic (dep_rel G)" by (rule wf_acyclic)
  }
  {
    assume acyclic: "acyclic (dep_rel G)"
    from visit_all_enough [OF closed dom] obtain r
      where r: "visit_all (Suc (length ids)) G ids Map.empty = Some r"
        and no: "\<And>x. r \<noteq> Inl (LookupRaised x)" "r \<noteq> Inl FieldError" by metis
    show ?ok
    proof (cases r)
      case (Inl e)
      with no obtain m where "e = GraphError m" by (cases e) auto
      with r Inl visit_cycle(2) [OF _ ok0] acyclic show ?thesis by auto
    qed (use r in auto)
  }
qed

section \<open>Well-formed plans\<close>

definition plan_ids :: "execution_plan \<Rightarrow> string list" where
  "plan_ids p = map step_id (steps p)"

definition plan_deps :: "execution_plan \<Rightarrow> (string \<times> string) set" where
  "plan_deps p = {(d, step_id s) |d s. s \<in> set (steps p) \<and> d \<in> set (depends_on s)}"

definition references_declared :: "execution_step \<Rightarrow> bool" where
  "references_declared s \<longleftrightarrow>
     (\<forall>r \<in> set (find_step_references (JObj (arguments s))). \<exists>rid \<in> set (depends_on s). r = Inr rid)"

definition valid_plan :: "execution_plan \<Rightarrow> bool" where
  "valid_plan p \<longleftrightarrow>
     distinct (plan_ids p) \<and>
     (\<forall>s \<in> set (steps p).
        set (depends_on s) \<subseteq> set (plan_ids p) - {step_id s} \<and> references_declared s) \<and>
     acyclic (plan_deps p)"

lemma check_dependencies_iff:
  "check_dependencies known s = Inr () \<longleftrightarrow> set (depends_on s) \<subseteq> set known - {step_id s}"
  by (auto simp: check_dependencies_def)

lemma check_references_iff:
  "check_references known s = Inr () \<longleftrightarrow>
     (\<forall>r \<in> set (find_step_references (JObj (arguments s))).
        \<exists>rid \<in> set known \<inter> set (depends_on s). r = Inr rid)"
proof -
  have "(case r of Inl e \<Rightarrow> Inl e
     | Inr rid \<Rightarrow>
         if rid \<notin> set known then
           Inl (GraphError (''step '' @ step_id s @ '' references nonexistent step '' @ rid))
         else if rid \<notin> set (depends_on s) then
           Inl (GraphError (''step '' @ step_id s @ '' must depend on referenced step '' @ rid))
         else Inr ()) = Inr () \<longleftrightarrow> (\<exists>rid \<in> set known \<inter> set (depends_on s). r = Inr rid)"
    for r :: "validation_error + string"
    by (cases r) auto
  then show ?thesis unfolding check_references_def by (simp only: for_each_Inr)
qed

lemma check_step_iff:
  "check_step known s = Inr () \<longleftrightarrow>
     set (depends_on s) \<subseteq> set known - {step_id s} \<and> references_declared s"
proof (cases "set (depends_on s) \<subseteq> set known - {step_id s}")
  case True
  then have "set known \<inter> set (depends_on s) = set (depends_on s)" by blast
  then have "check_references known s = Inr () \<longleftrightarrow> references_declared s"
    unfolding check_references_iff references_declared_def by simp
  with True check_dependencies_iff [of known s] show ?thesis
    by (simp add: check_step_def)
next
  case False
  with check_dependencies_iff [of known s] show ?thesis
    by (cases "check_dependencies known s") (auto simp: check_step_def)
qed

lemma deps_by_id_eq:
  assumes "distinct (map step_id ss)" and "s \<in> set ss"
  shows "deps_by_id ss (step_id s) = Some (depends_on s)"
  using assms by (auto simp: deps_by_id_def o_def image_iff intro!: map_of_is_SomeI)

lemma deps_by_id_SomeD:
  "deps_by_id ss x = Some ds \<Longrightarrow> \<exists>s \<in> set ss. step_id s = x \<and> depends_on s = ds"
  by (auto simp: deps_by_id_def dest!: map_of_SomeD)

lemma dom_deps_by_id: "dom (deps_by_id ss) = set (map step_id ss)"
  by (auto simp: deps_by_id_def dom_map_of_conv_image_fst image_image)

lemma dep_rel_plan:
  assumes "distinct (plan_ids p)"
  shows "dep_rel (deps_by_id (steps p)) = plan_deps p"
proof -
  have "deps_by_id (steps p) x = Some ds \<longleftrightarrow>
      (\<exists>s \<in> set (steps p). step_id s = x \<and> depends_on s = ds)" for x ds
    using assms unfolding plan_ids_def by (metis deps_by_id_SomeD deps_by_id_eq)
  then show ?thesis by (auto simp: dep_rel_def plan_deps_def)
qed

lemma validate_graph_Inr:
  "validate_graph p = Inr q \<longleftrightarrow> q = p \<and> valid_plan p"
proof (cases "distinct (plan_ids p) \<and> (\<forall>s \<in> set (steps p). check_step (plan_ids p) s = Inr ())")
  case True
  let ?G = "deps_by_id (steps p)"
  have "closed_deps ?G"
    using True by (auto simp: closed_deps_def dep_rel_plan plan_deps_def check_step_iff
        dom_deps_by_id plan_ids_def)
  with visit_all_iff_acyclic [of ?G "plan_ids p"]
  have "(\<exists>vs. visit_all (Suc (length (plan_ids p))) ?G (plan_ids p) Map.empty = Some (Inr vs))
      \<longleftrightarrow> acyclic (plan_deps p)"
    using True by (simp add: dom_deps_by_id plan_ids_def dep_rel_plan)
  moreover have fe: "for_each (check_step (plan_ids p)) (steps p) = Inr ()"
    using True by simp
  moreover have "valid_plan p \<longleftrightarrow> acyclic (plan_deps p)"
    using True by (auto simp: valid_plan_def check_step_iff)
  ultimately show ?thesis
    using True unfolding validate_graph_def plan_ids_def [symmetric] Let_def fe
    by (auto split: option.splits sum.splits)
next
  case False
  then show ?thesis
    by (auto simp: validate_graph_def Let_def valid_plan_def check_step_iff plan_ids_def
        split: option.splits sum.splits)
qed

section \<open>Dumping and validating again\<close>

text \<open>Validation normalises (it strips names); what it returns, it accepts unchanged.\<close>

lemma validate_identifier_fix: "validate_identifier v = Inr t \<Longrightarrow> validate_identifier (JStr t) = Inr t"
  by (auto simp: validate_identifier_def Let_def strip_with_idem split: json.splits if_splits)

lemma validate_operation_name_fix:
  "validate_operation_name v = Inr t \<Longrightarrow> validate_operation_name (JStr t) = Inr t"
  by (auto simp: validate_operation_name_def Let_def strip_with_idem split: json.splits if_splits)

lemma validate_service_value [simp]: "validate_service (JStr (service_value s)) = Inr s"
  by (simp add: validate_service_def)

lemma validate_list_fix:
  assumes "\<And>v x. f v = Inr x \<Longrightarrow> f (g x) = Inr x" and "validate_list f v = Inr xs"
  shows "validate_list f (Some (JList (map g xs))) = Inr xs"
proof -
  from assms(2) have "xs = [] \<or> (\<exists>vs. map_res f vs = Inr xs)"
    by (auto simp: validate_list_def split: option.splits json.splits)
  then have "map_res f (map g xs) = Inr xs"
    by (intro map_res_map) (auto elim: map_res_elemE intro: assms(1))
  then show ?thesis by (simp add: validate_list_def)
qed

lemmas step_fields = only_fields_def dict_keys_def required_field_def validate_structured_data_def
  dependencies_must_be_unique_def

lemma step_model_validate_fix:
  assumes "step_model_validate v = Inr s"
  shows "step_model_validate (step_dump s) = Inr s"
proof -
  from assms obtain d where v: "v = JObj d"
    by (cases v) (auto simp: step_model_validate_def)
  from assms obtain i opn vs where "validate_identifier i = Inr (step_id s)"
    and "validate_operation_name opn = Inr (operation s)"
    and vs: "validate_list validate_identifier vs = Inr (depends_on s)" and "distinct (depends_on s)"
    unfolding v step_model_validate_def
    by (auto simp: required_field_def dependencies_must_be_unique_def sum_case_Inr_iff
        split: if_splits option.splits)
  moreover have "validate_list validate_identifier (Some (JList (map JStr (depends_on s)))) = Inr (depends_on s)"
    by (rule validate_list_fix [OF _ vs]) (rule validate_identifier_fix)
  ultimately show ?thesis
    by (simp add: step_model_validate_def step_dump_def step_fields
        validate_identifier_fix validate_operation_name_fix)
qed

lemma plan_model_validate_Inr:
  "plan_model_validate v = Inr p \<longleftrightarrow>
     (\<exists>d xs. v = JObj d \<and> only_fields [''steps''] d \<and> dict_get d ''steps'' = Some (JList xs) \<and>
        map_res step_model_validate xs = Inr (steps p) \<and> valid_plan p)"
proof -
  have eq: "\<lparr>steps = ss\<rparr> = p \<longleftrightarrow> ss = steps p" for ss by (cases p) auto
  have graph: "(case map_res step_model_validate xs of Inl e \<Rightarrow> Inl e
      | Inr ss \<Rightarrow> validate_graph \<lparr>steps = ss\<rparr>) = Inr p \<longleftrightarrow>
      map_res step_model_validate xs = Inr (steps p) \<and> valid_plan p" for xs
  proof (cases "map_res step_model_validate xs")
    case (Inr ss)
    show ?thesis
    proof (cases "ss = steps p")
      case True
      have p: "\<lparr>steps = steps p\<rparr> = p" using eq by blast
      show ?thesis unfolding Inr sum.case True p by (simp add: validate_graph_Inr)
    next
      case False
      then have "p \<noteq> \<lparr>steps = ss\<rparr>" using eq by metis
      with Inr False show ?thesis by (simp add: validate_graph_Inr)
    qed
  qed simp
  show ?thesis
  proof (cases v)
    case (JObj d)
    show ?thesis
      by (cases "dict_get d ''steps''"; (cases "the (dict_get d ''steps'')")?)
        (simp_all add: JObj plan_model_validate_def graph)
  qed (simp_all add: plan_model_validate_def)
qed

text \<open>
  C17. An execution plan passes \<open>validate_graph\<close> exactly when its step ids are distinct, every
  dependency names another step of the plan, every reference in the arguments is well formed and
  names a declared dependency, and the dependency relation has no cycle; the plan is returned as
  it is.
\<close>

theorem validate_graph_iff_valid: "validate_graph p = Inr q \<longleftrightarrow> q = p \<and> valid_plan p"
  by (rule validate_graph_Inr)

text \<open>
  A plan that \<open>ExecutionPlan.model_validate\<close> has accepted is stored by \<open>model_dump\<close> without
  loss: validating the dump gives the same plan.
\<close>

theorem plan_dump_roundtrip:
  assumes "plan_model_validate v = Inr p"
  shows "plan_model_validate (plan_dump p) = Inr p"
proof -
  from assms obtain xs where xs: "map_res step_model_validate xs = Inr (steps p)" and "valid_plan p"
    by (auto simp: plan_model_validate_Inr)
  then have "map_res step_model_validate (map step_dump (steps p)) = Inr (steps p)"
    by (intro map_res_map) (auto elim: map_res_elemE intro: step_model_validate_fix)
  with \<open>valid_plan p\<close> show ?thesis
    by (simp add: plan_model_validate_Inr plan_dump_def only_fields_def dict_keys_def)
qed

text \<open>A plan of the documented shape: a calendar search and a mail search that uses its result.\<close>

definition sample_plan_json :: json where
  "sample_plan_json = JObj [(''steps'', JList
     [JObj [(''step_id'', JStr '' cal''), (''service'', JStr ''google_calendar''),
            (''operation'', JStr ''search_events'')],
      JObj [(''step_id'', JStr ''mail''), (''service'', JStr ''gmail''),
            (''operation'', JStr ''search_emails''),
            (''arguments'', JObj [(''keywords'', JObj [(''$step'', JStr ''cal''),
               (''path'', JList [JStr ''events'', JInt 0, JStr ''title''])])]),
            (''depends_on'', JList [JStr ''cal''])]])]"

definition sample_plan :: execution_plan where
  "sample_plan = \<lparr>steps =
     [\<lparr>step_id = ''cal'', service = GOOGLE_CALENDAR, operation = ''search_events'',
       arguments = [], depends_on = []\<rparr>,
      \<lparr>step_id = ''mail'', service = GMAIL, operation = ''search_emails'',
       arguments = [(''keywords'', JObj [(''$step'', JStr ''cal''),
          (''path'', JList [JStr ''events'', JInt 0, JStr ''title''])])],
       depends_on = [''cal'']\<rparr>]\<rparr>"

lemma sample_plan_validates: "plan_model_validate sample_plan_json = Inr sample_plan"
  by code_simp

theorem plan_dump_roundtrip_witness:
  "plan_model_validate sample_plan_json = Inr sample_plan \<and>
   plan_model_validate (plan_dump sample_plan) = Inr sample_plan"
  using plan_dump_roundtrip [OF sample_plan_validates] sample_plan_validates by simp

section \<open>A valid plan is never stuck\<close>

lemma valid_plan_wf:
  assumes "valid_plan p"
  shows "wf (plan_deps p)"
proof -
  have "plan_deps p = (\<Union>s \<in> set (steps p). (\<lambda>d. (d, step_id s)) ` set (depends_on s))"
    by (auto simp: plan_deps_def)
  then have "finite (plan_deps p)" by simp
  with assms show ?thesis by (auto simp: valid_plan_def intro: finite_acyclic_wf)
qed

lemma valid_plan_ready:
  assumes "valid_plan p" and "finished \<subset> set (plan_ids p)"
  obtains s where "s \<in> set (steps p)" and "step_id s \<notin> finished" and "set (depends_on s) \<subseteq> finished"
proof -
  from assms(2) obtain x where "x \<in> set (plan_ids p) - finished" by auto
  from wfE_min [OF valid_plan_wf [OF assms(1)] this] obtain z
    where z: "z \<in> set (plan_ids p) - finished"
      and min: "\<And>y. (y, z) \<in> plan_deps p \<Longrightarrow> y \<notin> set (plan_ids p) - finished"
    by metis
  then obtain s where s: "s \<in> set (steps p)" "step_id s = z" by (auto simp: plan_ids_def)
  have "d \<in> finished" if "d \<in> set (depends_on s)" for d
  proof -
    have "(d, z) \<in> plan_deps p" using s that by (auto simp: plan_deps_def)
    moreover have "d \<in> set (plan_ids p)"
      using assms(1) s that by (auto simp: valid_plan_def)
    ultimately show ?thesis using min by blast
  qed
  with s z that show ?thesis by auto
qed

end
