(* ===== verification/Gregorian.thy ===== *)
theory Gregorian
  imports Py_Prelude
begin

text \<open>
  The proleptic Gregorian calendar of Python's \<open>datetime\<close>: ordinals, dates and their mutual
  inverse. Ordinal 1 is 0001-01-01.
\<close>

section \<open>Definitions\<close>

definition is_leap :: "nat \<Rightarrow> bool" where
  "is_leap y \<longleftrightarrow> y mod 4 = 0 \<and> (y mod 100 \<noteq> 0 \<or> y mod 400 = 0)"

definition days_in_month :: "nat \<Rightarrow> nat \<Rightarrow> nat" where
  "days_in_month y m =
     (if m = 2 \<and> is_leap y then 29
      else if m \<in> {4, 6, 9, 11} then 30 else if m = 2 then 28 else 31)"

definition days_before_year :: "nat \<Rightarrow> nat" where
  "days_before_year y = (let k = y - 1 in k * 365 + k div 4 - k div 100 + k div 400)"

definition days_before_month :: "nat \<Rightarrow> nat \<Rightarrow> nat" where
  "days_before_month y m = sum_list (map (days_in_month y) [1..<m])"

definition ymd_to_ord :: "nat \<Rightarrow> nat \<Rightarrow> nat \<Rightarrow> nat" where
  "ymd_to_ord y m d = days_before_year y + days_before_month y m + d"

text \<open>The month that holds day \<open>n\<close> (from 0) of year \<open>y\<close>, searched from month \<open>m\<close> on.\<close>

fun find_month :: "nat \<Rightarrow> nat \<Rightarrow> nat \<Rightarrow> nat \<Rightarrow> nat \<times> nat" where
  "find_month 0 y m n = (m, n + 1)"
| "find_month (Suc k) y m n =
     (if n < days_in_month y m then (m, n + 1) else find_month k y (Suc m) (n - days_in_month y m))"

definition ord_to_ymd :: "nat \<Rightarrow> nat \<times> nat \<times> nat" where
  "ord_to_ymd ordinal =
     (let n = ordinal - 1; n400 = n div 146097; n = n mod 146097;
          n100 = n div 36524; n = n mod 36524;
          n4 = n div 1461; n = n mod 1461;
          n1 = n div 365; n = n mod 365;
          y = n400 * 400 + 1 + n100 * 100 + n4 * 4 + n1
      in if n1 = 4 \<or> n100 = 4 then (y - 1, 12, 31)
         else case find_month 11 y 1 n of (m, d) \<Rightarrow> (y, m, d))"

definition valid_ymd :: "nat \<Rightarrow> nat \<Rightarrow> nat \<Rightarrow> bool" where
  "valid_ymd y m d \<longleftrightarrow> 1 \<le> y \<and> y \<le> 9999 \<and> 1 \<le> m \<and> m \<le> 12 \<and> 1 \<le> d \<and> d \<le> days_in_month y m"

text \<open>The ordinal of 9999-12-31.\<close>

definition max_ordinal :: nat where
  "max_ordinal = 3652059"

section \<open>Evaluation\<close>

lemma find_month_numeral:
  "find_month (numeral k) y m n =
     (if n < days_in_month y m then (m, n + 1)
      else find_month (pred_numeral k) y (Suc m) (n - days_in_month y m))"
  by (simp add: numeral_eq_Suc)

lemma upt_one_numeral [simp]:
  "[Suc 0..<numeral n] = (if (1::nat) < numeral n then Suc 0 # [2..<numeral n] else [])"
  by (simp add: upt_conv_Cons numeral_2_eq_2)

section \<open>Dates and ordinals are inverse\<close>

lemma days_in_month_pos: "0 < days_in_month y m"
  by (simp add: days_in_month_def)

lemma days_before_month_Suc: "1 \<le> m \<Longrightarrow> days_before_month y (Suc m) = days_before_month y m + days_in_month y m"
  by (simp add: days_before_month_def)

lemma days_before_month_13: "days_before_month y 13 = (if is_leap y then 366 else 365)"
  by (simp add: days_before_month_def days_in_month_def)

lemma days_before_year_Suc:
  assumes "1 \<le> y"
  shows "days_before_year (Suc y) = days_before_year y + days_before_month y 13"
proof -
  obtain k where y: "y = Suc k" using assms by (cases y) auto
  have d: "Suc k div 4 = k div 4 + (if y mod 4 = 0 then 1 else 0)"
    "Suc k div 100 = k div 100 + (if y mod 100 = 0 then 1 else 0)"
    "Suc k div 400 = k div 400 + (if y mod 400 = 0 then 1 else 0)"
    by (auto simp: y div_Suc)
  have m: "y mod 400 = 0 \<Longrightarrow> y mod 100 = 0" "y mod 100 = 0 \<Longrightarrow> y mod 4 = 0"
    using mod_mod_cancel [of 100 400 y] mod_mod_cancel [of 4 100 y] by simp_all
  have "k div 100 \<le> k div 4" by (rule div_le_mono2) simp_all
  then show ?thesis
    unfolding days_before_year_def days_before_month_13 is_leap_def Let_def diff_Suc_1 y
    unfolding d using m[unfolded y] by (auto simp: y ac_simps)
qed

lemma find_month_sum:
  assumes "i \<le> m" and "m \<le> i + k" and "1 \<le> d" and "d \<le> days_in_month y m"
  shows "find_month k y i (sum_list (map (days_in_month y) [i..<m]) + (d - 1)) = (m, d)"
  using assms
proof (induction k arbitrary: i)
  case 0
  then show ?case by simp
next
  case (Suc k)
  show ?case
  proof (cases "i = m")
    case True
    from Suc.prems have "d - 1 < days_in_month y m" by linarith
    with True Suc.prems show ?thesis by simp
  next
    case False
    with Suc.prems have "i < m" by simp
    then have "[i..<m] = i # [Suc i..<m]" by (simp add: upt_conv_Cons)
    with Suc.IH [of "Suc i"] Suc.prems \<open>i < m\<close> show ?thesis by simp
  qed
qed

lemma find_month_before:
  assumes "1 \<le> m" "m \<le> 12" "1 \<le> d" "d \<le> days_in_month y m"
  shows "find_month 11 y 1 (days_before_month y m + (d - 1)) = (m, d)"
  unfolding days_before_month_def by (rule find_month_sum) (use assms in simp_all)

lemma days_before_month_mono: "1 \<le> m \<Longrightarrow> m \<le> k \<Longrightarrow> days_before_month y m \<le> days_before_month y k"
proof (induction k)
  case (Suc k)
  then show ?case
    by (cases "m = Suc k") (simp_all add: days_before_month_Suc)
qed simp

lemma day_of_year_bound:
  assumes "1 \<le> m" "m \<le> 12" "d \<le> days_in_month y m"
  shows "days_before_month y m + d \<le> (if is_leap y then 366 else 365)"
proof -
  have "days_before_month y m + d \<le> days_before_month y (Suc m)"
    using assms by (simp add: days_before_month_Suc)
  also have "\<dots> \<le> days_before_month y 13"
    using assms by (intro days_before_month_mono) simp_all
  finally show ?thesis by (simp only: days_before_month_13)
qed

lemma div_mod_parts:
  fixes q r m :: nat
  assumes "r < m"
  shows "(m * q + r) div m = q" and "(m * q + r) mod m = r"
  using assms by simp_all

lemma year_parts:
  assumes "1 \<le> (y::nat)"
  obtains a b c e where "y = 400 * a + 100 * b + 4 * c + e + 1" and "b \<le> 3" "c \<le> 24" "e \<le> 3"
proof -
  have euclid: "\<exists>q r. k = m * q + r \<and> r < m" if "0 < m" for k m :: nat
    using that by (intro exI [of _ "k div m"] exI [of _ "k mod m"]) simp
  obtain a r where 1: "y - 1 = 400 * a + r" "r < 400" using euclid [of 400 "y - 1"] by auto
  obtain b q where 2: "r = 100 * b + q" "q < 100" using euclid [of 100 r] by auto
  obtain c e where 3: "q = 4 * c + e" "e < 4" using euclid [of 4 q] by auto
  show ?thesis by (rule that [of a b c e]) (use assms 1 2 3 in linarith)+
qed

lemma mod_eq_zero_small: "0 < x \<Longrightarrow> x \<le> m \<Longrightarrow> x mod m = 0 \<longleftrightarrow> x = m" for x m :: nat
  by (cases "x = m") simp_all

lemma is_leap_parts:
  assumes "b \<le> 3" "c \<le> 24" "e \<le> 3"
  shows "is_leap (400 * a + 100 * b + 4 * c + e + 1) \<longleftrightarrow> e = 3 \<and> (c = 24 \<longrightarrow> b = 3)"
proof -
  let ?y = "400 * a + 100 * b + 4 * c + e + 1"
  have "?y mod 4 = (e + 1 + 4 * (100 * a + 25 * b + c)) mod 4" by (simp add: algebra_simps)
  also have "\<dots> = (e + 1) mod 4" by (rule mod_mult_self2)
  also have "\<dots> = 0 \<longleftrightarrow> e = 3"
    using assms by (subst mod_eq_zero_small) auto
  finally have m4: "?y mod 4 = 0 \<longleftrightarrow> e = 3" .
  have "?y mod 100 = (4 * c + e + 1 + 100 * (4 * a + b)) mod 100" by (simp add: algebra_simps)
  also have "\<dots> = (4 * c + e + 1) mod 100" by (rule mod_mult_self2)
  also have "\<dots> = 0 \<longleftrightarrow> 4 * c + e + 1 = 100"
    using assms by (subst mod_eq_zero_small) auto
  also have "\<dots> \<longleftrightarrow> c = 24 \<and> e = 3" using assms by arith
  finally have m100: "?y mod 100 = 0 \<longleftrightarrow> c = 24 \<and> e = 3" .
  have "?y mod 400 = (100 * b + 4 * c + e + 1 + 400 * a) mod 400" by (simp add: algebra_simps)
  also have "\<dots> = (100 * b + 4 * c + e + 1) mod 400" by (rule mod_mult_self2)
  also have "\<dots> = 0 \<longleftrightarrow> 100 * b + 4 * c + e + 1 = 400"
    using assms by (subst mod_eq_zero_small) auto
  also have "\<dots> \<longleftrightarrow> b = 3 \<and> c = 24 \<and> e = 3" using assms by arith
  finally have m400: "?y mod 400 = 0 \<longleftrightarrow> b = 3 \<and> c = 24 \<and> e = 3" .
  show ?thesis unfolding is_leap_def m4 m100 m400 by auto
qed

lemma days_before_year_parts:
  assumes "b \<le> 3" "c \<le> 24" "e \<le> 3"
  shows "days_before_year (400 * a + 100 * b + 4 * c + e + 1) = 146097 * a + 36524 * b + 1461 * c + 365 * e"
proof -
  let ?k = "400 * a + 100 * b + 4 * c + e"
  have k: "?k = 4 * (100 * a + 25 * b + c) + e" "?k = 100 * (4 * a + b) + (4 * c + e)"
    "?k = 400 * a + (100 * b + 4 * c + e)" by simp_all
  have "?k div 4 = 100 * a + 25 * b + c"
    unfolding k(1) by (rule div_mod_parts) (use assms in simp)
  moreover have "?k div 100 = 4 * a + b"
    unfolding k(2) by (rule div_mod_parts) (use assms in simp)
  moreover have "?k div 400 = a"
    unfolding k(3) by (rule div_mod_parts) (use assms in simp)
  ultimately show ?thesis by (simp add: days_before_year_def)
qed

lemma ord_to_ymd_parts:
  assumes "b \<le> 3" "c \<le> 24" "e \<le> 3" and "doy < 365" and "1 \<le> n"
    and n: "n - 1 = 146097 * a + 36524 * b + 1461 * c + 365 * e + doy"
  shows "ord_to_ymd n =
    (case find_month 11 (400 * a + 100 * b + 4 * c + e + 1) 1 doy of
       (m, d) \<Rightarrow> (400 * a + 100 * b + 4 * c + e + 1, m, d))"
proof -
  have n': "n - 1 = 146097 * a + (36524 * b + (1461 * c + (365 * e + doy)))" using n by simp
  have l: "36524 * b + (1461 * c + (365 * e + doy)) < 146097" "1461 * c + (365 * e + doy) < 36524"
    "365 * e + doy < 1461" using assms(1-4) by linarith+
  note parts = div_mod_parts [OF l(1), of a] div_mod_parts [OF l(2), of b]
    div_mod_parts [OF l(3), of c] div_mod_parts [OF assms(4), of e]
  have y: "a * 400 + 1 + b * 100 + c * 4 + e = 400 * a + 100 * b + 4 * c + e + 1" by simp
  show ?thesis
    unfolding ord_to_ymd_def Let_def n' parts y using assms(1,3) by simp
qed

lemma ord_to_ymd_last:
  assumes "b \<le> 3" "c \<le> 24" "c = 24 \<longrightarrow> b = 3" and "1 \<le> n"
    and n: "n - 1 = 146097 * a + 36524 * b + 1461 * c + 1460"
  shows "ord_to_ymd n = (400 * a + 100 * b + 4 * c + 4, 12, 31)"
proof (cases "c = 24")
  case True
  with assms have "n - 1 = 146097 * a + 146096" "b = 3" by simp_all
  then show ?thesis using True by (simp add: ord_to_ymd_def Let_def)
next
  case False
  with assms have c: "c < 24" by simp
  have n': "n - 1 = 146097 * a + (36524 * b + (1461 * c + 1460))" using n by simp
  have l: "36524 * b + (1461 * c + 1460) < 146097" "1461 * c + 1460 < 36524" "(1460::nat) < 1461"
    using assms(1) c by linarith+
  note parts = div_mod_parts [OF l(1), of a] div_mod_parts [OF l(2), of b] div_mod_parts [OF l(3), of c]
  show ?thesis unfolding ord_to_ymd_def Let_def n' parts by simp
qed

lemma ord_to_ymd_of_ymd:
  assumes y: "1 \<le> y" and md: "1 \<le> m" "m \<le> 12" "1 \<le> d" "d \<le> days_in_month y m"
  shows "ord_to_ymd (ymd_to_ord y m d) = (y, m, d)"
proof -
  define doy where "doy = days_before_month y m + (d - 1)"
  obtain a b c e where y_eq: "y = 400 * a + 100 * b + 4 * c + e + 1"
    and bnd: "b \<le> 3" "c \<le> 24" "e \<le> 3"
    using y by (rule year_parts)
  have n: "ymd_to_ord y m d - 1 = 146097 * a + 36524 * b + 1461 * c + 365 * e + doy"
    using md(3) days_before_year_parts [OF bnd, of a]
    by (simp add: ymd_to_ord_def doy_def y_eq)
  have n1: "1 \<le> ymd_to_ord y m d" using md(3) by (simp add: ymd_to_ord_def)
  have find: "find_month 11 y 1 doy = (m, d)"
    unfolding doy_def using md by (rule find_month_before)
  have bound: "doy < (if is_leap y then 366 else 365)"
    using day_of_year_bound [OF md(1,2,4)] md(3) by (auto simp: doy_def)
  show ?thesis
  proof (cases "doy < 365")
    case True
    with ord_to_ymd_parts [OF bnd True n1 n] find show ?thesis by (simp add: y_eq)
  next
    case False
    with bound have doy: "doy = 365" and leap: "is_leap y" by (auto split: if_splits)
    with is_leap_parts [OF bnd, of a] have e: "e = 3" "c = 24 \<longrightarrow> b = 3" by (simp_all add: y_eq)
    have "find_month 11 y 1 365 = (12, 31)"
      using leap by (simp add: days_in_month_def find_month_numeral)
    with find doy have "m = 12" "d = 31" by simp_all
    with ord_to_ymd_last [OF bnd(1,2) e(2) n1, of a] n doy e show ?thesis by (simp add: y_eq)
  qed
qed

text \<open>Every ordinal is the ordinal of a date: the next day exists.\<close>

lemma ymd_surjective:
  "1 \<le> n \<Longrightarrow> \<exists>y m d. 1 \<le> y \<and> 1 \<le> m \<and> m \<le> 12 \<and> 1 \<le> d \<and> d \<le> days_in_month y m \<and> ymd_to_ord y m d = n"
proof (induction n rule: dec_induct)
  case base
  have "ymd_to_ord 1 1 1 = 1" by (simp add: ymd_to_ord_def days_before_year_def days_before_month_def)
  moreover have "1 \<le> days_in_month 1 1" using days_in_month_pos [of 1 1] by linarith
  ultimately show ?case by (intro exI [of _ 1]) simp
next
  case (step n)
  then obtain y m d where y: "1 \<le> y" and md: "1 \<le> m" "m \<le> 12" "1 \<le> d" "d \<le> days_in_month y m"
    and n: "ymd_to_ord y m d = n" by blast
  consider "d < days_in_month y m" | "d = days_in_month y m" "m < 12" | "d = days_in_month y m" "m = 12"
    using md by linarith
  then show ?case
  proof cases
    case 1
    with y md n show ?thesis
      by (intro exI [of _ y] exI [of _ m] exI [of _ "Suc d"]) (simp add: ymd_to_ord_def)
  next
    case 2
    have "1 \<le> days_in_month y (Suc m)" using days_in_month_pos [of y "Suc m"] by linarith
    with 2 y md n show ?thesis
      by (intro exI [of _ y] exI [of _ "Suc m"] exI [of _ 1]) (simp add: ymd_to_ord_def days_before_month_Suc)
  next
    case 3
    have "days_before_month y 13 = days_before_month y 12 + days_in_month y 12"
      using days_before_month_Suc [of 12 y] by simp
    moreover have "1 \<le> days_in_month (Suc y) 1" using days_in_month_pos [of "Suc y" 1] by linarith
    moreover have "days_before_month (Suc y) 1 = 0" by (simp add: days_before_month_def)
    ultimately show ?thesis using 3 y n
      by (intro exI [of _ "Suc y"] exI [of _ 1] exI [of _ 1]) (simp add: ymd_to_ord_def days_before_year_Suc)
  qed
qed

lemma ymd_of_ord:
  assumes "1 \<le> n" and "ord_to_ymd n = (y, m, d)"
  shows "ymd_to_ord y m d = n" and "1 \<le> y" "1 \<le> m" "m \<le> 12" "1 \<le> d" "d \<le> days_in_month y m"
proof -
  from ymd_surjective [OF assms(1)] obtain y' m' d' where
    ok: "1 \<le> y'" "1 \<le> m'" "m' \<le> 12" "1 \<le> d'" "d' \<le> days_in_month y' m'" and n: "ymd_to_ord y' m' d' = n"
    by blast
  from ord_to_ymd_of_ymd [OF ok] n assms(2) have "y = y'" "m = m'" "d = d'" by simp_all
  with ok n show "ymd_to_ord y m d = n" and "1 \<le> y" "1 \<le> m" "m \<le> 12" "1 \<le> d" "d \<le> days_in_month y m"
    by simp_all
qed

end
