(* ===== verification/Iso_Datetime.thy ===== *)
theory Iso_Datetime
  imports Gregorian
begin

text \<open>
  The part of Python 3.12's \<open>datetime\<close> the program rests on: \<open>datetime.fromisoformat\<close> and
  \<open>date.fromisoformat\<close> (on the UTF-8 bytes, with the digit and separator rules of the C
  implementation, week dates included), comparison of aware values, \<open>+ timedelta(minutes=n)\<close>
  and \<open>isoformat\<close>. \<open>None\<close> is the \<open>ValueError\<close> a malformed string raises. An offset is a number
  of microseconds east of UTC; a naive value has none.
\<close>

section \<open>Reading bytes\<close>

type_synonym bytes = "nat list"

definition utf8_bytes :: "string \<Rightarrow> bytes" where
  "utf8_bytes s = concat (map (\<lambda>c. let n = code_point c in
     if n < 128 then [n] else [192 + n div 64, 128 + n mod 64]) s)"

text \<open>A C string reads as 0 past its end.\<close>

definition peek :: "bytes \<Rightarrow> nat \<Rightarrow> nat" where
  "peek s i = (if i < length s then s ! i else 0)"

definition is_digit_byte :: "nat \<Rightarrow> bool" where
  "is_digit_byte c \<longleftrightarrow> 48 \<le> c \<and> c \<le> 57"

fun parse_digits :: "bytes \<Rightarrow> nat \<Rightarrow> nat \<Rightarrow> nat \<Rightarrow> (nat \<times> nat) option" where
  "parse_digits s p 0 v = Some (v, p)"
| "parse_digits s p (Suc n) v =
     (if is_digit_byte (peek s p) then parse_digits s (Suc p) n (10 * v + (peek s p - 48)) else None)"

definition digit_run_end :: "bytes \<Rightarrow> nat \<Rightarrow> nat" where
  "digit_run_end s p = p + length (takeWhile is_digit_byte (drop p s))"

text \<open>\<open>_find_isoformat_datetime_separator\<close>; 45 is \<open>-\<close> and 87 is \<open>W\<close>.\<close>

definition separator_location :: "bytes \<Rightarrow> nat option" where
  "separator_location s =
     (let n = length s in
      if n = 7 then Some 7
      else if peek s 4 = 45 then
        (if peek s 5 = 87 then
           (if n < 8 then None
            else if n > 8 \<and> peek s 8 = 45 then
              (if n = 9 then None
               else if n > 10 \<and> is_digit_byte (peek s 10) then Some 8
               else Some 10)
            else Some 8)
         else Some 10)
      else if peek s 4 = 87 then
        (let e = digit_run_end s 7 in
         if e < 9 then Some e else if e mod 2 = 0 then Some 7 else Some 8)
      else Some 8)"

text \<open>\<open>iso_to_ymd\<close>: a week date to a calendar date. The Monday of week 1 may lie before year 1.\<close>

definition iso_to_ymd :: "nat \<Rightarrow> nat \<Rightarrow> nat \<Rightarrow> (nat \<times> nat \<times> nat) option" where
  "iso_to_ymd y w d =
     (let first_day = ymd_to_ord y 1 1;
          week53 = (first_day mod 7 = 4 \<or> (first_day mod 7 = 3 \<and> is_leap y));
          first_weekday = (first_day + 6) mod 7;
          monday = int first_day - int first_weekday + (if first_weekday > 3 then 7 else 0);
          ordinal = monday + (int w - 1) * 7 + (int d - 1)
      in if \<not> (1 \<le> y \<and> y \<le> 9999) then None
         else if \<not> (1 \<le> w \<and> w \<le> 52 \<or> w = 53 \<and> week53) then None
         else if \<not> (1 \<le> d \<and> d \<le> 7) then None
         else if ordinal < 1 \<or> ordinal > int max_ordinal then None
         else Some (ord_to_ymd (nat ordinal)))"

text \<open>\<open>parse_isoformat_date\<close> on the first \<open>len\<close> bytes.\<close>

definition parse_iso_date :: "bytes \<Rightarrow> nat \<Rightarrow> (nat \<times> nat \<times> nat) option" where
  "parse_iso_date s len =
     (case parse_digits s 0 4 0 of None \<Rightarrow> None | Some (y, p) \<Rightarrow>
        (let sep = (peek s p = 45); p = (if sep then p + 1 else p) in
         if peek s p = 87 then
           (case parse_digits s (p + 1) 2 0 of None \<Rightarrow> None | Some (w, p) \<Rightarrow>
              if p < len then
                (if sep \<and> peek s p \<noteq> 45 then None
                 else case parse_digits s (if sep then p + 1 else p) 1 0 of
                     None \<Rightarrow> None | Some (d, _) \<Rightarrow> iso_to_ymd y w d)
              else iso_to_ymd y w 1)
         else
           (case parse_digits s p 2 0 of None \<Rightarrow> None | Some (m, p) \<Rightarrow>
              if sep \<and> peek s p \<noteq> 45 then None
              else case parse_digits s (if sep then p + 1 else p) 2 0 of
                  None \<Rightarrow> None | Some (d, _) \<Rightarrow> Some (y, m, d))))"

text \<open>
  \<open>parse_hh_mm_ss_ff\<close> from \<open>p\<close> to \<open>stop\<close>: up to three components, then a fraction. The result
  holds the components read, the microseconds, and whether input is left over. 58 is a colon,
  46 and 44 are the decimal marks.
\<close>

fun hms_loop :: "bytes \<Rightarrow> nat \<Rightarrow> nat \<Rightarrow> bool \<Rightarrow> nat list \<Rightarrow> nat \<Rightarrow> (nat list \<times> (bool + nat)) option" where
  "hms_loop s stop 0 has_sep vals p = Some (vals, Inr p)"
| "hms_loop s stop (Suc k) has_sep vals p =
     (case parse_digits s p 2 0 of None \<Rightarrow> None | Some (v, p1) \<Rightarrow>
        (let c = peek s p1; p2 = p1 + 1; vals' = vals @ [v];
             has_sep' = (if vals = [] then c = 58 else has_sep)
         in if stop \<le> p2 then Some (vals', Inl (c \<noteq> 0))
            else if has_sep' \<and> c = 58 then hms_loop s stop k has_sep' vals' p2
            else if c = 46 \<or> c = 44 then Some (vals', Inr p2)
            else if \<not> has_sep' then hms_loop s stop k has_sep' vals' p1
            else None))"

definition component :: "nat list \<Rightarrow> nat \<Rightarrow> nat" where
  "component vals i = (if i < length vals then vals ! i else 0)"

definition parse_hms :: "bytes \<Rightarrow> nat \<Rightarrow> nat \<Rightarrow> (nat \<times> nat \<times> nat \<times> nat \<times> bool) option" where
  "parse_hms s p stop =
     (case hms_loop s stop 3 True [] p of
        None \<Rightarrow> None
      | Some (vals, Inl rest) \<Rightarrow> Some (component vals 0, component vals 1, component vals 2, 0, rest)
      | Some (vals, Inr q) \<Rightarrow>
          (let n = min 6 (stop - q) in
           case parse_digits s q n 0 of None \<Rightarrow> None | Some (us, r) \<Rightarrow>
             Some (component vals 0, component vals 1, component vals 2, us * 10 ^ (6 - n),
                   peek s (digit_run_end s r) \<noteq> 0)))"

text \<open>Position of the first of \<open>+\<close>, \<open>-\<close>, \<open>Z\<close> from \<open>p\<close> on, or the end.\<close>

definition tz_position :: "bytes \<Rightarrow> nat \<Rightarrow> nat" where
  "tz_position s p = p + length (takeWhile (\<lambda>c. c \<notin> {43, 45, 90}) (drop p s))"

definition parse_iso_time :: "bytes \<Rightarrow> nat \<Rightarrow> (nat \<times> nat \<times> nat \<times> nat \<times> int option) option" where
  "parse_iso_time s p =
     (let stop = length s; tz = tz_position s p in
      case parse_hms s p tz of None \<Rightarrow> None | Some (h, mi, sec, us, rest) \<Rightarrow>
        if stop \<le> tz then (if rest then None else Some (h, mi, sec, us, None))
        else if peek s tz = 90 then
          (if peek s (tz + 1) \<noteq> 0 then None else Some (h, mi, sec, us, Some 0))
        else case parse_hms s (tz + 1) stop of None \<Rightarrow> None | Some (th, tm, ts, tus, rest') \<Rightarrow>
          (let sign = (if peek s tz = 45 then -1 else 1); secs = th * 3600 + tm * 60 + ts;
               off = (if secs = 0 then 0 else sign * (int secs * 1000000 + int tus))
           in if rest' then None
              else if \<bar>off\<bar> < 86400000000 then Some (h, mi, sec, us, Some off) else None))"

section \<open>Datetimes\<close>

record datetime =
  year :: nat
  month :: nat
  day :: nat
  hour :: nat
  minute :: nat
  second :: nat
  microsecond :: nat
  utcoffset :: "int option"

definition valid_datetime :: "datetime \<Rightarrow> bool" where
  "valid_datetime t \<longleftrightarrow>
     valid_ymd (year t) (month t) (day t) \<and> hour t < 24 \<and> minute t < 60 \<and> second t < 60 \<and>
     microsecond t < 1000000 \<and> (case utcoffset t of None \<Rightarrow> True | Some off \<Rightarrow> \<bar>off\<bar> < 86400000000)"

definition make_datetime :: "nat \<Rightarrow> nat \<Rightarrow> nat \<Rightarrow> nat \<Rightarrow> nat \<Rightarrow> nat \<Rightarrow> nat \<Rightarrow> int option \<Rightarrow> datetime option" where
  "make_datetime y m d h mi sec us off =
     (if valid_ymd y m d \<and> h < 24 \<and> mi < 60 \<and> sec < 60 \<and> us < 1000000
      then Some \<lparr>year = y, month = m, day = d, hour = h, minute = mi, second = sec,
                 microsecond = us, utcoffset = off\<rparr>
      else None)"

definition separator_width :: "nat \<Rightarrow> nat" where
  "separator_width c = (if c < 128 then 1 else 2)"

definition datetime_fromisoformat :: "string \<Rightarrow> datetime option" where
  "datetime_fromisoformat str =
     (let s = utf8_bytes str in
      if length s < 7 then None
      else case separator_location s of None \<Rightarrow> None | Some k \<Rightarrow>
        (case parse_iso_date s k of None \<Rightarrow> None | Some (y, m, d) \<Rightarrow>
           if k < length s then
             (case parse_iso_time s (k + separator_width (peek s k)) of None \<Rightarrow> None
              | Some (h, mi, sec, us, off) \<Rightarrow> make_datetime y m d h mi sec us off)
           else make_datetime y m d 0 0 0 0 None))"

definition date_fromisoformat :: "string \<Rightarrow> (nat \<times> nat \<times> nat) option" where
  "date_fromisoformat str =
     (let s = utf8_bytes str in
      if length s \<notin> {7, 8, 10} then None
      else case parse_iso_date s (length s) of None \<Rightarrow> None
        | Some (y, m, d) \<Rightarrow> if valid_ymd y m d then Some (y, m, d) else None)"

text \<open>Microseconds since the start of year 1, in local time and in UTC.\<close>

definition local_micros :: "datetime \<Rightarrow> int" where
  "local_micros t =
     (((int (ymd_to_ord (year t) (month t) (day t)) * 24 + int (hour t)) * 60 + int (minute t)) * 60
        + int (second t)) * 1000000 + int (microsecond t)"

definition utc_micros :: "datetime \<Rightarrow> int" where
  "utc_micros t = local_micros t - (case utcoffset t of None \<Rightarrow> 0 | Some off \<Rightarrow> off)"

definition is_aware :: "datetime \<Rightarrow> bool" where
  "is_aware t \<longleftrightarrow> utcoffset t \<noteq> None"

text \<open>\<open>value.replace("Z", "+00:00")\<close>.\<close>

definition replace_z :: "string \<Rightarrow> string" where
  "replace_z s = concat (map (\<lambda>c. if c = CHR ''Z'' then ''+00:00'' else [c]) s)"

text \<open>
  Evaluation of closed terms by the simplifier, which computes numerals in binary: the recursive
  functions at a numeral argument, and the definitions.
\<close>

lemma parse_digits_numeral [simp]:
  "parse_digits s p (numeral n) v =
     (if is_digit_byte (peek s p) then parse_digits s (Suc p) (pred_numeral n) (10 * v + (peek s p - 48)) else None)"
  by (simp add: numeral_eq_Suc)

lemma hms_loop_numeral [simp]:
  "hms_loop s stop (numeral k) has_sep vals p =
     (case parse_digits s p 2 0 of None \<Rightarrow> None | Some (v, p1) \<Rightarrow>
        (let c = peek s p1; p2 = p1 + 1; vals' = vals @ [v];
             has_sep' = (if vals = [] then c = 58 else has_sep)
         in if stop \<le> p2 then Some (vals', Inl (c \<noteq> 0))
            else if has_sep' \<and> c = 58 then hms_loop s stop (pred_numeral k) has_sep' vals' p2
            else if c = 46 \<or> c = 44 then Some (vals', Inr p2)
            else if \<not> has_sep' then hms_loop s stop (pred_numeral k) has_sep' vals' p1
            else None))"
  by (simp add: numeral_eq_Suc)

lemmas datetime_eval = datetime_fromisoformat_def date_fromisoformat_def utf8_bytes_def
  code_point_def peek_def is_digit_byte_def separator_location_def parse_iso_date_def
  parse_iso_time_def parse_hms_def tz_position_def digit_run_end_def component_def
  make_datetime_def valid_ymd_def days_in_month_def is_leap_def separator_width_def Let_def
  replace_z_def iso_to_ymd_def ord_to_ymd_def ymd_to_ord_def days_before_year_def
  days_before_month_def max_ordinal_def utc_micros_def local_micros_def is_aware_def
  find_month_numeral

lemma sample_timestamps:
  "map_option utc_micros (datetime_fromisoformat (replace_z ''2024-02-29T23:30:00Z''))
     = map_option utc_micros (datetime_fromisoformat ''20240301T050000+0530'')"
  "datetime_fromisoformat ''2023-02-29T00:00'' = None"
  "map_option is_aware (datetime_fromisoformat ''2024-W09-4'') = Some False"
  "date_fromisoformat ''2024-W09-4'' = Some (2024, 2, 29)"
  by (simp_all add: datetime_eval cong: let_weak_cong)

end
