(* ===== verification/Operation_Specs.thy ===== *)
theory Operation_Specs
  imports Contracts Iso_Datetime
begin

text \<open>
  \<open>app/orchestration/operation_specs.py\<close>: the catalog of operations the planner may use and the
  validation of their arguments, which runs at planning time (references to earlier steps are
  let through) and again before every dispatch (they are not). Error messages are kept.
\<close>

section \<open>The catalog\<close>

record operation_spec =
  description :: string
  required_arguments :: "(string \<times> string) list"
  optional_arguments :: "(string \<times> string) list"
  result_shape :: "json option"
  reference_examples :: "json option"

definition gmail_specifications :: "(string \<times> operation_spec) list" where
  "gmail_specifications =
    [(''search_emails'', \<lparr>
        description = ''Search Gmail messages using optional sender, text, and date filters.'',
        required_arguments = [],
        optional_arguments = [(''sender'', ''email/string''),
                              (''keywords'', ''string''),
                              (''date_from'', ''ISO-8601 date (YYYY-MM-DD), inclusive''),
                              (''date_to'', ''ISO-8601 date (YYYY-MM-DD), exclusive''),
                              (''max_results'', ''integer from 1 to 100'')],
        result_shape = None,
        reference_examples = None\<rparr>),
     (''get_email'', \<lparr>
        description = ''Retrieve one Gmail message including its text body.'',
        required_arguments = [(''message_id'', ''non-empty string'')],
        optional_arguments = [],
        result_shape = None,
        reference_examples = None\<rparr>),
     (''draft_email'', \<lparr>
        description = ''Create an email draft without sending it.'',
        required_arguments = [(''to'', ''email/string''),
                              (''subject'', ''non-empty string''),
                              (''body'', ''non-empty string'')],
        optional_arguments = [],
        result_shape = None,
        reference_examples = None\<rparr>),
     (''send_email'', \<lparr>
        description = ''Send an existing draft_id, or provide to, subject, and body.'',
        required_arguments = [],
        optional_arguments = [(''draft_id'', ''non-empty string; alternative to message fields''),
                              (''to'', ''email/string; required without draft_id''),
                              (''subject'', ''non-empty string; required without draft_id''),
                              (''body'', ''non-empty string; required without draft_id'')],
        result_shape = None,
        reference_examples = None\<rparr>),
     (''update_labels'', \<lparr>
        description = ''Add or remove Gmail label identifiers on a message.'',
        required_arguments = [(''message_id'', ''non-empty string'')],
        optional_arguments = [(''add_label_ids'', ''array of strings''),
                              (''remove_label_ids'', ''array of strings'')],
        result_shape = None,
        reference_examples = None\<rparr>)]"

definition google_calendar_specifications :: "(string \<times> operation_spec) list" where
  "google_calendar_specifications =
    [(''search_events'', \<lparr>
        description = ''Search calendar events within an optional bounded time range.'',
        required_arguments = [],
        optional_arguments = [(''time_min'', ''ISO-8601 timezone-aware timestamp''),
                              (''time_max'', ''ISO-8601 timezone-aware timestamp''),
                              (''keywords'', ''string''),
                              (''attendee'', ''email/string''),
                              (''max_results'', ''integer from 1 to 250''),
                              (''calendar_id'', ''string'')],
        result_shape = Some (JObj [(''events'', JList [JObj [(''id'', JStr ''string''),
          (''title'', JStr ''string''), (''description'', JStr ''string''),
          (''start'', JStr ''ISO-8601 timestamp''), (''end'', JStr ''ISO-8601 timestamp''),
          (''organizer'', JStr ''string or null''), (''attendees'', JList [JStr ''email/string'']),
          (''status'', JStr ''string'')]]), (''next_page_token'', JStr ''string or null'')]),
        reference_examples = Some (JObj [(''selected_event_context'', JObj [
          (''$step'', JStr ''calendar_step_id''), (''path'', JList [JStr ''events'', JInt 0])]),
          (''first_event_title'', JObj [(''$step'', JStr ''calendar_step_id''),
          (''path'', JList [JStr ''events'', JInt 0, JStr ''title''])]),
          (''first_event_attendees'', JObj [(''$step'', JStr ''calendar_step_id''),
          (''path'', JList [JStr ''events'', JInt 0, JStr ''attendees''])])])\<rparr>),
     (''get_event'', \<lparr>
        description = ''Retrieve one calendar event.'',
        required_arguments = [(''event_id'', ''non-empty string'')],
        optional_arguments = [(''calendar_id'', ''string'')],
        result_shape = None,
        reference_examples = None\<rparr>),
     (''create_event'', \<lparr>
        description = ''Create a calendar event; start and end must include timezones.'',
        required_arguments = [(''title'', ''non-empty string''),
                              (''start'', ''ISO-8601 timezone-aware timestamp''),
                              (''end'', ''ISO-8601 timezone-aware timestamp'')],
        optional_arguments = [(''calendar_id'', ''string''),
                              (''timezone'', ''IANA timezone string''),
                              (''description'', ''string''),
                              (''attendees'', ''array of email strings''),
                              (''create_google_meet'', ''boolean; true only when the user '' @
                                ''requested Google Meet'')],
        result_shape = None,
        reference_examples = None\<rparr>),
     (''update_event'', \<lparr>
        description = ''Update supplied fields on an existing calendar event.'',
        required_arguments = [(''event_id'', ''non-empty string'')],
        optional_arguments = [(''calendar_id'', ''string''),
                              (''title'', ''string''),
                              (''start'', ''ISO-8601 timezone-aware timestamp''),
                              (''end'', ''ISO-8601 timezone-aware timestamp''),
                              (''timezone'', ''IANA timezone string''),
                              (''description'', ''string''),
                              (''attendees'', ''array of email strings'')],
        result_shape = None,
        reference_examples = None\<rparr>),
     (''delete_event'', \<lparr>
        description = ''Delete an existing calendar event.'',
        required_arguments = [(''event_id'', ''non-empty string'')],
        optional_arguments = [(''calendar_id'', ''string'')],
        result_shape = None,
        reference_examples = None\<rparr>)]"

definition google_drive_specifications :: "(string \<times> operation_spec) list" where
  "google_drive_specifications =
    [(''search_files'', \<lparr>
        description = ''Search non-trashed Drive files using name, type, and modification filters.'',
        required_arguments = [],
        optional_arguments = [(''filename'', ''string''),
                              (''mime_type'', ''string''),
                              (''modified_after'', ''ISO-8601 timezone-aware timestamp, inclusive''),
                              (''modified_before'', ''ISO-8601 timezone-aware timestamp, exclusive''),
                              (''max_results'', ''integer from 1 to 100'')],
        result_shape = None,
        reference_examples = None\<rparr>),
     (''get_file'', \<lparr>
        description = ''Retrieve Drive file metadata and export Google Docs as text.'',
        required_arguments = [(''file_id'', ''non-empty string'')],
        optional_arguments = [],
        result_shape = None,
        reference_examples = None\<rparr>),
     (''share_file'', \<lparr>
        description = ''Share a Drive file with one user.'',
        required_arguments = [(''file_id'', ''non-empty string''),
                              (''email'', ''email/string'')],
        optional_arguments = [(''role'', ''reader, commenter, or writer'')],
        result_shape = None,
        reference_examples = None\<rparr>),
     (''create_folder'', \<lparr>
        description = ''Create a Drive folder, optionally within a parent folder.'',
        required_arguments = [(''name'', ''non-empty string'')],
        optional_arguments = [(''parent_id'', ''string'')],
        result_shape = None,
        reference_examples = None\<rparr>),
     (''move_file'', \<lparr>
        description = ''Move a Drive file to another folder.'',
        required_arguments = [(''file_id'', ''non-empty string''),
                              (''destination_folder_id'', ''non-empty string'')],
        optional_arguments = [],
        result_shape = None,
        reference_examples = None\<rparr>)]"

definition workspace_specifications :: "(string \<times> operation_spec) list" where
  "workspace_specifications =
    [(''workspace_search'', \<lparr>
        description = ''Read-only semantic and keyword search over the user's locally indexed '' @
          ''Gmail, Calendar, and Drive content. Use native Google operations for exact IDs, fresh '' @
          ''state, and all writes.'',
        required_arguments = [
          (''query'', ''non-empty search string, or one Calendar event object whose title, '' @
          ''description, and limited attendees form the semantic query'')],
        optional_arguments = [
          (''services'', ''array containing gmail, google_calendar, and/or google_drive''),
                              (''top_k'', ''integer from 1 to 50; defaults to 5''),
                              (''sender'', ''email/string metadata filter''),
                              (''date_from'', ''ISO-8601 timezone-aware timestamp, inclusive''),
                              (''date_to'', ''ISO-8601 timezone-aware timestamp, exclusive''),
                              (''mime_type'', ''Drive MIME type filter''),
                              (''attendee'', ''Calendar attendee email filter'')],
        result_shape = None,
        reference_examples = None\<rparr>)]"

fun operation_specifications :: "service \<Rightarrow> (string \<times> operation_spec) list" where
  "operation_specifications GMAIL = gmail_specifications"
| "operation_specifications GOOGLE_CALENDAR = google_calendar_specifications"
| "operation_specifications GOOGLE_DRIVE = google_drive_specifications"
| "operation_specifications WORKSPACE = workspace_specifications"

definition planner_operation_catalog :: "(string \<times> (string \<times> operation_spec) list) list" where
  "planner_operation_catalog =
     map (\<lambda>s. (service_value s, operation_specifications s)) [GMAIL, GOOGLE_CALENDAR, GOOGLE_DRIVE, WORKSPACE]"

text \<open>The names of the required and of the optional arguments of an operation.\<close>

definition argument_names :: "operation_spec \<Rightarrow> string list \<times> string list" where
  "argument_names sp = (dict_keys (required_arguments sp), dict_keys (optional_arguments sp))"

definition spec_argument_names :: "service \<Rightarrow> string \<Rightarrow> (string list \<times> string list) option" where
  "spec_argument_names svc op = map_option argument_names (dict_get (operation_specifications svc) op)"

lemma spec_argument_names_eq:
  "spec_argument_names GMAIL op = map_of
     [(''search_emails'', [], [''sender'', ''keywords'', ''date_from'', ''date_to'', ''max_results'']),
      (''get_email'', [''message_id''], []),
      (''draft_email'', [''to'', ''subject'', ''body''], []),
      (''send_email'', [], [''draft_id'', ''to'', ''subject'', ''body'']),
      (''update_labels'', [''message_id''], [''add_label_ids'', ''remove_label_ids''])] op"
  "spec_argument_names GOOGLE_CALENDAR op = map_of
     [(''search_events'', [], [''time_min'', ''time_max'', ''keywords'', ''attendee'', ''max_results'', ''calendar_id'']),
      (''get_event'', [''event_id''], [''calendar_id'']),
      (''create_event'', [''title'', ''start'', ''end''],
         [''calendar_id'', ''timezone'', ''description'', ''attendees'', ''create_google_meet'']),
      (''update_event'', [''event_id''],
         [''calendar_id'', ''title'', ''start'', ''end'', ''timezone'', ''description'', ''attendees'']),
      (''delete_event'', [''event_id''], [''calendar_id''])] op"
  "spec_argument_names GOOGLE_DRIVE op = map_of
     [(''search_files'', [], [''filename'', ''mime_type'', ''modified_after'', ''modified_before'', ''max_results'']),
      (''get_file'', [''file_id''], []),
      (''share_file'', [''file_id'', ''email''], [''role'']),
      (''create_folder'', [''name''], [''parent_id'']),
      (''move_file'', [''file_id'', ''destination_folder_id''], [])] op"
  "spec_argument_names WORKSPACE op = map_of
     [(''workspace_search'', [''query''],
         [''services'', ''top_k'', ''sender'', ''date_from'', ''date_to'', ''mime_type'', ''attendee''])] op"
  by (simp_all add: spec_argument_names_def argument_names_def dict_keys_def gmail_specifications_def
      google_calendar_specifications_def google_drive_specifications_def workspace_specifications_def)

section \<open>Argument checks\<close>

definition list_argument_names :: "string list" where
  "list_argument_names = [''add_label_ids'', ''remove_label_ids'', ''attendees'', ''services'']"

definition timestamp_argument_names :: "string list" where
  "timestamp_argument_names =
     [''time_min'', ''time_max'', ''start'', ''end'', ''modified_after'', ''modified_before'']"

text \<open>\<open>_contains_step_reference\<close>.\<close>

fun contains_step_reference :: "json \<Rightarrow> bool"
  and contains_ref_list :: "json list \<Rightarrow> bool" and contains_ref_items :: "dict \<Rightarrow> bool" where
  "contains_step_reference (JObj d) = (has_key d ''$step'' \<or> contains_ref_items d)"
| "contains_step_reference (JList xs) = contains_ref_list xs"
| "contains_step_reference _ = False"
| "contains_ref_list [] = False"
| "contains_ref_list (x # xs) = (contains_step_reference x \<or> contains_ref_list xs)"
| "contains_ref_items [] = False"
| "contains_ref_items ((k, v) # kvs) = (contains_step_reference v \<or> contains_ref_items kvs)"

definition blank :: "string \<Rightarrow> bool" where
  "blank s \<longleftrightarrow> py_strip s = []"

definition validate_workspace_query :: "json \<Rightarrow> py_error + unit" where
  "validate_workspace_query v =
     (let bad = Inl (ValueError ''query must be a non-empty string or Calendar event context'') in
      case v of
        JStr s \<Rightarrow> if \<not> blank s then Inr () else bad
      | JObj d \<Rightarrow>
          (case dict_get d ''title'' of
             Some (JStr t) \<Rightarrow>
               if blank t then bad
               else if (case dict_get d ''description'' of None \<Rightarrow> False | Some JNull \<Rightarrow> False | Some x \<Rightarrow> \<not> is_str x)
                 then Inl (ValueError ''workspace event description must be a string'')
               else if (case dict_get d ''attendees'' of None \<Rightarrow> False | Some JNull \<Rightarrow> False
                   | Some (JList xs) \<Rightarrow> list_ex (\<lambda>x. \<not> is_str x) xs | Some _ \<Rightarrow> True)
                 then Inl (ValueError ''workspace event attendees must be an array of strings'')
               else Inr ()
           | _ \<Rightarrow> bad)
      | _ \<Rightarrow> bad)"

definition int_in_range :: "json \<Rightarrow> int \<Rightarrow> bool" where
  "int_in_range v upper = (case v of JInt i \<Rightarrow> 1 \<le> i \<and> i \<le> upper | _ \<Rightarrow> False)"

definition max_results_upper :: "service \<Rightarrow> int" where
  "max_results_upper svc = (if svc = GOOGLE_CALENDAR then 250 else 100)"

definition validate_max_results :: "service \<Rightarrow> string \<Rightarrow> json \<Rightarrow> py_error + unit" where
  "validate_max_results svc op v =
     (if int_in_range v (max_results_upper svc) then Inr ()
      else Inl (ValueError (''max_results for '' @ op @ '' must be between 1 and '' @
             (if svc = GOOGLE_CALENDAR then ''250'' else ''100''))))"

definition is_nonempty_str :: "json \<Rightarrow> bool" where
  "is_nonempty_str v = (case v of JStr s \<Rightarrow> s \<noteq> [] | _ \<Rightarrow> False)"

text \<open>\<open>_aware_timestamp\<close> and \<open>_iso_date\<close> return the parsed value.\<close>

definition aware_timestamp :: "json \<Rightarrow> string \<Rightarrow> py_error + datetime" where
  "aware_timestamp v name =
     (case v of
        JStr s \<Rightarrow>
          (case datetime_fromisoformat (replace_z s) of
             None \<Rightarrow> Inl (ValueError (name @ '' must be an ISO-8601 timestamp''))
           | Some t \<Rightarrow> if is_aware t then Inr t else Inl (ValueError (name @ '' must include a timezone'')))
      | _ \<Rightarrow> Inl (ValueError (name @ '' must be an ISO-8601 timestamp'')))"

definition iso_date :: "json \<Rightarrow> string \<Rightarrow> py_error + (nat \<times> nat \<times> nat)" where
  "iso_date v name =
     (case v of
        JStr s \<Rightarrow>
          (case date_fromisoformat s of
             None \<Rightarrow> Inl (ValueError (name @ '' must be an ISO-8601 date'')) | Some d \<Rightarrow> Inr d)
      | _ \<Rightarrow> Inl (ValueError (name @ '' must be an ISO-8601 date'')))"

definition date_before :: "nat \<times> nat \<times> nat \<Rightarrow> nat \<times> nat \<times> nat \<Rightarrow> bool" where
  "date_before a b = (case (a, b) of ((y, m, d), (y', m', d')) \<Rightarrow>
     y < y' \<or> y = y' \<and> (m < m' \<or> m = m' \<and> d < d'))"

definition discard :: "py_error + 'a \<Rightarrow> py_error + unit" where
  "discard r = (case r of Inl e \<Rightarrow> Inl e | Inr _ \<Rightarrow> Inr ())"

text \<open>The body of the loop over \<open>arguments.items()\<close>.\<close>

definition check_argument :: "service \<Rightarrow> string \<Rightarrow> bool \<Rightarrow> string \<times> json \<Rightarrow> py_error + unit" where
  "check_argument svc op allow_refs nv = (case nv of (name, value) \<Rightarrow>
     if allow_refs \<and> contains_step_reference value then Inr ()
     else if svc = WORKSPACE \<and> op = ''workspace_search'' \<and> name = ''query'' then
       validate_workspace_query value
     else if name = ''max_results'' then validate_max_results svc op value
     else if name = ''top_k'' then
       (if int_in_range value 50 then Inr () else Inl (ValueError ''top_k must be between 1 and 50''))
     else if name = ''create_google_meet'' then
       (case value of JBool _ \<Rightarrow> Inr () | _ \<Rightarrow> Inl (ValueError ''create_google_meet must be a boolean''))
     else if name \<in> set list_argument_names then
       (case value of
          JList xs \<Rightarrow> if list_all is_nonempty_str xs then Inr ()
            else Inl (ValueError (name @ '' must be an array of non-empty strings''))
        | _ \<Rightarrow> Inl (ValueError (name @ '' must be an array of non-empty strings'')))
     else if name \<in> set timestamp_argument_names then discard (aware_timestamp value name)
     else if name = ''date_from'' \<or> name = ''date_to'' then
       (if svc = WORKSPACE then discard (aware_timestamp value name) else discard (iso_date value name))
     else if is_nonempty_str value then Inr ()
     else Inl (ValueError (name @ '' must be a non-empty string'')))"

definition qualified_name :: "service \<Rightarrow> string \<Rightarrow> string" where
  "qualified_name svc op = service_value svc @ ''.'' @ op"

definition missing_names :: "string list \<Rightarrow> dict \<Rightarrow> string list" where
  "missing_names required args = filter (\<lambda>k. \<not> has_key args k) required"

text \<open>\<open>_require\<close>, also the check of the required arguments.\<close>

definition require_names :: "dict \<Rightarrow> string list \<Rightarrow> service \<Rightarrow> string \<Rightarrow> py_error + unit" where
  "require_names args required svc op =
     (if missing_names required args \<noteq> [] then
        Inl (ValueError (''Missing arguments for '' @ qualified_name svc op @ '': '' @
               py_join '', '' (sorted_strs (missing_names required args))))
      else Inr ())"

text \<open>\<open>_validate_order\<close> and \<open>_validate_date_order\<close> with the parser as a parameter.\<close>

definition validate_order_with ::
  "(json \<Rightarrow> string \<Rightarrow> py_error + 't) \<Rightarrow> ('t \<Rightarrow> 't \<Rightarrow> bool) \<Rightarrow> dict \<Rightarrow> string \<Rightarrow> string \<Rightarrow> py_error + unit" where
  "validate_order_with parse before args start_name end_name =
     (case (dict_get args start_name, dict_get args end_name) of
        (Some a, Some b) \<Rightarrow>
          if contains_step_reference a \<or> contains_step_reference b then Inr ()
          else (case parse a start_name of Inl e \<Rightarrow> Inl e | Inr s \<Rightarrow>
            (case parse b end_name of Inl e \<Rightarrow> Inl e | Inr t \<Rightarrow>
               if before s t then Inr ()
               else Inl (ValueError (start_name @ '' must be before '' @ end_name))))
      | _ \<Rightarrow> Inr ())"

definition validate_order :: "dict \<Rightarrow> string \<Rightarrow> string \<Rightarrow> py_error + unit" where
  "validate_order = validate_order_with aware_timestamp (\<lambda>s t. utc_micros s < utc_micros t)"

definition validate_date_order :: "dict \<Rightarrow> string \<Rightarrow> string \<Rightarrow> py_error + unit" where
  "validate_date_order = validate_order_with iso_date date_before"

text \<open>\<open>x not in {...}\<close> for a set of strings: a list or a dict is unhashable and raises.\<close>

definition check_member :: "string list \<Rightarrow> py_error \<Rightarrow> json \<Rightarrow> py_error + unit" where
  "check_member allowed err v =
     (case v of
        JStr s \<Rightarrow> if s \<in> set allowed then Inr () else Inl err
      | JList _ \<Rightarrow> Inl TypeError
      | JObj _ \<Rightarrow> Inl TypeError
      | _ \<Rightarrow> Inl err)"

definition check_role :: "string \<Rightarrow> bool \<Rightarrow> dict \<Rightarrow> py_error + unit" where
  "check_role op allow_refs args =
     (let role = dict_get_or args ''role'' (JStr ''reader'') in
      if op = ''share_file'' \<and> \<not> (allow_refs \<and> contains_step_reference role) then
        check_member [''reader'', ''commenter'', ''writer'']
          (ValueError ''role must be reader, commenter, or writer'') role
      else Inr ())"

text \<open>Iterating over a dict yields its keys; iterating over a number or \<open>None\<close> raises.\<close>

definition check_services :: "dict \<Rightarrow> py_error + unit" where
  "check_services args =
     (let allowed = map service_value [GMAIL, GOOGLE_CALENDAR, GOOGLE_DRIVE];
          err = ValueError ''services contains an unsupported workspace service'' in
      case dict_get_or args ''services'' (JList []) of
        JList xs \<Rightarrow> for_each (check_member allowed err) xs
      | JObj d \<Rightarrow> for_each (check_member allowed err) (map JStr (dict_keys d))
      | JStr s \<Rightarrow> for_each (check_member allowed err) (map (\<lambda>c. JStr [c]) s)
      | _ \<Rightarrow> Inl TypeError)"

definition check_service_rules :: "service \<Rightarrow> dict \<Rightarrow> py_error + unit" where
  "check_service_rules svc args =
     (case svc of
        GOOGLE_CALENDAR \<Rightarrow>
          (case validate_order args ''time_min'' ''time_max'' of Inl e \<Rightarrow> Inl e
           | Inr _ \<Rightarrow> validate_order args ''start'' ''end'')
      | GOOGLE_DRIVE \<Rightarrow> validate_order args ''modified_after'' ''modified_before''
      | GMAIL \<Rightarrow> validate_date_order args ''date_from'' ''date_to''
      | WORKSPACE \<Rightarrow>
          (case check_services args of Inl e \<Rightarrow> Inl e
           | Inr _ \<Rightarrow> validate_order args ''date_from'' ''date_to''))"

definition validate_operation_arguments :: "service \<Rightarrow> string \<Rightarrow> dict \<Rightarrow> bool \<Rightarrow> py_error + unit" where
  "validate_operation_arguments svc op args allow_refs =
     (case spec_argument_names svc op of
        None \<Rightarrow> Inl (ValueError (''Unsupported operation: '' @ qualified_name svc op))
      | Some (required, optional) \<Rightarrow>
          (let unknown = filter (\<lambda>k. k \<notin> set required \<and> k \<notin> set optional) (dict_keys args) in
           if unknown \<noteq> [] then
             Inl (ValueError (''Unsupported arguments for '' @ qualified_name svc op @ '': '' @
                    py_join '', '' (sorted_strs unknown)))
           else case require_names args required svc op of Inl e \<Rightarrow> Inl e | Inr _ \<Rightarrow>
             (case for_each (check_argument svc op allow_refs) args of Inl e \<Rightarrow> Inl e | Inr _ \<Rightarrow>
             (case (if op = ''send_email'' \<and> \<not> has_key args ''draft_id''
                    then require_names args [''to'', ''subject'', ''body''] svc op else Inr ()) of
                Inl e \<Rightarrow> Inl e | Inr _ \<Rightarrow>
             (if op = ''update_event'' \<and> list_all (\<lambda>k. k = ''event_id'' \<or> k = ''calendar_id'') (dict_keys args)
              then Inl (ValueError ''update_event requires at least one event field'')
              else case check_role op allow_refs args of Inl e \<Rightarrow> Inl e
                | Inr _ \<Rightarrow> check_service_rules svc args)))))"

section \<open>What an accepted call satisfies\<close>

lemma discard_Inr [simp]: "discard r = Inr u \<longleftrightarrow> (\<exists>x. r = Inr x)"
  by (cases r) (simp_all add: discard_def)

lemma aware_timestamp_Inr:
  "aware_timestamp v name = Inr t \<longleftrightarrow>
     (\<exists>s. v = JStr s \<and> datetime_fromisoformat (replace_z s) = Some t \<and> is_aware t)"
  by (auto simp: aware_timestamp_def split: json.splits option.splits if_splits)

lemma validate_order_with_Inr:
  assumes "validate_order_with parse before args a b = Inr ()"
    and "dict_get args a = Some x" and "dict_get args b = Some y"
    and "\<not> contains_step_reference x" and "\<not> contains_step_reference y"
  obtains s t where "parse x a = Inr s" and "parse y b = Inr t" and "before s t"
  using assms by (auto simp: validate_order_with_def split: sum.splits if_splits)

lemma require_names_Inr:
  "require_names args ks svc op = Inr () \<longleftrightarrow> (\<forall>k \<in> set ks. has_key args k)"
  by (auto simp: require_names_def missing_names_def filter_empty_conv)

lemma validate_operation_arguments_Inr:
  "validate_operation_arguments svc op args allow_refs = Inr () \<longleftrightarrow>
     (\<exists>required optional. spec_argument_names svc op = Some (required, optional) \<and>
        set (dict_keys args) \<subseteq> set required \<union> set optional \<and>
        (\<forall>k \<in> set required. has_key args k)) \<and>
     (\<forall>nv \<in> set args. check_argument svc op allow_refs nv = Inr ()) \<and>
     (op = ''send_email'' \<longrightarrow> has_key args ''draft_id'' \<or>
        has_key args ''to'' \<and> has_key args ''subject'' \<and> has_key args ''body'') \<and>
     (op = ''update_event'' \<longrightarrow> (\<exists>k. has_key args k \<and> k \<noteq> ''event_id'' \<and> k \<noteq> ''calendar_id'')) \<and>
     check_role op allow_refs args = Inr () \<and> check_service_rules svc args = Inr ()"
    (is "_ \<longleftrightarrow> ?names \<and> ?each \<and> ?send \<and> ?update \<and> ?role \<and> ?rules")
proof (cases "spec_argument_names svc op")
  case None
  then show ?thesis by (simp add: validate_operation_arguments_def)
next
  case (Some ro)
  obtain required optional where ro: "ro = (required, optional)" by (cases ro)
  have unknown: "filter (\<lambda>k. k \<notin> set required \<and> k \<notin> set optional) (dict_keys args) = [] \<longleftrightarrow>
      set (dict_keys args) \<subseteq> set required \<union> set optional"
    by (auto simp: filter_empty_conv)
  have only: "list_all (\<lambda>k. k = ''event_id'' \<or> k = ''calendar_id'') (dict_keys args) \<longleftrightarrow>
      \<not> (\<exists>k. has_key args k \<and> k \<noteq> ''event_id'' \<and> k \<noteq> ''calendar_id'')"
    by (auto simp: list_all_iff dict_keys_def has_key_def)
  have bind: "(case r of Inl e \<Rightarrow> Inl e | Inr _ \<Rightarrow> q) = Inr () \<longleftrightarrow> r = Inr () \<and> q = Inr ()"
    for r q :: "py_error + unit"
    by (cases r) auto
  show ?thesis
    unfolding validate_operation_arguments_def Some ro option.case prod.case Let_def
    by (simp add: unknown bind require_names_Inr only)
qed

lemma accepted_argument:
  assumes "validate_operation_arguments svc op args allow_refs = Inr ()" and "dict_get args k = Some v"
  shows "check_argument svc op allow_refs (k, v) = Inr ()"
  using assms by (auto simp: validate_operation_arguments_Inr dest: map_of_SomeD)

text \<open>Arguments accepted for dispatch are accepted at planning time too.\<close>

lemma check_argument_mono:
  "check_argument svc op False nv = Inr () \<Longrightarrow> check_argument svc op True nv = Inr ()"
  by (cases nv; cases "contains_step_reference (snd nv)") (simp_all add: check_argument_def)

lemma check_role_mono: "check_role op False args = Inr () \<Longrightarrow> check_role op True args = Inr ()"
  by (auto simp: check_role_def Let_def split: if_splits)

text \<open>A value checked as a list of strings or as a string cannot be unhashable later.\<close>

lemma accepted_services:
  assumes "check_argument WORKSPACE op False (''services'', v) = Inr ()"
  obtains xs where "v = JList xs" and "list_all is_nonempty_str xs"
  using assms by (cases v) (auto simp: check_argument_def list_argument_names_def split: if_splits)

lemma accepted_role:
  assumes "check_argument svc op False (''role'', v) = Inr ()"
  obtains s where "v = JStr s"
  using assms
  by (cases v) (auto simp: check_argument_def list_argument_names_def timestamp_argument_names_def
      is_nonempty_str_def split: if_splits)

lemma check_member_str: "is_nonempty_str v \<Longrightarrow> check_member allowed err v \<noteq> Inl TypeError \<or> err = TypeError"
  by (cases v) (auto simp: check_member_def is_nonempty_str_def)

lemma for_each_Inl: "for_each f xs = Inl e \<Longrightarrow> \<exists>x \<in> set xs. f x = Inl e"
  by (induction xs) (auto split: sum.splits)

section \<open>Properties\<close>

lemma dispatch_check_services:
  assumes "\<And>v. dict_get args ''services'' = Some v \<Longrightarrow>
     check_argument WORKSPACE op False (''services'', v) = Inr ()"
  shows "check_services args \<noteq> Inl TypeError"
proof (cases "dict_get args ''services''")
  case None
  then show ?thesis by (simp add: check_services_def dict_get_or_def)
next
  case (Some v)
  from assms [OF this] obtain xs where "v = JList xs" "list_all is_nonempty_str xs"
    by (rule accepted_services)
  with Some show ?thesis
    by (auto simp: check_services_def dict_get_or_def list_all_iff dest!: for_each_Inl check_member_str)
qed

lemma validate_order_with_no_type_error:
  assumes "\<And>v n. parse v n \<noteq> Inl TypeError"
  shows "validate_order_with parse before args a b \<noteq> Inl TypeError"
proof
  assume "validate_order_with parse before args a b = Inl TypeError"
  then show False
    using assms unfolding validate_order_with_def by (auto split: option.splits sum.splits if_splits)
qed

lemma parsers_no_type_error: "aware_timestamp v n \<noteq> Inl TypeError" "iso_date v n \<noteq> Inl TypeError"
  by (auto simp: aware_timestamp_def iso_date_def split: json.splits option.splits)

lemma order_no_type_error:
  "validate_order args a b \<noteq> Inl TypeError" "validate_date_order args a b \<noteq> Inl TypeError"
  unfolding validate_order_def validate_date_order_def
  by (rule validate_order_with_no_type_error, rule parsers_no_type_error)+

lemma check_argument_no_type_error: "check_argument svc op allow_refs nv \<noteq> Inl TypeError"
proof (cases nv)
  case (Pair name v)
  have "discard r \<noteq> Inl TypeError" if "r \<noteq> Inl TypeError" for r :: "py_error + 'a"
    using that by (cases r) (simp_all add: discard_def)
  note d = this [OF parsers_no_type_error(1)] this [OF parsers_no_type_error(2)]
  have q: "validate_workspace_query v \<noteq> Inl TypeError"
    unfolding validate_workspace_query_def Let_def
    by (cases v) (simp_all split: option.split json.split)
  have if_ne: "x \<noteq> Inl TypeError \<Longrightarrow> y \<noteq> Inl TypeError \<Longrightarrow> (if b then x else y) \<noteq> Inl TypeError"
    for x y :: "py_error + unit" and b by simp
  show ?thesis
    unfolding Pair check_argument_def prod.case validate_max_results_def
    by (intro if_ne d q) (simp_all split: json.split)
qed

lemma check_role_dispatch:
  assumes "\<And>v. dict_get args ''role'' = Some v \<Longrightarrow> check_argument svc op False (''role'', v) = Inr ()"
  shows "check_role op False args \<noteq> Inl TypeError"
proof (cases "dict_get args ''role''")
  case None
  then show ?thesis by (simp add: check_role_def dict_get_or_def check_member_def)
next
  case (Some v)
  from assms [OF this] obtain s where "v = JStr s" by (rule accepted_role)
  with Some show ?thesis by (simp add: check_role_def dict_get_or_def check_member_def)
qed

text \<open>
  Arguments that pass the validation before dispatch also pass the more lenient validation at
  planning time, for every service and operation.
\<close>

theorem dispatch_implies_planning:
  assumes "validate_operation_arguments svc op args False = Inr ()"
  shows "validate_operation_arguments svc op args True = Inr ()"
  using assms unfolding validate_operation_arguments_Inr
  by (blast intro: check_argument_mono check_role_mono)

text \<open>
  The validation before dispatch rejects bad arguments with a \<open>ValueError\<close> only: no input
  makes it raise a \<open>TypeError\<close>.
\<close>

theorem dispatch_validation_no_type_error:
  "validate_operation_arguments svc op args False \<noteq> Inl TypeError"
proof
  assume bad: "validate_operation_arguments svc op args False = Inl TypeError"
  have req: "require_names args ks svc op \<noteq> Inl TypeError" for ks
    by (simp add: require_names_def)
  have each: "for_each (check_argument svc op False) args \<noteq> Inl TypeError"
    using for_each_Inl check_argument_no_type_error by metis
  from bad have items: "\<forall>nv \<in> set args. check_argument svc op False nv = Inr ()"
    and "check_role op False args = Inl TypeError \<or> check_service_rules svc args = Inl TypeError"
    using req each unfolding validate_operation_arguments_def
    by (auto simp: Let_def split: option.splits prod.splits if_splits sum.splits)
  moreover have "check_argument svc op False (k, v) = Inr ()" if "dict_get args k = Some v" for k v
    using items that by (auto dest: map_of_SomeD)
  then have "check_role op False args \<noteq> Inl TypeError" and "svc = WORKSPACE \<Longrightarrow> check_services args \<noteq> Inl TypeError"
    using check_role_dispatch dispatch_check_services by blast+
  ultimately show False
    unfolding check_service_rules_def using order_no_type_error
    by (auto split: service.splits sum.splits)
qed

text \<open>
  At planning time a plan whose \<open>services\<close> argument is a list holding a step reference makes
  the validation raise \<open>TypeError\<close> (a dict is not hashable), which is not the \<open>ValueError\<close> its
  callers handle.
\<close>

theorem planning_validation_type_error:
  "validate_operation_arguments WORKSPACE ''workspace_search''
     [(''query'', JStr ''budget''), (''services'', JList [JObj [(''$step'', JStr ''cal'')]])] True
   = Inl TypeError"
  by (simp add: validate_operation_arguments_def spec_argument_names_eq dict_keys_def require_names_def
      missing_names_def check_argument_def validate_workspace_query_def blank_def py_strip_def
      strip_with_def py_isspace_def unicode_space_def code_point_def check_role_def
      check_service_rules_def check_services_def dict_get_or_def check_member_def)

text \<open>
  A calendar search that is dispatched with both ends of its time window has two
  timezone-aware timestamps, the first strictly before the second.
\<close>

theorem dispatched_window_ordered:
  assumes "validate_operation_arguments GOOGLE_CALENDAR op args False = Inr ()"
    and "dict_get args ''time_min'' = Some a" and "dict_get args ''time_max'' = Some b"
  shows "\<exists>s t. aware_timestamp a ''time_min'' = Inr s \<and> aware_timestamp b ''time_max'' = Inr t \<and>
     is_aware s \<and> is_aware t \<and> utc_micros s < utc_micros t"
proof -
  from assms(1) have "check_service_rules GOOGLE_CALENDAR args = Inr ()"
    by (simp add: validate_operation_arguments_Inr)
  then have order: "validate_order args ''time_min'' ''time_max'' = Inr ()"
    by (auto simp: check_service_rules_def split: sum.splits)
  have str: "\<exists>s. v = JStr s" if "dict_get args k = Some v" "k \<in> {''time_min'', ''time_max''}" for k v
    using accepted_argument [OF assms(1) that(1)] that(2)
    by (auto simp: check_argument_def list_argument_names_def timestamp_argument_names_def aware_timestamp_Inr)
  from str [OF assms(2)] str [OF assms(3)]
  have "\<not> contains_step_reference a" "\<not> contains_step_reference b" by auto
  from validate_order_with_Inr [OF order [unfolded validate_order_def] assms(2,3) this]
  obtain s t where "aware_timestamp a ''time_min'' = Inr s" "aware_timestamp b ''time_max'' = Inr t"
    "utc_micros s < utc_micros t" .
  then show ?thesis by (auto simp: aware_timestamp_Inr)
qed

definition sample_window :: dict where
  "sample_window =
     [(''time_min'', JStr ''2024-03-01T05:00:00+05:30''), (''time_max'', JStr ''2024-03-01T00:00:00Z'')]"

definition sample_time_min :: datetime where
  "sample_time_min = \<lparr>year = 2024, month = 3, day = 1, hour = 5, minute = 0, second = 0,
     microsecond = 0, utcoffset = Some 19800000000\<rparr>"

definition sample_time_max :: datetime where
  "sample_time_max = \<lparr>year = 2024, month = 3, day = 1, hour = 0, minute = 0, second = 0,
     microsecond = 0, utcoffset = Some 0\<rparr>"

lemma sample_window_parses:
  "datetime_fromisoformat (replace_z ''2024-03-01T05:00:00+05:30'') = Some sample_time_min"
  "datetime_fromisoformat (replace_z ''2024-03-01T00:00:00Z'') = Some sample_time_max"
  "is_aware sample_time_min" "is_aware sample_time_max"
  by (simp_all add: sample_time_min_def sample_time_max_def datetime_eval cong: let_weak_cong)

lemma sample_window_order: "utc_micros sample_time_min < utc_micros sample_time_max"
  by (simp add: sample_time_min_def sample_time_max_def utc_micros_def local_micros_def ymd_to_ord_def
      days_before_year_def days_before_month_def days_in_month_def is_leap_def)

lemma sample_window_accepted:
  "validate_operation_arguments GOOGLE_CALENDAR ''search_events'' sample_window False = Inr ()"
  by (simp add: validate_operation_arguments_def spec_argument_names_eq dict_keys_def require_names_def
      missing_names_def check_argument_def check_role_def check_service_rules_def dict_get_or_def
      list_argument_names_def timestamp_argument_names_def check_member_def validate_order_def
      validate_order_with_def aware_timestamp_def discard_def sample_window_def
      sample_window_parses sample_window_order)

theorem dispatch_implies_planning_witness:
  "validate_operation_arguments GOOGLE_CALENDAR ''search_events'' sample_window True = Inr ()"
  by (rule dispatch_implies_planning [OF sample_window_accepted])

theorem dispatched_window_ordered_witness:
  "\<exists>s t. aware_timestamp (JStr ''2024-03-01T05:00:00+05:30'') ''time_min'' = Inr s \<and>
     aware_timestamp (JStr ''2024-03-01T00:00:00Z'') ''time_max'' = Inr t \<and>
     is_aware s \<and> is_aware t \<and> utc_micros s < utc_micros t"
  by (rule dispatched_window_ordered [OF sample_window_accepted]) (simp_all add: sample_window_def)

end
