(* ===== verification/Registry.thy ===== *)
theory Registry
  imports Operation_Specs
begin

text \<open>
  The agent registry of \<open>app/orchestration/registry.py\<close>, with the agent protocol of
  \<open>app/core/interfaces.py\<close> and the \<open>supported_operations\<close> of the four agents.

  An agent is a record of its operation names and of its \<open>execute\<close> method. What a call returns
  depends on the outside world: \<open>agent_execute\<close> takes a call number, so that two equal calls may
  end differently. \<open>registry_execute\<close> separates the calls refused before any agent is invoked
  from those that reach one.
\<close>

section \<open>Agents\<close>

datatype agent_outcome = Returned agent_result | Raised

record service_agent =
  supported_operations :: "string list"
  agent_execute :: "nat \<Rightarrow> string \<Rightarrow> dict \<Rightarrow> agent_outcome"

definition gmail_operations :: "string list" where
  "gmail_operations =
     [''search_emails'', ''get_email'', ''draft_email'', ''send_email'', ''update_labels'']"

definition calendar_operations :: "string list" where
  "calendar_operations =
     [''search_events'', ''get_event'', ''create_event'', ''update_event'', ''delete_event'']"

definition drive_operations :: "string list" where
  "drive_operations =
     [''search_files'', ''get_file'', ''share_file'', ''create_folder'', ''move_file'']"

definition workspace_operations :: "string list" where
  "workspace_operations = [''workspace_search'']"

section \<open>The registry\<close>

record registry =
  reg_agents :: "service \<Rightarrow> service_agent option"
  reg_operations :: "service \<Rightarrow> string list option"

text \<open>\<open>AgentRegistry.__init__\<close>; the workspace agent is optional.\<close>

definition agent_registry ::
  "service_agent \<Rightarrow> service_agent \<Rightarrow> service_agent \<Rightarrow> service_agent option \<Rightarrow> registry" where
  "agent_registry gmail calendar drive workspace =
     (let base_agents = [GMAIL \<mapsto> gmail, GOOGLE_CALENDAR \<mapsto> calendar, GOOGLE_DRIVE \<mapsto> drive];
          base_operations =
            [GMAIL \<mapsto> supported_operations gmail,
             GOOGLE_CALENDAR \<mapsto> supported_operations calendar,
             GOOGLE_DRIVE \<mapsto> supported_operations drive] in
      case workspace of
        None \<Rightarrow> \<lparr>reg_agents = base_agents, reg_operations = base_operations\<rparr>
      | Some w \<Rightarrow>
          \<lparr>reg_agents = base_agents(WORKSPACE \<mapsto> w),
           reg_operations = base_operations(WORKSPACE \<mapsto> supported_operations w)\<rparr>)"

definition approval_required_operations :: "(service \<times> string) list" where
  "approval_required_operations =
     [(GMAIL, ''send_email''),
      (GMAIL, ''update_labels''),
      (GOOGLE_CALENDAR, ''create_event''),
      (GOOGLE_CALENDAR, ''update_event''),
      (GOOGLE_CALENDAR, ''delete_event''),
      (GOOGLE_DRIVE, ''share_file''),
      (GOOGLE_DRIVE, ''create_folder''),
      (GOOGLE_DRIVE, ''move_file'')]"

text \<open>\<open>UnknownOperationError\<close> is a \<open>ValueError\<close>.\<close>

definition validate_operation :: "registry \<Rightarrow> service \<Rightarrow> string \<Rightarrow> py_error + unit" where
  "validate_operation reg svc op =
     (if op \<notin> set (case reg_operations reg svc of None \<Rightarrow> [] | Some ops \<Rightarrow> ops)
      then Inl (ValueError (''Unsupported operation: '' @ service_value svc @ ''.'' @ op))
      else Inr ())"

definition registry_validate_step :: "registry \<Rightarrow> execution_step \<Rightarrow> py_error + unit" where
  "registry_validate_step reg s =
     (case validate_operation reg (service s) (operation s) of
        Inl e \<Rightarrow> Inl e
      | Inr _ \<Rightarrow> validate_operation_arguments (service s) (operation s) (arguments s) True)"

definition registry_validate_plan :: "registry \<Rightarrow> execution_plan \<Rightarrow> py_error + unit" where
  "registry_validate_plan reg p = for_each (registry_validate_step reg) (steps p)"

definition requires_approval :: "registry \<Rightarrow> service \<Rightarrow> string \<Rightarrow> py_error + bool" where
  "requires_approval reg svc op =
     (case validate_operation reg svc op of
        Inl e \<Rightarrow> Inl e
      | Inr _ \<Rightarrow> Inr ((svc, op) \<in> set approval_required_operations))"

text \<open>
  \<open>registry.execute\<close>. \<open>Rejected\<close> is an exception raised before an agent is invoked. The
  arguments are whatever JSON value the caller resolved: anything but a dict makes
  \<open>validate_operation_arguments\<close> raise (a \<open>TypeError\<close>, an \<open>AttributeError\<close> or a \<open>ValueError\<close>,
  which no caller tells apart).
\<close>

datatype dispatch_outcome = Rejected py_error | Called agent_outcome

definition registry_execute ::
  "registry \<Rightarrow> nat \<Rightarrow> service \<Rightarrow> string \<Rightarrow> json \<Rightarrow> dispatch_outcome" where
  "registry_execute reg n svc op args =
     (case validate_operation reg svc op of
        Inl e \<Rightarrow> Rejected e
      | Inr _ \<Rightarrow>
          (case args of
             JObj d \<Rightarrow>
               (case validate_operation_arguments svc op d False of
                  Inl e \<Rightarrow> Rejected e
                | Inr _ \<Rightarrow>
                    (case reg_agents reg svc of
                       None \<Rightarrow> Rejected (KeyError (service_value svc))
                     | Some agent \<Rightarrow> Called (agent_execute agent n op d)))
           | _ \<Rightarrow> Rejected TypeError))"

text \<open>The registry \<open>build_agent_registry\<close> makes, whatever the agents do.\<close>

definition build_agent_registry ::
  "(service \<Rightarrow> nat \<Rightarrow> string \<Rightarrow> dict \<Rightarrow> agent_outcome) \<Rightarrow> registry" where
  "build_agent_registry behaviour =
     agent_registry
       \<lparr>supported_operations = gmail_operations, agent_execute = behaviour GMAIL\<rparr>
       \<lparr>supported_operations = calendar_operations, agent_execute = behaviour GOOGLE_CALENDAR\<rparr>
       \<lparr>supported_operations = drive_operations, agent_execute = behaviour GOOGLE_DRIVE\<rparr>
       (Some \<lparr>supported_operations = workspace_operations, agent_execute = behaviour WORKSPACE\<rparr>)"

section \<open>Laws\<close>

lemma validate_operation_Inr:
  "validate_operation reg svc op = Inr u \<longleftrightarrow>
     (\<exists>ops. reg_operations reg svc = Some ops \<and> op \<in> set ops)"
  by (cases "reg_operations reg svc") (simp_all add: validate_operation_def)

lemma requires_approval_Inr:
  "requires_approval reg svc op = Inr b \<longleftrightarrow>
     validate_operation reg svc op = Inr () \<and> b = ((svc, op) \<in> set approval_required_operations)"
  by (auto simp: requires_approval_def split: sum.splits)

lemma registry_validate_plan_Inr:
  "registry_validate_plan reg p = Inr u \<longleftrightarrow>
     (\<forall>s \<in> set (steps p). validate_operation reg (service s) (operation s) = Inr () \<and>
        validate_operation_arguments (service s) (operation s) (arguments s) True = Inr ())"
proof -
  have "registry_validate_step reg s = Inr () \<longleftrightarrow>
      validate_operation reg (service s) (operation s) = Inr () \<and>
      validate_operation_arguments (service s) (operation s) (arguments s) True = Inr ()" for s
    by (cases "validate_operation reg (service s) (operation s)") (simp_all add: registry_validate_step_def)
  then show ?thesis by (simp add: registry_validate_plan_def)
qed

lemma registry_execute_Called:
  "registry_execute reg n svc op args = Called r \<longleftrightarrow>
     validate_operation reg svc op = Inr () \<and>
     (\<exists>d agent. args = JObj d \<and> validate_operation_arguments svc op d False = Inr () \<and>
        reg_agents reg svc = Some agent \<and> r = agent_execute agent n op d)"
  by (cases args) (auto simp: registry_execute_def split: sum.splits option.splits)

lemma built_operations:
  "reg_operations (build_agent_registry b) GMAIL = Some gmail_operations"
  "reg_operations (build_agent_registry b) GOOGLE_CALENDAR = Some calendar_operations"
  "reg_operations (build_agent_registry b) GOOGLE_DRIVE = Some drive_operations"
  "reg_operations (build_agent_registry b) WORKSPACE = Some workspace_operations"
  by (simp_all add: build_agent_registry_def agent_registry_def Let_def)

lemma built_agents:
  "\<exists>agent. reg_agents (build_agent_registry b) svc = Some agent \<and> agent_execute agent = b svc"
  by (cases svc) (simp_all add: build_agent_registry_def agent_registry_def Let_def)

text \<open>The operations that run at once: reads, and drafting an email.\<close>

definition immediate_operations :: "(service \<times> string) list" where
  "immediate_operations =
     [(GMAIL, ''search_emails''), (GMAIL, ''get_email''), (GMAIL, ''draft_email''),
      (GOOGLE_CALENDAR, ''search_events''), (GOOGLE_CALENDAR, ''get_event''),
      (GOOGLE_DRIVE, ''search_files''), (GOOGLE_DRIVE, ''get_file''),
      (WORKSPACE, ''workspace_search'')]"

lemma built_immediate:
  "requires_approval (build_agent_registry b) svc op = Inr False \<longleftrightarrow>
     (svc, op) \<in> set immediate_operations"
  unfolding requires_approval_Inr validate_operation_Inr immediate_operations_def
    approval_required_operations_def
  by (cases svc)
    (auto simp: built_operations gmail_operations_def calendar_operations_def drive_operations_def
      workspace_operations_def)

lemma specified_operations:
  "spec_argument_names svc op \<noteq> None \<longleftrightarrow>
     op \<in> set (case svc of GMAIL \<Rightarrow> gmail_operations | GOOGLE_CALENDAR \<Rightarrow> calendar_operations
       | GOOGLE_DRIVE \<Rightarrow> drive_operations | WORKSPACE \<Rightarrow> workspace_operations)"
  by (cases svc) (simp_all add: spec_argument_names_eq gmail_operations_def calendar_operations_def
      drive_operations_def workspace_operations_def)

lemma built_catalog:
  "validate_operation (build_agent_registry b) svc op = Inr () \<longleftrightarrow> spec_argument_names svc op \<noteq> None"
  unfolding specified_operations validate_operation_Inr
  by (cases svc) (auto simp: built_operations)

section \<open>Properties\<close>

text \<open>
  In the registry the application builds, an operation runs without the user's approval
  exactly when it is one of the seven read operations or \<open>gmail.draft_email\<close>; an unknown operation
  is neither run nor gated, it raises.
\<close>

theorem immediate_operations_exact:
  "(requires_approval (build_agent_registry b) svc op = Inr False \<longleftrightarrow>
      (svc, op) \<in> set immediate_operations) \<and>
   (requires_approval (build_agent_registry b) svc op = Inr True \<longleftrightarrow>
      (svc, op) \<in> set approval_required_operations)"
proof
  show "requires_approval (build_agent_registry b) svc op = Inr False \<longleftrightarrow>
      (svc, op) \<in> set immediate_operations" by (rule built_immediate)
  show "requires_approval (build_agent_registry b) svc op = Inr True \<longleftrightarrow>
      (svc, op) \<in> set approval_required_operations"
    unfolding requires_approval_Inr validate_operation_Inr approval_required_operations_def
    by (cases svc)
      (auto simp: built_operations gmail_operations_def calendar_operations_def drive_operations_def)
qed

text \<open>
  The operations the planner's catalog documents are exactly those the agents support: the
  registry accepts an operation when \<open>operation_specs\<close> has an entry for it, and never otherwise.
\<close>

theorem catalog_matches_agents:
  "validate_operation (build_agent_registry b) svc op = Inr () \<longleftrightarrow> spec_argument_names svc op \<noteq> None"
  by (rule built_catalog)

text \<open>
  \<open>registry.execute\<close> reaches an agent exactly when the operation is supported and the
  arguments are a dict that passes the strict validation; every other call raises first.
\<close>

theorem registry_execute_guard:
  "(\<exists>r. registry_execute (build_agent_registry b) n svc op args = Called r) \<longleftrightarrow>
     (\<exists>d. args = JObj d \<and> validate_operation_arguments svc op d False = Inr ())"
proof -
  have "validate_operation (build_agent_registry b) svc op = Inr ()"
    if "validate_operation_arguments svc op d False = Inr ()" for d
    using that by (auto simp: validate_operation_arguments_Inr built_catalog)
  with built_agents [of b svc] show ?thesis
    unfolding registry_execute_Called by blast
qed

end
