(* ===== verification/Py_Text.thy ===== *)
theory Py_Text
  imports Py_Prelude "HOL-Library.Sublist"
begin

text \<open>
  Python's text operations the agents and the response code use: \<open>str(value)\<close> of a JSON value,
  \<open>str.lower\<close> and \<open>str.casefold\<close> below code point 256, \<open>str.replace\<close> of one character,
  \<open>sub in s\<close>, \<open>str.split()\<close> followed by \<open>" ".join\<close>, and the selection of dict keys.

  The two dashes the code writes and splits on have code points above 255; the unused control
  codes 150 and 151 stand for them. \<open>str\<close> of a \<open>float\<close> is a parameter, \<open>fr\<close>.
\<close>

section \<open>Printing\<close>

fun string_of_nat :: "nat \<Rightarrow> string" where
  "string_of_nat n =
     (if n < 10 then [char_of (48 + n)] else string_of_nat (n div 10) @ [char_of (48 + n mod 10)])"

declare string_of_nat.simps [simp del]

lemma digit_chars [simp]:
  "char_of (48 :: nat) = CHR ''0''" "char_of (49 :: nat) = CHR ''1''" "char_of (50 :: nat) = CHR ''2''"
  "char_of (51 :: nat) = CHR ''3''" "char_of (52 :: nat) = CHR ''4''" "char_of (53 :: nat) = CHR ''5''"
  "char_of (54 :: nat) = CHR ''6''" "char_of (55 :: nat) = CHR ''7''" "char_of (56 :: nat) = CHR ''8''"
  "char_of (57 :: nat) = CHR ''9''"
  by code_simp+

definition string_of_int :: "int \<Rightarrow> string" where
  "string_of_int i = (if i < 0 then ''-'' @ string_of_nat (nat (- i)) else string_of_nat (nat i))"

definition hex_digit :: "nat \<Rightarrow> char" where
  "hex_digit n = char_of (if n < 10 then 48 + n else 87 + n)"

text \<open>\<open>repr\<close> of a string: the quote is chosen, unprintable characters are escaped.\<close>

definition repr_char :: "char \<Rightarrow> char \<Rightarrow> string" where
  "repr_char q c =
     (let n = code_point c in
      if c = q \<or> n = 92 then [CHR 0x5C, c]
      else if n = 9 then [CHR 0x5C, CHR ''t'']
      else if n = 10 then [CHR 0x5C, CHR ''n'']
      else if n = 13 then [CHR 0x5C, CHR ''r'']
      else if n < 32 \<or> 127 \<le> n \<and> n \<le> 160 \<or> n = 173
      then [CHR 0x5C, CHR ''x'', hex_digit (n div 16), hex_digit (n mod 16)]
      else [c])"

definition repr_string :: "string \<Rightarrow> string" where
  "repr_string s =
     (let q = (if CHR 0x27 \<in> set s \<and> CHR 0x22 \<notin> set s then CHR 0x22 else CHR 0x27)
      in q # concat (map (repr_char q) s) @ [q])"

fun py_repr :: "(rat \<Rightarrow> string) \<Rightarrow> json \<Rightarrow> string" where
  "py_repr fr JNull = ''None''"
| "py_repr fr (JBool b) = (if b then ''True'' else ''False'')"
| "py_repr fr (JInt i) = string_of_int i"
| "py_repr fr (JFloat r) = fr r"
| "py_repr fr (JStr s) = repr_string s"
| "py_repr fr (JList xs) = ''['' @ py_join '', '' (map (py_repr fr) xs) @ '']''"
| "py_repr fr (JObj kvs) =
     ''{'' @ py_join '', '' (map (\<lambda>kv. repr_string (fst kv) @ '': '' @ py_repr fr (snd kv)) kvs) @ ''}''"

text \<open>\<open>str(value)\<close>, also what an f-string writes.\<close>

fun py_str :: "(rat \<Rightarrow> string) \<Rightarrow> json \<Rightarrow> string" where
  "py_str fr (JStr s) = s"
| "py_str fr v = py_repr fr v"

section \<open>Case\<close>

definition lower_char :: "char \<Rightarrow> char" where
  "lower_char c =
     (let n = code_point c in
      if 65 \<le> n \<and> n \<le> 90 \<or> 192 \<le> n \<and> n \<le> 222 \<and> n \<noteq> 215 then char_of (n + 32) else c)"

definition py_lower :: "string \<Rightarrow> string" where
  "py_lower = map lower_char"

text \<open>\<open>casefold\<close> also turns the sharp s, 223, into two letters.\<close>

definition py_casefold :: "string \<Rightarrow> string" where
  "py_casefold s = concat (map (\<lambda>c. if code_point c = 223 then ''ss'' else [lower_char c]) s)"

section \<open>Search and replacement\<close>

definition py_in :: "string \<Rightarrow> string \<Rightarrow> bool" where
  "py_in sub s \<longleftrightarrow> (\<exists>i \<in> set [0 ..< Suc (length s)]. take (length sub) (drop i s) = sub)"

lemma py_in_sublist: "py_in sub s \<longleftrightarrow> sublist sub s"
proof
  assume "py_in sub s"
  then obtain i where "take (length sub) (drop i s) = sub" by (auto simp: py_in_def)
  then show "sublist sub s" by (metis sublist_drop sublist_order.order_trans sublist_take)
next
  assume "sublist sub s"
  then obtain u v where "s = u @ sub @ v" by (auto simp: sublist_def)
  then show "py_in sub s" unfolding py_in_def by (intro bexI [where x = "length u"]) auto
qed

definition replace_char :: "char \<Rightarrow> string \<Rightarrow> string \<Rightarrow> string" where
  "replace_char c r s = concat (map (\<lambda>x. if x = c then r else [x]) s)"

definition en_dash :: char where "en_dash = CHR 0x96"
definition em_dash :: char where "em_dash = CHR 0x97"

text \<open>\<open>" ".join(s.split())\<close>.\<close>

definition normalize_space :: "string \<Rightarrow> string" where
  "normalize_space s = py_join '' '' (py_split s)"

section \<open>Access with a default\<close>

text \<open>\<open>d.get(k)\<close>, and \<open>a or b\<close>.\<close>

abbreviation py_get :: "dict \<Rightarrow> string \<Rightarrow> json" where
  "py_get d k \<equiv> dict_get_or d k JNull"

definition py_or :: "json \<Rightarrow> json \<Rightarrow> json" where
  "py_or a b = (if py_truthy a then a else b)"

text \<open>A \<open>bool\<close> is an \<open>int\<close>.\<close>

fun int_of :: "json \<Rightarrow> int option" where
  "int_of (JInt i) = Some i"
| "int_of (JBool b) = Some (if b then 1 else 0)"
| "int_of _ = None"

section \<open>Selecting keys\<close>

text \<open>\<open>{key: item[key] for key in fields if key in item}\<close>.\<close>

definition select_keys :: "string list \<Rightarrow> dict \<Rightarrow> dict" where
  "select_keys fields item =
     List.map_filter (\<lambda>k. map_option (Pair k) (dict_get item k)) fields"

lemma select_keys_simps:
  "select_keys [] item = []"
  "select_keys (k # ks) item =
     (case dict_get item k of None \<Rightarrow> select_keys ks item | Some v \<Rightarrow> (k, v) # select_keys ks item)"
  by (simp_all add: select_keys_def map_filter_simps split: option.splits)

lemma fst_select_keys: "fst ` set (select_keys ks item) \<subseteq> set ks"
  by (induction ks) (auto simp: select_keys_simps split: option.splits)

lemma distinct_select_keys: "distinct ks \<Longrightarrow> distinct_keys (select_keys ks item)"
  by (induction ks) (use fst_select_keys in \<open>fastforce simp: select_keys_simps split: option.splits\<close>)+

lemma dict_get_select_keys [dict_simps]:
  "dict_get (select_keys ks item) k = (if k \<in> set ks then dict_get item k else None)"
  by (induction ks) (auto simp: select_keys_simps split: option.splits)

text \<open>The keys of a dict lie in a given list.\<close>

definition keys_in :: "(string \<times> 'v) list \<Rightarrow> string list \<Rightarrow> bool" where
  "keys_in d ks \<longleftrightarrow> set (map fst d) \<subseteq> set ks"

lemma keys_in_select: "set ks \<subseteq> set ks' \<Longrightarrow> keys_in (select_keys ks d) ks'"
  using fst_select_keys [of ks d] by (auto simp: keys_in_def)

lemma keys_in_set: "k \<in> set ks \<Longrightarrow> keys_in d ks \<Longrightarrow> keys_in (dict_set k v d) ks"
  by (induction d) (auto simp: keys_in_def)

lemmas keys_in_intros = keys_in_set keys_in_select

text \<open>The value under a key as a list of objects, the others skipped.\<close>

definition objects :: "json list \<Rightarrow> dict list" where
  "objects xs = List.map_filter (\<lambda>x. case x of JObj d \<Rightarrow> Some d | _ \<Rightarrow> None) xs"

lemma length_objects: "length (objects xs) \<le> length xs"
  by (simp add: objects_def List.map_filter_def)

lemma objects_map_JObj [simp]: "objects (map JObj ds) = ds"
  by (induction ds) (simp_all add: objects_def map_filter_simps)

section \<open>Joined texts\<close>

lemma sublist_middle: "sublist x y \<Longrightarrow> sublist x (a @ y @ b)"
  by (metis sublist_appendI sublist_order.order_trans)

lemma sublist_py_join: "x \<in> set xs \<Longrightarrow> sublist x (py_join sep xs)"
proof (induction sep xs rule: py_join.induct)
  case (3 sep a b xs)
  have "sublist x (a @ sep @ py_join sep (b # xs))" if "sublist x (py_join sep (b # xs))"
    using that by (metis append_assoc sublist_append_leftI sublist_order.order_trans)
  with 3 show ?case by auto
qed auto

lemma py_join_Nil_iff: "py_join '' '' xs = [] \<longleftrightarrow> xs = [] \<or> xs = [[]]"
  by (cases xs; cases "tl xs") auto

end
