(* ===== verification/Google_Client.thy ===== *)
theory Google_Client
  imports Registry Py_Text
begin

text \<open>
  What the three Google agents share: the requests they send through the discovery client, the
  operations on its untyped answers, and \<open>app/agents/common.py\<close>.

  The Google client and its services are parameters, collected in \<open>google_api\<close>: building a client,
  executing a request (the answer may depend on every request sent before) and downloading
  content. A request is the name of the API method with its keyword arguments, \<open>None\<close> being
  \<open>JNull\<close>. As the client documents, a method with a JSON answer returns a dict; everything inside
  it is untyped, and what Python does with a value of the wrong type is written out. Also
  parameters, because the model's strings hold code points below 256 or because they are
  message texts of the interpreter: UTF-8 decoding with replacement, decoding base64 text, building
  a MIME message, printing a float, the texts of a \<open>TypeError\<close> and of a validation error. The
  system's time zone and a fresh UUID come from the outside too.

  An agent operation threads the log of the requests sent, and ends with a value or an exception.
\<close>

section \<open>Requests, exceptions, and the world\<close>

datatype google_request = Request (api_method: string) (api_params: dict)

datatype agent_exception =
    Python py_error
  | HttpError "int option"
  | OtherError

record google_api =
  client_error :: "google_request list \<Rightarrow> string \<Rightarrow> agent_exception option"
  api_answer :: "google_request list \<Rightarrow> google_request \<Rightarrow> agent_exception + dict"
  api_content :: "google_request list \<Rightarrow> google_request \<Rightarrow> agent_exception + (nat list + json)"
  decode_utf8 :: "nat list \<Rightarrow> string"
  decode_base64 :: "string \<Rightarrow> agent_exception + string"
  encode_mime :: "string \<Rightarrow> string \<Rightarrow> string \<Rightarrow> agent_exception + string"
  local_utcoffset :: "datetime \<Rightarrow> int"
  uuid_hex :: string
  float_text :: "rat \<Rightarrow> string"
  type_error_text :: string
  validation_text :: string

text \<open>A world in which every request is answered by the same dict, for examples.\<close>

definition answering :: "dict \<Rightarrow> google_api" where
  "answering d =
     \<lparr>client_error = \<lambda>_ _. None, api_answer = \<lambda>_ _. Inr d, api_content = \<lambda>_ _. Inr (Inl []),
      decode_utf8 = \<lambda>_. [], decode_base64 = \<lambda>s. Inr s, encode_mime = \<lambda>_ _ s. Inr s,
      local_utcoffset = \<lambda>_. 0, uuid_hex = ''0'', float_text = \<lambda>_. ''0.0'', type_error_text = ''type'',
      validation_text = ''validation''\<rparr>"

type_synonym 'a google_io = "google_request list \<Rightarrow> google_request list \<times> (agent_exception + 'a)"

definition io_lift :: "agent_exception + 'a \<Rightarrow> 'a google_io" where
  "io_lift r hist = (hist, r)"

definition io_bind :: "'a google_io \<Rightarrow> ('a \<Rightarrow> 'b google_io) \<Rightarrow> 'b google_io" where
  "io_bind m f hist =
     (case m hist of (hist', Inl e) \<Rightarrow> (hist', Inl e) | (hist', Inr x) \<Rightarrow> f x hist')"

text \<open>\<open>for x in xs\<close> with requests in the body, collecting the values.\<close>

fun io_map :: "('a \<Rightarrow> 'b google_io) \<Rightarrow> 'a list \<Rightarrow> 'b list google_io" where
  "io_map f [] = io_lift (Inr [])"
| "io_map f (x # xs) =
     io_bind (f x) (\<lambda>y. io_bind (io_map f xs) (\<lambda>ys. io_lift (Inr (y # ys))))"

text \<open>A raised Python exception as an agent exception, and \<open>;\<close> for computations without requests.\<close>

definition lift_py :: "py_error + 'a \<Rightarrow> agent_exception + 'a" where
  "lift_py r = (case r of Inl e \<Rightarrow> Inl (Python e) | Inr x \<Rightarrow> Inr x)"

definition and_then :: "'e + 'a \<Rightarrow> ('a \<Rightarrow> 'e + 'b) \<Rightarrow> 'e + 'b" where
  "and_then r f = (case r of Inl e \<Rightarrow> Inl e | Inr x \<Rightarrow> f x)"

text \<open>\<open>await clients.build(service, version)\<close> and \<open>await to_thread(request.execute)\<close>.\<close>

definition build_client :: "google_api \<Rightarrow> string \<Rightarrow> unit google_io" where
  "build_client api name hist =
     (hist, case client_error api hist name of None \<Rightarrow> Inr () | Some e \<Rightarrow> Inl e)"

definition call :: "google_api \<Rightarrow> string \<Rightarrow> dict \<Rightarrow> dict google_io" where
  "call api method params hist =
     (hist @ [Request method params], api_answer api hist (Request method params))"

definition download :: "google_api \<Rightarrow> string \<Rightarrow> dict \<Rightarrow> (nat list + json) google_io" where
  "download api method params hist =
     (hist @ [Request method params], api_content api hist (Request method params))"

section \<open>Untyped values\<close>

text \<open>\<open>v.get(k, default)\<close>, \<open>v[k]\<close> and \<open>for x in v\<close> on a value that may not be a dict or a list.\<close>

definition attr_get :: "json \<Rightarrow> string \<Rightarrow> json \<Rightarrow> agent_exception + json" where
  "attr_get v k dflt = (case v of JObj d \<Rightarrow> Inr (dict_get_or d k dflt) | _ \<Rightarrow> Inl (Python AttributeError))"

definition subscript :: "json \<Rightarrow> string \<Rightarrow> agent_exception + json" where
  "subscript v k =
     (case v of
        JObj d \<Rightarrow> (case dict_get d k of None \<Rightarrow> Inl (Python (KeyError k)) | Some x \<Rightarrow> Inr x)
      | _ \<Rightarrow> Inl (Python TypeError))"

fun iterate :: "json \<Rightarrow> agent_exception + json list" where
  "iterate (JList xs) = Inr xs"
| "iterate (JObj kvs) = Inr (map (\<lambda>kv. JStr (fst kv)) kvs)"
| "iterate (JStr s) = Inr (map (\<lambda>c. JStr [c]) s)"
| "iterate _ = Inl (Python TypeError)"

section \<open>\<open>agents/common.py\<close>\<close>

text \<open>
  \<open>completed\<close>: Pydantic refuses a source id that is not a string, with a \<open>ValueError\<close>.
\<close>

definition completed :: "google_api \<Rightarrow> dict \<Rightarrow> json list \<Rightarrow> agent_exception + agent_result" where
  "completed api d ids =
     (if list_all is_str ids
      then Inr \<lparr>agent_status = COMPLETED, agent_data = d,
                source_ids = List.map_filter (\<lambda>v. case v of JStr s \<Rightarrow> Some s | _ \<Rightarrow> None) ids,
                agent_error = None\<rparr>
      else Inl (Python (ValueError (validation_text api))))"

definition failed :: "string \<Rightarrow> string \<Rightarrow> agent_result" where
  "failed code message =
     \<lparr>agent_status = FAILED, agent_data = [], source_ids = [],
      agent_error = Some \<lparr>err_code = code, err_message = message, err_details = []\<rparr>\<rparr>"

text \<open>\<open>str(exc)\<close> of the three exceptions \<open>safely_execute\<close> turns into a result.\<close>

definition safely_execute ::
  "google_api \<Rightarrow> agent_result google_io \<Rightarrow> google_request list \<Rightarrow> google_request list \<times> agent_outcome" where
  "safely_execute api m hist =
     (case m hist of
        (hist', Inr r) \<Rightarrow> (hist', Returned r)
      | (hist', Inl e) \<Rightarrow> (hist',
          (case e of
             HttpError st \<Rightarrow>
               Returned (failed (if st = Some 404 then ''resource_not_found'' else ''google_api_error'')
                 ''The Google service request could not be completed'')
           | Python (KeyError k) \<Rightarrow> Returned (failed ''invalid_arguments'' (repr_string k))
           | Python TypeError \<Rightarrow> Returned (failed ''invalid_arguments'' (type_error_text api))
           | Python (ValueError s) \<Rightarrow> Returned (failed ''invalid_arguments'' s)
           | _ \<Rightarrow> Raised)))"

definition require_string :: "dict \<Rightarrow> string \<Rightarrow> py_error + string" where
  "require_string args name =
     (case py_get args name of
        JStr s \<Rightarrow> (if py_strip s = [] then Inl (ValueError (name @ '' must be a non-empty string''))
                   else Inr (py_strip s))
      | _ \<Rightarrow> Inl (ValueError (name @ '' must be a non-empty string'')))"

definition optional_string :: "dict \<Rightarrow> string \<Rightarrow> py_error + string option" where
  "optional_string args name =
     (case py_get args name of
        JNull \<Rightarrow> Inr None
      | JStr s \<Rightarrow> Inr (if py_strip s = [] then None else Some (py_strip s))
      | _ \<Rightarrow> Inl (ValueError (name @ '' must be a string'')))"

definition string_list :: "dict \<Rightarrow> string \<Rightarrow> py_error + json list" where
  "string_list args name =
     (case dict_get_or args name (JList []) of
        JList xs \<Rightarrow> (if list_all is_str xs then Inr xs
                     else Inl (ValueError (name @ '' must be a list of strings'')))
      | _ \<Rightarrow> Inl (ValueError (name @ '' must be a list of strings'')))"

definition bounded_int :: "dict \<Rightarrow> string \<Rightarrow> int \<Rightarrow> int \<Rightarrow> py_error + int" where
  "bounded_int args name dflt maximum =
     (case dict_get_or args name (JInt dflt) of
        JInt i \<Rightarrow> (if i < 1 then Inl (ValueError (name @ '' must be a positive integer''))
                   else Inr (min i maximum))
      | _ \<Rightarrow> Inl (ValueError (name @ '' must be a positive integer'')))"

text \<open>An optional argument of a request: \<open>None\<close> is passed on as such.\<close>

definition opt_json :: "string option \<Rightarrow> json" where
  "opt_json v = (case v of None \<Rightarrow> JNull | Some s \<Rightarrow> JStr s)"

text \<open>\<open>execute\<close> of an agent: an operation it does not know raises.\<close>

definition agent_run ::
  "google_api \<Rightarrow> (string \<times> (dict \<Rightarrow> agent_result google_io)) list \<Rightarrow> string \<Rightarrow> dict \<Rightarrow>
   google_request list \<Rightarrow> google_request list \<times> agent_outcome" where
  "agent_run api handlers op args hist =
     (case map_of handlers op of
        None \<Rightarrow> (hist, Raised)
      | Some handler \<Rightarrow> safely_execute api (handler args) hist)"

section \<open>Which requests an operation sends\<close>

text \<open>The methods that change nothing on the server; every other one counts as mutating.\<close>

definition read_methods :: "string list" where
  "read_methods =
     [''gmail.users.messages.list'', ''gmail.users.messages.get'', ''calendar.events.list'',
      ''calendar.events.get'', ''drive.files.list'', ''drive.files.get'', ''drive.files.export'']"

definition mutating :: "google_request \<Rightarrow> bool" where
  "mutating r \<longleftrightarrow> api_method r \<notin> set read_methods"

definition mutations :: "google_request list \<Rightarrow> google_request list" where
  "mutations = filter mutating"

lemma mutations_append [simp]: "mutations (xs @ ys) = mutations xs @ mutations ys"
  by (simp add: mutations_def)

lemma mutations_Nil [simp]: "mutations [] = []"
  by (simp add: mutations_def)

lemma mutations_Cons [simp]:
  "mutations (Request k p # rs) = (if k \<in> set read_methods then mutations rs else Request k p # mutations rs)"
  by (simp add: mutations_def mutating_def)

text \<open>
  \<open>sends A m\<close>: running \<open>m\<close> appends to the log, and the mutating requests among what it appends form
  a list in \<open>A\<close>.
\<close>

definition sends :: "google_request list set \<Rightarrow> 'a google_io \<Rightarrow> bool" where
  "sends A m \<longleftrightarrow> (\<forall>hist. \<exists>sent. fst (m hist) = hist @ sent \<and> mutations sent \<in> A)"

abbreviation only_reads :: "'a google_io \<Rightarrow> bool" where
  "only_reads \<equiv> sends {[]}"

lemma sends_lift [intro!, simp]: "[] \<in> A \<Longrightarrow> sends A (io_lift r)"
  by (simp add: sends_def io_lift_def)

lemma sends_client [intro!, simp]: "[] \<in> A \<Longrightarrow> sends A (build_client api name)"
  by (simp add: sends_def build_client_def)

lemma sends_call:
  "sends {mutations [Request k p]} (call api k p)"
  by (simp add: sends_def call_def)

lemma sends_read [intro]: "k \<in> set read_methods \<Longrightarrow> only_reads (call api k p)"
  using sends_call [of k p api] by simp

lemma sends_download [intro]: "k \<in> set read_methods \<Longrightarrow> only_reads (download api k p)"
  by (simp add: sends_def download_def)

text \<open>A mutating request, if it is reached, is the last step that sends anything.\<close>

lemma sends_bind_read:
  assumes "only_reads m" and "\<And>x. sends A (f x)" and "[] \<in> A"
  shows "sends A (io_bind m f)"
  unfolding sends_def
proof
  fix hist
  obtain hist1 r where m: "m hist = (hist1, r)" by (cases "m hist")
  with assms(1) obtain sent where sent: "hist1 = hist @ sent" "mutations sent = []"
    unfolding sends_def by (metis fst_conv singletonD)
  show "\<exists>sent. fst (io_bind m f hist) = hist @ sent \<and> mutations sent \<in> A"
  proof (cases r)
    case (Inl e)
    with m sent assms(3) show ?thesis by (simp add: io_bind_def)
  next
    case (Inr x)
    obtain sent' where "fst (f x hist1) = hist1 @ sent'" "mutations sent' \<in> A"
      using assms(2) [of x] unfolding sends_def by blast
    with m sent Inr have "fst (io_bind m f hist) = hist @ sent @ sent'" "mutations (sent @ sent') \<in> A"
      by (simp_all add: io_bind_def)
    then show ?thesis by blast
  qed
qed

lemma sends_bind_last:
  assumes "sends A m" and "\<And>x. only_reads (f x)"
  shows "sends A (io_bind m f)"
  unfolding sends_def
proof
  fix hist
  obtain hist1 r where m: "m hist = (hist1, r)" by (cases "m hist")
  with assms(1) obtain sent where sent: "hist1 = hist @ sent" "mutations sent \<in> A"
    unfolding sends_def by (metis fst_conv)
  show "\<exists>sent. fst (io_bind m f hist) = hist @ sent \<and> mutations sent \<in> A"
  proof (cases r)
    case (Inl e)
    with m sent show ?thesis by (simp add: io_bind_def)
  next
    case (Inr x)
    obtain sent' where "fst (f x hist1) = hist1 @ sent'" "mutations sent' = []"
      using assms(2) [of x] unfolding sends_def by (metis singletonD)
    with m sent Inr have "fst (io_bind m f hist) = hist @ sent @ sent'" "mutations (sent @ sent') \<in> A"
      by (simp_all add: io_bind_def)
    then show ?thesis by blast
  qed
qed

lemma sends_map [intro]:
  assumes "\<And>x. only_reads (f x)"
  shows "only_reads (io_map f xs)"
  using assms by (induction xs) (auto intro!: sends_bind_read)

lemma sends_mono: "sends A m \<Longrightarrow> A \<subseteq> B \<Longrightarrow> sends B m"
  unfolding sends_def by blast

text \<open>The mutating method an operation may call, at most once.\<close>

definition at_most_one :: "string list \<Rightarrow> google_request list set" where
  "at_most_one methods = {sent. length sent \<le> 1 \<and> (\<forall>r \<in> set sent. api_method r \<in> set methods)}"

lemma at_most_one_Nil [simp]: "[] \<in> at_most_one methods" "at_most_one [] = {[]}"
  by (auto simp: at_most_one_def)

lemma sends_mutation: "k \<in> set methods \<Longrightarrow> sends (at_most_one methods) (call api k p)"
  by (rule sends_mono [OF sends_call]) (simp add: at_most_one_def)

text \<open>One rule for each kind of step.\<close>

lemma sends_bind_steps:
  "[] \<in> A \<Longrightarrow> (\<And>x. sends A (f x)) \<Longrightarrow> sends A (io_bind (io_lift r) f)"
  "[] \<in> A \<Longrightarrow> (\<And>x. sends A (g x)) \<Longrightarrow> sends A (io_bind (build_client api name) g)"
  "k \<in> set read_methods \<Longrightarrow> [] \<in> A \<Longrightarrow> (\<And>x. sends A (h x)) \<Longrightarrow> sends A (io_bind (call api k p) h)"
  "k \<in> set read_methods \<Longrightarrow> [] \<in> A \<Longrightarrow> (\<And>x. sends A (h' x)) \<Longrightarrow> sends A (io_bind (download api k p) h')"
  "k \<in> set methods \<Longrightarrow> (\<And>x. only_reads (h x)) \<Longrightarrow>
     sends (at_most_one methods) (io_bind (call api k p) h)"
  by (blast intro: sends_bind_read sends_bind_last sends_mutation sends_lift sends_client)+

lemma sends_bind_map:
  "(\<And>x. only_reads (f x)) \<Longrightarrow> [] \<in> A \<Longrightarrow> (\<And>ys. sends A (g ys)) \<Longrightarrow> sends A (io_bind (io_map f xs) g)"
  by (blast intro: sends_bind_read sends_map)

lemma sends_let: "sends A (f x) \<Longrightarrow> sends A (let y = x in f y)"
  by simp

lemma sends_if: "sends A m \<Longrightarrow> sends A m' \<Longrightarrow> sends A (if b then m else m')"
  by simp

lemmas sends_intros = sends_let sends_if sends_bind_steps sends_bind_map sends_lift sends_mutation

lemma safely_execute_log: "fst (safely_execute api m hist) = fst (m hist)"
  by (auto simp: safely_execute_def split: prod.splits sum.splits)

section \<open>Only two statuses\<close>

definition ends_completed :: "agent_result google_io \<Rightarrow> bool" where
  "ends_completed m \<longleftrightarrow> (\<forall>hist r. snd (m hist) = Inr r \<longrightarrow> agent_status r = COMPLETED)"

lemma ends_completed_lift [intro!]: "ends_completed (io_lift (completed api d ids))"
  by (auto simp: ends_completed_def io_lift_def completed_def split: if_splits)

lemma ends_completed_bind [intro!]:
  "(\<And>x. ends_completed (f x)) \<Longrightarrow> ends_completed (io_bind m f)"
  by (fastforce simp: ends_completed_def io_bind_def split: prod.splits sum.splits)

lemma safely_execute_status:
  assumes "ends_completed m" and "snd (safely_execute api m hist) = Returned r"
  shows "agent_status r \<in> {COMPLETED, FAILED}"
proof (cases "m hist")
  case (Pair h x)
  with assms(1) have "x = Inr y \<Longrightarrow> agent_status y = COMPLETED" for y
    unfolding ends_completed_def by (metis snd_conv)
  with Pair assms(2) show ?thesis
    by (cases x) (auto simp: safely_execute_def failed_def split: agent_exception.splits py_error.splits)
qed

end
