(* ===== verification/Gmail_Agent.thy ===== *)
theory Gmail_Agent
  imports Google_Client
begin

text \<open>
  \<open>app/agents/gmail.py\<close>: the query of a search, the parsing of messages, and the five operations
  with the requests they send.
\<close>

section \<open>Messages\<close>

text \<open>The dict of headers; a later header of the same name wins.\<close>

definition parse_header :: "json \<Rightarrow> agent_exception + string \<times> json" where
  "parse_header h =
     and_then (attr_get h ''name'' (JStr [])) (\<lambda>name.
     case name of
       JStr s \<Rightarrow> and_then (attr_get h ''value'' (JStr [])) (\<lambda>v. Inr (py_lower s, v))
     | _ \<Rightarrow> Inl (Python AttributeError))"

definition payload_headers :: "json \<Rightarrow> agent_exception + dict" where
  "payload_headers payload =
     and_then (attr_get payload ''headers'' (JList [])) (\<lambda>hs.
     and_then (iterate hs) (\<lambda>hs.
     and_then (map_res parse_header hs) (\<lambda>hs. Inr (dict_of [] hs))))"

text \<open>\<open>base64.urlsafe_b64decode(encoded + "=" * (-len(encoded) % 4)).decode(...)\<close>.\<close>

definition decode_part :: "google_api \<Rightarrow> json \<Rightarrow> agent_exception + string" where
  "decode_part api v =
     (case v of
        JStr s \<Rightarrow> decode_base64 api (s @ replicate (nat (- int (length s) mod 4)) CHR ''='')
      | _ \<Rightarrow> Inl (Python TypeError))"

lemma size_dict_get:
  "dict_get d k = Some v \<Longrightarrow> size v < size (JObj d)"
  by (induction d) (auto split: if_splits)

lemma size_json_member: "v \<in> set xs \<Longrightarrow> size v < size (JList xs)"
  by (induction xs) auto

text \<open>
  \<open>_extract_text\<close>: the first part with text, depth first. \<open>parts\<close> of another type than a list ends
  the loop over it with the exception the first of its members raises.
\<close>

function extract_text :: "google_api \<Rightarrow> json \<Rightarrow> agent_exception + string" and
  extract_parts :: "google_api \<Rightarrow> json list \<Rightarrow> agent_exception + string" where
  "extract_text api (JObj payload) =
     (let parts =
        (case dict_get payload ''parts'' of
           None \<Rightarrow> Inr []
         | Some (JList ps) \<Rightarrow> extract_parts api ps
         | Some (JObj []) \<Rightarrow> Inr []
         | Some (JStr []) \<Rightarrow> Inr []
         | Some (JObj _) \<Rightarrow> Inl (Python AttributeError)
         | Some (JStr _) \<Rightarrow> Inl (Python AttributeError)
         | Some _ \<Rightarrow> Inl (Python TypeError)) in
      if py_get payload ''mimeType'' = JStr ''text/plain'' then
        and_then (attr_get (dict_get_or payload ''body'' (JObj [])) ''data'' JNull) (\<lambda>encoded.
        if py_truthy encoded then decode_part api encoded else parts)
      else parts)"
| "extract_text api JNull = Inl (Python AttributeError)"
| "extract_text api (JBool b) = Inl (Python AttributeError)"
| "extract_text api (JInt i) = Inl (Python AttributeError)"
| "extract_text api (JFloat r) = Inl (Python AttributeError)"
| "extract_text api (JStr s) = Inl (Python AttributeError)"
| "extract_text api (JList xs) = Inl (Python AttributeError)"
| "extract_parts api [] = Inr []"
| "extract_parts api (p # ps) =
     and_then (extract_text api p) (\<lambda>s. if s \<noteq> [] then Inr s else extract_parts api ps)"
  by pat_completeness auto
termination
  by (relation "measure (\<lambda>x. case x of Inl (_, v) \<Rightarrow> size v | Inr (_, vs) \<Rightarrow> size_list size vs)")
    (auto dest: size_dict_get)

definition parse_message :: "google_api \<Rightarrow> dict \<Rightarrow> bool \<Rightarrow> agent_exception + dict" where
  "parse_message api message include_body =
     (let payload = dict_get_or message ''payload'' (JObj []) in
      and_then (payload_headers payload) (\<lambda>headers.
      let parsed =
        [(''id'', py_get message ''id''),
         (''thread_id'', py_get message ''threadId''),
         (''subject'', dict_get_or headers ''subject'' (JStr [])),
         (''sender'', dict_get_or headers ''from'' (JStr [])),
         (''date'', dict_get_or headers ''date'' (JStr [])),
         (''preview'', dict_get_or message ''snippet'' (JStr [])),
         (''label_ids'', dict_get_or message ''labelIds'' (JList []))] in
      if include_body then
        and_then (extract_text api payload) (\<lambda>body. Inr (parsed @ [(''body'', JStr body)]))
      else Inr parsed))"

section \<open>Search query\<close>

definition slashed :: "string \<Rightarrow> string" where
  "slashed = replace_char (CHR ''-'') ''/''"

definition query_part :: "string \<Rightarrow> (string \<Rightarrow> string) \<Rightarrow> string option \<Rightarrow> string list" where
  "query_part intro f v = (case v of None \<Rightarrow> [] | Some s \<Rightarrow> [intro @ f s])"

definition gmail_query :: "dict \<Rightarrow> py_error + string" where
  "gmail_query args =
     and_then (optional_string args ''sender'') (\<lambda>sender.
     and_then (optional_string args ''keywords'') (\<lambda>keywords.
     and_then (optional_string args ''date_from'') (\<lambda>date_from.
     and_then (optional_string args ''date_to'') (\<lambda>date_to.
     Inr (py_join '' ''
       (query_part ''from:'' id sender @ query_part [] id keywords @
        query_part ''after:'' slashed date_from @ query_part ''before:'' slashed date_to))))))"

section \<open>Operations\<close>

definition me :: "string \<times> json" where
  "me = (''userId'', JStr ''me'')"

definition search_emails :: "google_api \<Rightarrow> dict \<Rightarrow> agent_result google_io" where
  "search_emails api args =
     io_bind (build_client api ''gmail'') (\<lambda>_.
     io_bind (io_lift (lift_py (gmail_query args))) (\<lambda>q.
     io_bind (io_lift (lift_py (bounded_int args ''max_results'' 20 100))) (\<lambda>max_results.
     io_bind (call api ''gmail.users.messages.list''
       [me, (''q'', JStr q), (''maxResults'', JInt max_results)]) (\<lambda>response.
     io_bind (io_lift (iterate (dict_get_or response ''messages'' (JList [])))) (\<lambda>items.
     io_bind (io_map (\<lambda>item.
       io_bind (io_lift (subscript item ''id'')) (\<lambda>message_id.
       io_bind (call api ''gmail.users.messages.get''
         [me, (''id'', message_id), (''format'', JStr ''metadata'')]) (\<lambda>message.
       io_lift (parse_message api message False)))) items) (\<lambda>messages.
     io_lift (completed api
       [(''emails'', JList (map JObj messages)),
        (''next_page_token'', py_get response ''nextPageToken'')]
       (map (\<lambda>m. py_get m ''id'') messages))))))))"

definition get_email :: "google_api \<Rightarrow> dict \<Rightarrow> agent_result google_io" where
  "get_email api args =
     io_bind (io_lift (lift_py (require_string args ''message_id''))) (\<lambda>message_id.
     io_bind (build_client api ''gmail'') (\<lambda>_.
     io_bind (call api ''gmail.users.messages.get''
       [me, (''id'', JStr message_id), (''format'', JStr ''full'')]) (\<lambda>message.
     io_bind (io_lift (parse_message api message True)) (\<lambda>email.
     io_lift (completed api [(''email'', JObj email)] [JStr message_id])))))"

definition encoded_message :: "google_api \<Rightarrow> dict \<Rightarrow> agent_exception + string" where
  "encoded_message api args =
     and_then (lift_py (require_string args ''to'')) (\<lambda>recipient.
     and_then (lift_py (require_string args ''subject'')) (\<lambda>subject.
     and_then (lift_py (require_string args ''body'')) (\<lambda>body.
     encode_mime api recipient subject body)))"

definition draft_email :: "google_api \<Rightarrow> dict \<Rightarrow> agent_result google_io" where
  "draft_email api args =
     io_bind (build_client api ''gmail'') (\<lambda>_.
     io_bind (io_lift (encoded_message api args)) (\<lambda>raw.
     io_bind (call api ''gmail.users.drafts.create''
       [me, (''body'', JObj [(''message'', JObj [(''raw'', JStr raw)])])]) (\<lambda>result.
     io_bind (io_lift (subscript (JObj result) ''id'')) (\<lambda>v.
     let draft_id = py_str (float_text api) v in
     io_bind (io_lift (attr_get (dict_get_or result ''message'' (JObj [])) ''id'' JNull)) (\<lambda>message_id.
     io_lift (completed api
       [(''draft_id'', JStr draft_id), (''message_id'', message_id)] [JStr draft_id]))))))"

definition send_email :: "google_api \<Rightarrow> dict \<Rightarrow> agent_result google_io" where
  "send_email api args =
     io_bind (build_client api ''gmail'') (\<lambda>_.
     io_bind (io_lift (lift_py (optional_string args ''draft_id''))) (\<lambda>draft_id.
     io_bind
       (case draft_id of
          Some d \<Rightarrow>
            call api ''gmail.users.drafts.send'' [me, (''body'', JObj [(''id'', JStr d)])]
        | None \<Rightarrow>
            io_bind (io_lift (encoded_message api args)) (\<lambda>raw.
            call api ''gmail.users.messages.send'' [me, (''body'', JObj [(''raw'', JStr raw)])]))
       (\<lambda>result.
     io_bind (io_lift (subscript (JObj result) ''id'')) (\<lambda>v.
     let message_id = py_str (float_text api) v in
     io_lift (completed api
       [(''message_id'', JStr message_id), (''thread_id'', py_get result ''threadId'')]
       [JStr message_id])))))"

definition update_labels :: "google_api \<Rightarrow> dict \<Rightarrow> agent_result google_io" where
  "update_labels api args =
     io_bind (io_lift (lift_py (require_string args ''message_id''))) (\<lambda>message_id.
     io_bind (build_client api ''gmail'') (\<lambda>_.
     io_bind (io_lift (lift_py (string_list args ''add_label_ids''))) (\<lambda>add.
     io_bind (io_lift (lift_py (string_list args ''remove_label_ids''))) (\<lambda>remove.
     io_bind (call api ''gmail.users.messages.modify''
       [me, (''id'', JStr message_id),
        (''body'', JObj [(''addLabelIds'', JList add), (''removeLabelIds'', JList remove)])]) (\<lambda>result.
     io_bind (io_lift (subscript (JObj result) ''id'')) (\<lambda>v.
     io_lift (completed api
       [(''message_id'', v), (''label_ids'', dict_get_or result ''labelIds'' (JList []))]
       [JStr message_id])))))))"

definition gmail_handlers ::
  "google_api \<Rightarrow> (string \<times> (dict \<Rightarrow> agent_result google_io)) list" where
  "gmail_handlers api =
     [(''search_emails'', search_emails api), (''get_email'', get_email api),
      (''draft_email'', draft_email api), (''send_email'', send_email api),
      (''update_labels'', update_labels api)]"

definition gmail_execute ::
  "google_api \<Rightarrow> string \<Rightarrow> dict \<Rightarrow> google_request list \<Rightarrow> google_request list \<times> agent_outcome" where
  "gmail_execute api = agent_run api (gmail_handlers api)"

section \<open>Requests\<close>

definition gmail_mutations :: "string \<Rightarrow> string list" where
  "gmail_mutations op =
     (if op = ''draft_email'' then [''gmail.users.drafts.create'']
      else if op = ''send_email'' then [''gmail.users.drafts.send'', ''gmail.users.messages.send'']
      else if op = ''update_labels'' then [''gmail.users.messages.modify'']
      else [])"

lemma search_emails_reads: "only_reads (search_emails api args)"
  unfolding search_emails_def by (intro sends_intros) (simp_all add: read_methods_def)

lemma get_email_reads: "only_reads (get_email api args)"
  unfolding get_email_def by (intro sends_intros) (simp_all add: read_methods_def)

lemma draft_email_sends: "sends (at_most_one [''gmail.users.drafts.create'']) (draft_email api args)"
  unfolding draft_email_def by (intro sends_intros) simp_all

lemma update_labels_sends: "sends (at_most_one [''gmail.users.messages.modify'']) (update_labels api args)"
  unfolding update_labels_def by (intro sends_intros) simp_all

lemma send_email_sends:
  "sends (at_most_one [''gmail.users.drafts.send'', ''gmail.users.messages.send'']) (send_email api args)"
  unfolding send_email_def
  by (intro sends_intros sends_bind_last) (auto split: option.splits intro!: sends_intros)

lemma gmail_sends:
  "map_of (gmail_handlers api) op = Some h \<Longrightarrow> sends (at_most_one (gmail_mutations op)) (h args)"
  using search_emails_reads get_email_reads draft_email_sends update_labels_sends send_email_sends
  by (auto simp: gmail_handlers_def gmail_mutations_def split: if_splits)

lemma gmail_ends:
  "map_of (gmail_handlers api) op = Some h \<Longrightarrow> ends_completed (h args)"
  by (auto simp: gmail_handlers_def search_emails_def get_email_def draft_email_def send_email_def
      update_labels_def Let_def split: if_splits)

end
