(* ===== verification/Drive_Agent.thy ===== *)
theory Drive_Agent
  imports Google_Client
begin

text \<open>
  \<open>app/agents/drive.py\<close>: the search query with its quoting, and the five operations with the
  requests they send.
\<close>

section \<open>The search query\<close>

text \<open>\<open>_escape_query\<close>: backslashes are doubled first, then quotes get one.\<close>

definition backslash :: char where "backslash = CHR 0x5C"
definition quote :: char where "quote = CHR 0x27"

definition escape_query :: "string \<Rightarrow> string" where
  "escape_query s = replace_char quote [backslash, quote] (replace_char backslash [backslash, backslash] s)"

definition clause :: "string \<Rightarrow> string option \<Rightarrow> string list" where
  "clause intro v = (case v of None \<Rightarrow> [] | Some s \<Rightarrow> [intro @ [quote] @ escape_query s @ [quote]])"

definition drive_query :: "dict \<Rightarrow> py_error + string" where
  "drive_query args =
     and_then (optional_string args ''filename'') (\<lambda>filename.
     and_then (optional_string args ''mime_type'') (\<lambda>mime_type.
     and_then (optional_string args ''modified_after'') (\<lambda>modified_after.
     and_then (optional_string args ''modified_before'') (\<lambda>modified_before.
     Inr (py_join '' and ''
       ([''trashed = false''] @ clause ''name contains '' filename @ clause ''mimeType = '' mime_type @
        clause ''modifiedTime >= '' modified_after @ clause ''modifiedTime < '' modified_before))))))"

section \<open>Operations\<close>

definition folder_mime_type :: string where
  "folder_mime_type = ''application/vnd.google-apps.folder''"

definition google_doc_mime_type :: string where
  "google_doc_mime_type = ''application/vnd.google-apps.document''"

definition search_files :: "google_api \<Rightarrow> dict \<Rightarrow> agent_result google_io" where
  "search_files api args =
     io_bind (build_client api ''drive'') (\<lambda>_.
     io_bind (io_lift (lift_py (drive_query args))) (\<lambda>q.
     io_bind (io_lift (lift_py (bounded_int args ''max_results'' 50 100))) (\<lambda>page_size.
     io_bind (call api ''drive.files.list''
       [(''q'', JStr q), (''orderBy'', JStr ''modifiedTime desc''), (''pageSize'', JInt page_size),
        (''fields'', JStr ''nextPageToken,files(id,name,mimeType,modifiedTime,createdTime,parents,webViewLink,size)'')])
       (\<lambda>response.
     let files = dict_get_or response ''files'' (JList []) in
     io_bind (io_lift (iterate files)) (\<lambda>items.
     io_bind (io_lift (map_res (\<lambda>file. subscript file ''id'') items)) (\<lambda>ids.
     io_lift (completed api
       [(''files'', files), (''next_page_token'', py_get response ''nextPageToken'')]
       (map (\<lambda>v. JStr (py_str (float_text api) v)) ids))))))))"

definition content_text :: "google_api \<Rightarrow> nat list + json \<Rightarrow> string" where
  "content_text api exported =
     (case exported of Inl bytes \<Rightarrow> decode_utf8 api bytes | Inr v \<Rightarrow> py_str (float_text api) v)"

definition get_file :: "google_api \<Rightarrow> dict \<Rightarrow> agent_result google_io" where
  "get_file api args =
     io_bind (io_lift (lift_py (require_string args ''file_id''))) (\<lambda>file_id.
     io_bind (build_client api ''drive'') (\<lambda>_.
     io_bind (call api ''drive.files.get''
       [(''fileId'', JStr file_id),
        (''fields'', JStr ''id,name,mimeType,modifiedTime,createdTime,parents,webViewLink,size,description'')])
       (\<lambda>file.
     if py_get file ''mimeType'' = JStr google_doc_mime_type then
       io_bind (download api ''drive.files.export''
         [(''fileId'', JStr file_id), (''mimeType'', JStr ''text/plain'')]) (\<lambda>exported.
       io_lift (completed api
         [(''file'', JObj file), (''text'', JStr (content_text api exported))] [JStr file_id]))
     else io_lift (completed api [(''file'', JObj file)] [JStr file_id]))))"

definition share_role :: "dict \<Rightarrow> py_error + string" where
  "share_role args =
     and_then (optional_string args ''role'') (\<lambda>r.
     let role = (case r of None \<Rightarrow> ''reader'' | Some s \<Rightarrow> s) in
     if role \<notin> set [''reader'', ''commenter'', ''writer'']
     then Inl (ValueError ''role must be reader, commenter, or writer'')
     else Inr role)"

definition share_file :: "google_api \<Rightarrow> dict \<Rightarrow> agent_result google_io" where
  "share_file api args =
     io_bind (io_lift (lift_py (require_string args ''file_id''))) (\<lambda>file_id.
     io_bind (io_lift (lift_py (require_string args ''email''))) (\<lambda>email.
     io_bind (io_lift (lift_py (share_role args))) (\<lambda>role.
     io_bind (build_client api ''drive'') (\<lambda>_.
     io_bind (call api ''drive.permissions.create''
       [(''fileId'', JStr file_id),
        (''body'', JObj [(''type'', JStr ''user''), (''role'', JStr role), (''emailAddress'', JStr email)]),
        (''sendNotificationEmail'', JBool True),
        (''fields'', JStr ''id,type,role,emailAddress'')]) (\<lambda>permission.
     io_lift (completed api
       [(''file_id'', JStr file_id), (''permission'', JObj permission)] [JStr file_id]))))))"

definition create_folder :: "google_api \<Rightarrow> dict \<Rightarrow> agent_result google_io" where
  "create_folder api args =
     io_bind (build_client api ''drive'') (\<lambda>_.
     io_bind (io_lift (lift_py (require_string args ''name''))) (\<lambda>name.
     io_bind (io_lift (lift_py (optional_string args ''parent_id''))) (\<lambda>parent_id.
     let body = [(''name'', JStr name), (''mimeType'', JStr folder_mime_type)] @
       (case parent_id of None \<Rightarrow> [] | Some p \<Rightarrow> [(''parents'', JList [JStr p])]) in
     io_bind (call api ''drive.files.create''
       [(''body'', JObj body), (''fields'', JStr ''id,name,mimeType,parents,webViewLink'')]) (\<lambda>folder.
     io_bind (io_lift (subscript (JObj folder) ''id'')) (\<lambda>v.
     io_lift (completed api [(''folder'', JObj folder)] [JStr (py_str (float_text api) v)]))))))"

text \<open>\<open>",".join(parents)\<close>: a parent that is not a string is a \<open>TypeError\<close>.\<close>

definition joined_parents :: "json \<Rightarrow> agent_exception + string" where
  "joined_parents parents =
     and_then (iterate parents) (\<lambda>ps.
     and_then (map_res (\<lambda>p. case p of JStr s \<Rightarrow> Inr s | _ \<Rightarrow> Inl (Python TypeError)) ps) (\<lambda>names.
     Inr (py_join '','' names)))"

definition move_file :: "google_api \<Rightarrow> dict \<Rightarrow> agent_result google_io" where
  "move_file api args =
     io_bind (io_lift (lift_py (require_string args ''file_id''))) (\<lambda>file_id.
     io_bind (io_lift (lift_py (require_string args ''destination_folder_id''))) (\<lambda>destination_id.
     io_bind (build_client api ''drive'') (\<lambda>_.
     io_bind (call api ''drive.files.get''
       [(''fileId'', JStr file_id), (''fields'', JStr ''parents'')]) (\<lambda>current.
     io_bind (io_lift (joined_parents (dict_get_or current ''parents'' (JList [])))) (\<lambda>previous.
     io_bind (call api ''drive.files.update''
       [(''fileId'', JStr file_id), (''addParents'', JStr destination_id),
        (''removeParents'', if previous = [] then JNull else JStr previous),
        (''fields'', JStr ''id,name,parents,webViewLink'')]) (\<lambda>moved.
     io_lift (completed api [(''file'', JObj moved)] [JStr file_id])))))))"

definition drive_handlers ::
  "google_api \<Rightarrow> (string \<times> (dict \<Rightarrow> agent_result google_io)) list" where
  "drive_handlers api =
     [(''search_files'', search_files api), (''get_file'', get_file api),
      (''share_file'', share_file api), (''create_folder'', create_folder api),
      (''move_file'', move_file api)]"

definition drive_execute ::
  "google_api \<Rightarrow> string \<Rightarrow> dict \<Rightarrow> google_request list \<Rightarrow> google_request list \<times> agent_outcome" where
  "drive_execute api = agent_run api (drive_handlers api)"

section \<open>Requests\<close>

definition drive_mutations :: "string \<Rightarrow> string list" where
  "drive_mutations op =
     (if op = ''share_file'' then [''drive.permissions.create'']
      else if op = ''create_folder'' then [''drive.files.create'']
      else if op = ''move_file'' then [''drive.files.update'']
      else [])"

lemma search_files_reads: "only_reads (search_files api args)"
  unfolding search_files_def by (intro sends_intros) (simp_all add: read_methods_def)

lemma get_file_reads: "only_reads (get_file api args)"
  unfolding get_file_def by (intro sends_intros) (simp_all add: read_methods_def)

lemma share_file_sends: "sends (at_most_one [''drive.permissions.create'']) (share_file api args)"
  unfolding share_file_def by (intro sends_intros) simp_all

lemma create_folder_sends: "sends (at_most_one [''drive.files.create'']) (create_folder api args)"
  unfolding create_folder_def by (intro sends_intros) simp_all

lemma move_file_sends: "sends (at_most_one [''drive.files.update'']) (move_file api args)"
  unfolding move_file_def
  by (intro sends_bind_steps(1-3) sends_lift sends_bind_steps(5)) (simp_all add: read_methods_def)

lemma drive_sends:
  "map_of (drive_handlers api) op = Some h \<Longrightarrow> sends (at_most_one (drive_mutations op)) (h args)"
  using search_files_reads get_file_reads share_file_sends create_folder_sends move_file_sends
  by (auto simp: drive_handlers_def drive_mutations_def split: if_splits)

lemma drive_ends:
  "map_of (drive_handlers api) op = Some h \<Longrightarrow> ends_completed (h args)"
  by (auto simp: drive_handlers_def search_files_def get_file_def share_file_def create_folder_def
      move_file_def Let_def split: if_splits)

section \<open>Quoting\<close>

text \<open>
  How Drive reads a quoted value: a backslash makes the next character literal, the first other
  quote ends it. \<open>None\<close> is a value that does not end.
\<close>

fun read_quoted :: "string \<Rightarrow> (string \<times> string) option" where
  "read_quoted [] = None"
| "read_quoted (c # cs) =
     (if c = quote then Some ([], cs)
      else if c = backslash then
        (case cs of
           [] \<Rightarrow> None
         | d # ds \<Rightarrow> map_option (\<lambda>(v, rest). (d # v, rest)) (read_quoted ds))
      else map_option (\<lambda>(v, rest). (c # v, rest)) (read_quoted cs))"

lemma quote_not_backslash [simp]: "quote \<noteq> backslash" "backslash \<noteq> quote"
  by (simp_all add: quote_def backslash_def)

lemma escape_query_Cons:
  "escape_query (c # s) =
     (if c = quote \<or> c = backslash then [backslash, c] else [c]) @ escape_query s"
  by (auto simp: escape_query_def replace_char_def)

lemma escape_query_Nil [simp]: "escape_query [] = []"
  by (simp add: escape_query_def replace_char_def)

lemma read_quoted_escape: "read_quoted (escape_query s @ quote # rest) = Some (s, rest)"
  by (induction s) (auto simp: escape_query_Cons)

text \<open>
  C33. Whatever the user's text, its quoted form in a Drive query is read back as exactly that
  text, and the quote that ends it is the one the agent wrote: no text can end the value early
  and add conditions of its own to the query.
\<close>

theorem escape_query_roundtrip: "read_quoted (escape_query s @ quote # rest) = Some (s, rest)"
  by (rule read_quoted_escape)

end
