(* ===== verification/Calendar_Agent.thy ===== *)
theory Calendar_Agent
  imports Google_Client "HOL-Library.Multiset"
begin

text \<open>
  \<open>app/agents/calendar.py\<close>: timestamps, the body of an event, the summary of an event, the
  filtering and ordering of a search, and the five operations with the requests they send.
\<close>

section \<open>Timestamps\<close>

definition check_aware :: "string \<Rightarrow> string \<Rightarrow> py_error + unit" where
  "check_aware v name =
     (case datetime_fromisoformat (replace_z v) of
        None \<Rightarrow> Inl (ValueError (name @ '' must be an ISO timestamp''))
      | Some t \<Rightarrow> if is_aware t then Inr () else Inl (ValueError (name @ '' must include a timezone'')))"

definition required_aware_timestamp :: "dict \<Rightarrow> string \<Rightarrow> py_error + string" where
  "required_aware_timestamp args name =
     and_then (require_string args name) (\<lambda>v. and_then (check_aware v name) (\<lambda>_. Inr v))"

definition optional_aware_timestamp :: "dict \<Rightarrow> string \<Rightarrow> py_error + string option" where
  "optional_aware_timestamp args name =
     and_then (optional_string args name) (\<lambda>v.
     case v of
       None \<Rightarrow> Inr None
     | Some s \<Rightarrow> and_then (check_aware s name) (\<lambda>_. Inr (Some s)))"

text \<open>\<open>datetime.max\<close> in UTC, the key of an event without a start.\<close>

definition max_micros :: int where
  "max_micros = utc_micros \<lparr>year = 9999, month = 12, day = 31, hour = 23, minute = 59, second = 59,
     microsecond = 999999, utcoffset = Some 0\<rparr>"

definition event_start_sort_key :: "google_api \<Rightarrow> dict \<Rightarrow> py_error + int" where
  "event_start_sort_key api event =
     (case py_get event ''start'' of
        JStr s \<Rightarrow>
          (case datetime_fromisoformat (replace_z s) of
             None \<Rightarrow> Inl (ValueError (''Invalid isoformat string: '' @ repr_string (replace_z s)))
           | Some t \<Rightarrow> Inr (if is_aware t then utc_micros t else local_micros t - local_utcoffset api t))
      | _ \<Rightarrow> Inr max_micros)"

text \<open>A naive start is read in the offset of the lower bound.\<close>

definition is_at_or_after :: "json \<Rightarrow> datetime \<Rightarrow> py_error + bool" where
  "is_at_or_after v threshold =
     (case v of
        JStr s \<Rightarrow>
          (case datetime_fromisoformat (replace_z s) of
             None \<Rightarrow> Inl (ValueError (''Invalid isoformat string: '' @ repr_string (replace_z s)))
           | Some t \<Rightarrow>
               (let start = (if is_aware t then t else t\<lparr>utcoffset := utcoffset threshold\<rparr>)
                in Inr (utc_micros threshold \<le> utc_micros start)))
      | _ \<Rightarrow> Inr False)"

section \<open>Events\<close>

definition event_time :: "dict \<Rightarrow> string \<Rightarrow> agent_exception + json" where
  "event_time event k =
     and_then (attr_get (dict_get_or event k (JObj [])) ''dateTime'' JNull) (\<lambda>t.
     if py_truthy t then Inr t else attr_get (dict_get_or event k (JObj [])) ''date'' JNull)"

definition event_organizer :: "dict \<Rightarrow> agent_exception + json" where
  "event_organizer event =
     and_then (attr_get (dict_get_or event ''organizer'' (JObj [])) ''displayName'' JNull) (\<lambda>v.
     if py_truthy v then Inr v else attr_get (dict_get_or event ''organizer'' (JObj [])) ''email'' JNull)"

definition event_attendees :: "dict \<Rightarrow> agent_exception + json list" where
  "event_attendees event =
     and_then (iterate (dict_get_or event ''attendees'' (JList []))) (\<lambda>items.
     and_then (map_res (\<lambda>item. attr_get item ''email'' JNull) items) (\<lambda>emails.
     Inr (filter py_truthy emails)))"

fun event_summary :: "json \<Rightarrow> agent_exception + dict" where
  "event_summary (JObj event) =
     and_then (event_time event ''start'') (\<lambda>start.
     and_then (event_time event ''end'') (\<lambda>stop.
     and_then (attr_get (dict_get_or event ''start'' (JObj [])) ''timeZone'' JNull) (\<lambda>zone.
     and_then (event_organizer event) (\<lambda>organizer.
     and_then (event_attendees event) (\<lambda>attendees.
     Inr
       [(''id'', py_get event ''id''),
        (''title'', dict_get_or event ''summary'' (JStr [])),
        (''description'', dict_get_or event ''description'' (JStr [])),
        (''start'', start), (''end'', stop), (''timezone'', zone), (''organizer'', organizer),
        (''attendees'', JList attendees),
        (''html_link'', py_get event ''htmlLink''), (''status'', py_get event ''status''),
        (''meet_url'', py_get event ''hangoutLink''),
        (''conference_data'', py_get event ''conferenceData'')])))))"
| "event_summary _ = Inl (Python AttributeError)"

definition zoned :: "string option \<Rightarrow> string \<Rightarrow> json" where
  "zoned zone t = JObj ((''dateTime'', JStr t) #
     (case zone of None \<Rightarrow> [] | Some z \<Rightarrow> [(''timeZone'', JStr z)]))"

definition body_field :: "string \<Rightarrow> (string \<Rightarrow> json) \<Rightarrow> string option \<Rightarrow> dict" where
  "body_field k f v = (case v of None \<Rightarrow> [] | Some s \<Rightarrow> [(k, f s)])"

definition some_of :: "'e + 'a \<Rightarrow> 'e + 'a option" where
  "some_of r = and_then r (\<lambda>x. Inr (Some x))"

definition event_body :: "dict \<Rightarrow> bool \<Rightarrow> py_error + dict" where
  "event_body args require_times =
     and_then (if require_times then some_of (require_string args ''title'')
       else optional_string args ''title'') (\<lambda>title.
     and_then (if require_times then some_of (required_aware_timestamp args ''start'')
       else optional_aware_timestamp args ''start'') (\<lambda>start.
     and_then (if require_times then some_of (required_aware_timestamp args ''end'')
       else optional_aware_timestamp args ''end'') (\<lambda>stop.
     and_then (optional_string args ''timezone'') (\<lambda>zone.
     and_then (optional_string args ''description'') (\<lambda>description.
     and_then (string_list args ''attendees'') (\<lambda>attendees.
     let body = body_field ''summary'' JStr title @ body_field ''start'' (zoned zone) start @
       body_field ''end'' (zoned zone) stop @ body_field ''description'' JStr description @
       (if attendees = [] then []
        else [(''attendees'', JList (map (\<lambda>email. JObj [(''email'', email)]) attendees))]) in
     if body = [] then Inl (ValueError ''At least one event field must be supplied'')
     else Inr body))))))"

section \<open>Search\<close>

definition calendar_id :: "dict \<Rightarrow> py_error + json" where
  "calendar_id args =
     and_then (optional_string args ''calendar_id'') (\<lambda>v.
     Inr (JStr (case v of None \<Rightarrow> ''primary'' | Some s \<Rightarrow> s)))"

definition filter_res :: "('a \<Rightarrow> 'e + bool) \<Rightarrow> 'a list \<Rightarrow> 'e + 'a list" where
  "filter_res p xs =
     and_then (map_res p xs) (\<lambda>bs. Inr (map fst (filter snd (zip xs bs))))"

text \<open>The events at or after \<open>time_min\<close>; the bound was validated before the request.\<close>

definition from_time_min :: "string option \<Rightarrow> dict list \<Rightarrow> py_error + dict list" where
  "from_time_min time_min events =
     (case time_min of
        None \<Rightarrow> Inr events
      | Some s \<Rightarrow>
          (case datetime_fromisoformat (replace_z s) of
             None \<Rightarrow> Inl (ValueError (''Invalid isoformat string: '' @ repr_string (replace_z s)))
           | Some threshold \<Rightarrow>
               filter_res (\<lambda>event. is_at_or_after (py_get event ''start'') threshold) events))"

definition attended_by :: "google_api \<Rightarrow> string \<Rightarrow> dict \<Rightarrow> bool" where
  "attended_by api attendee event \<longleftrightarrow>
     py_lower attendee \<in> set (map (\<lambda>item. py_lower (py_str (float_text api) item))
       (case py_get event ''attendees'' of JList xs \<Rightarrow> xs | _ \<Rightarrow> []))"

definition sorted_events :: "google_api \<Rightarrow> dict list \<Rightarrow> py_error + dict list" where
  "sorted_events api events =
     and_then (map_res (event_start_sort_key api) events) (\<lambda>ks.
     Inr (map fst (sort_key snd (zip events ks))))"

definition select_events ::
  "google_api \<Rightarrow> string option \<Rightarrow> string option \<Rightarrow> int \<Rightarrow> dict list \<Rightarrow> py_error + dict list" where
  "select_events api time_min attendee max_results events =
     and_then (from_time_min time_min events) (\<lambda>events.
     and_then (sorted_events api
       (case attendee of None \<Rightarrow> events | Some a \<Rightarrow> filter (attended_by api a) events)) (\<lambda>events.
     Inr (take (nat max_results) events)))"

definition search_events :: "google_api \<Rightarrow> dict \<Rightarrow> agent_result google_io" where
  "search_events api args =
     io_bind (build_client api ''calendar'') (\<lambda>_.
     io_bind (io_lift (lift_py (optional_aware_timestamp args ''time_min''))) (\<lambda>time_min.
     io_bind (io_lift (lift_py (bounded_int args ''max_results'' 20 250))) (\<lambda>max_results.
     io_bind (io_lift (lift_py (calendar_id args))) (\<lambda>calendar.
     io_bind (io_lift (lift_py (optional_aware_timestamp args ''time_max''))) (\<lambda>time_max.
     io_bind (io_lift (lift_py (optional_string args ''keywords''))) (\<lambda>keywords.
     io_bind (call api ''calendar.events.list''
       [(''calendarId'', calendar), (''timeMin'', opt_json time_min), (''timeMax'', opt_json time_max),
        (''q'', opt_json keywords), (''singleEvents'', JBool True), (''orderBy'', JStr ''startTime''),
        (''maxResults'', JInt max_results)]) (\<lambda>response.
     io_bind (io_lift (lift_py (optional_string args ''attendee''))) (\<lambda>attendee.
     io_bind (io_lift (iterate (dict_get_or response ''items'' (JList [])))) (\<lambda>items.
     io_bind (io_lift (map_res event_summary items)) (\<lambda>events.
     io_bind (io_lift (lift_py (select_events api time_min attendee max_results events))) (\<lambda>events.
     io_lift (completed api
       [(''events'', JList (map JObj events)), (''next_page_token'', py_get response ''nextPageToken'')]
       (map (\<lambda>e. JStr (py_str (float_text api) (py_get e ''id''))) events)))))))))))))"

section \<open>Other operations\<close>

definition get_event :: "google_api \<Rightarrow> dict \<Rightarrow> agent_result google_io" where
  "get_event api args =
     io_bind (io_lift (lift_py (require_string args ''event_id''))) (\<lambda>event_id.
     io_bind (build_client api ''calendar'') (\<lambda>_.
     io_bind (io_lift (lift_py (calendar_id args))) (\<lambda>calendar.
     io_bind (call api ''calendar.events.get''
       [(''calendarId'', calendar), (''eventId'', JStr event_id)]) (\<lambda>event.
     io_bind (io_lift (event_summary (JObj event))) (\<lambda>summary.
     io_lift (completed api [(''event'', JObj summary)] [JStr event_id]))))))"

definition meet_request :: "google_api \<Rightarrow> json" where
  "meet_request api = JObj [(''createRequest'', JObj
     [(''requestId'', JStr (uuid_hex api)),
      (''conferenceSolutionKey'', JObj [(''type'', JStr ''hangoutsMeet'')])])]"

definition create_event :: "google_api \<Rightarrow> dict \<Rightarrow> agent_result google_io" where
  "create_event api args =
     io_bind (build_client api ''calendar'') (\<lambda>_.
     io_bind (io_lift (lift_py (event_body args True))) (\<lambda>body.
     let meet = (py_get args ''create_google_meet'' = JBool True);
         body = (if meet then dict_set ''conferenceData'' (meet_request api) body else body) in
     io_bind (io_lift (lift_py (calendar_id args))) (\<lambda>calendar.
     io_bind (call api ''calendar.events.insert''
       ([(''calendarId'', calendar), (''body'', JObj body), (''sendUpdates'', JStr ''all'')] @
        (if meet then [(''conferenceDataVersion'', JInt 1)] else []))) (\<lambda>event.
     io_bind (io_lift (event_summary (JObj event))) (\<lambda>summary.
     io_bind (io_lift (subscript (JObj event) ''id'')) (\<lambda>v.
     io_lift (completed api
       [(''event'', JObj summary)] [JStr (py_str (float_text api) v)])))))))"

definition update_event :: "google_api \<Rightarrow> dict \<Rightarrow> agent_result google_io" where
  "update_event api args =
     io_bind (io_lift (lift_py (require_string args ''event_id''))) (\<lambda>event_id.
     io_bind (build_client api ''calendar'') (\<lambda>_.
     io_bind (io_lift (lift_py (event_body args False))) (\<lambda>body.
     io_bind (io_lift (lift_py (calendar_id args))) (\<lambda>calendar.
     io_bind (call api ''calendar.events.patch''
       [(''calendarId'', calendar), (''eventId'', JStr event_id), (''body'', JObj body),
        (''sendUpdates'', JStr ''all'')]) (\<lambda>event.
     io_bind (io_lift (event_summary (JObj event))) (\<lambda>summary.
     io_lift (completed api [(''event'', JObj summary)] [JStr event_id])))))))"

definition delete_event :: "google_api \<Rightarrow> dict \<Rightarrow> agent_result google_io" where
  "delete_event api args =
     io_bind (io_lift (lift_py (require_string args ''event_id''))) (\<lambda>event_id.
     io_bind (build_client api ''calendar'') (\<lambda>_.
     io_bind (io_lift (lift_py (calendar_id args))) (\<lambda>calendar.
     io_bind (call api ''calendar.events.delete''
       [(''calendarId'', calendar), (''eventId'', JStr event_id), (''sendUpdates'', JStr ''all'')]) (\<lambda>_.
     io_lift (completed api
       [(''event_id'', JStr event_id), (''deleted'', JBool True)] [JStr event_id])))))"

definition calendar_handlers ::
  "google_api \<Rightarrow> (string \<times> (dict \<Rightarrow> agent_result google_io)) list" where
  "calendar_handlers api =
     [(''search_events'', search_events api), (''get_event'', get_event api),
      (''create_event'', create_event api), (''update_event'', update_event api),
      (''delete_event'', delete_event api)]"

definition calendar_execute ::
  "google_api \<Rightarrow> string \<Rightarrow> dict \<Rightarrow> google_request list \<Rightarrow> google_request list \<times> agent_outcome" where
  "calendar_execute api = agent_run api (calendar_handlers api)"

section \<open>Requests\<close>

definition calendar_mutations :: "string \<Rightarrow> string list" where
  "calendar_mutations op =
     (if op = ''create_event'' then [''calendar.events.insert'']
      else if op = ''update_event'' then [''calendar.events.patch'']
      else if op = ''delete_event'' then [''calendar.events.delete'']
      else [])"

lemma search_events_reads: "only_reads (search_events api args)"
  unfolding search_events_def by (intro sends_intros) (simp_all add: read_methods_def)

lemma get_event_reads: "only_reads (get_event api args)"
  unfolding get_event_def by (intro sends_intros) (simp_all add: read_methods_def)

lemma create_event_sends: "sends (at_most_one [''calendar.events.insert'']) (create_event api args)"
  unfolding create_event_def by (intro sends_intros) simp_all

lemma update_event_sends: "sends (at_most_one [''calendar.events.patch'']) (update_event api args)"
  unfolding update_event_def by (intro sends_intros) simp_all

lemma delete_event_sends: "sends (at_most_one [''calendar.events.delete'']) (delete_event api args)"
  unfolding delete_event_def by (intro sends_intros) simp_all

lemma calendar_sends:
  "map_of (calendar_handlers api) op = Some h \<Longrightarrow> sends (at_most_one (calendar_mutations op)) (h args)"
  using search_events_reads get_event_reads create_event_sends update_event_sends delete_event_sends
  by (auto simp: calendar_handlers_def calendar_mutations_def split: if_splits)

lemma calendar_ends:
  "map_of (calendar_handlers api) op = Some h \<Longrightarrow> ends_completed (h args)"
  by (auto simp: calendar_handlers_def search_events_def get_event_def create_event_def update_event_def
      delete_event_def Let_def split: if_splits)

section \<open>What a search selects\<close>

lemma and_then_Inr [simp]: "and_then r f = Inr y \<longleftrightarrow> (\<exists>x. r = Inr x \<and> f x = Inr y)"
  by (cases r) (auto simp: and_then_def)

lemma filter_res_Inr:
  "filter_res p xs = Inr ys \<Longrightarrow> ys = filter (\<lambda>x. p x = Inr True) xs"
proof (induction xs arbitrary: ys)
  case (Cons x xs)
  then show ?case
    by (cases "p x"; cases "map_res p xs") (auto simp: filter_res_def split: if_splits)
qed (simp add: filter_res_def)

text \<open>An event that passes both filters.\<close>

definition eligible :: "google_api \<Rightarrow> string option \<Rightarrow> string option \<Rightarrow> dict \<Rightarrow> bool" where
  "eligible api time_min attendee event \<longleftrightarrow>
     (case time_min of
        None \<Rightarrow> True
      | Some s \<Rightarrow>
          (\<exists>t. datetime_fromisoformat (replace_z s) = Some t \<and>
             is_at_or_after (py_get event ''start'') t = Inr True)) \<and>
     (case attendee of None \<Rightarrow> True | Some a \<Rightarrow> attended_by api a event)"

lemma from_time_min_Inr:
  assumes "from_time_min time_min events = Inr ys"
  shows "filter (\<lambda>e. case attendee of None \<Rightarrow> True | Some a \<Rightarrow> attended_by api a e) ys =
    filter (eligible api time_min attendee) events"
  using assms
  by (cases attendee) (auto simp: from_time_min_def eligible_def [abs_def] dest!: filter_res_Inr split: option.splits)

lemma sorted_events_Inr:
  assumes "sorted_events api events = Inr ys"
  obtains ks where "map_res (event_start_sort_key api) events = Inr ks"
    and "ys = map fst (sort_key snd (zip events ks))"
  using assms by (auto simp: sorted_events_def)

lemma sorted_events_props:
  assumes "sorted_events api events = Inr ys"
  shows "mset ys = mset events"
    and "\<exists>ks. map_res (event_start_sort_key api) ys = Inr ks \<and> sorted ks"
proof -
  from assms obtain ks where ks: "map_res (event_start_sort_key api) events = Inr ks"
    and ys: "ys = map fst (sort_key snd (zip events ks))" by (rule sorted_events_Inr)
  then have len: "length ks = length events" by (auto simp: map_res_Inr dest: list_all2_lengthD)
  have "mset ys = image_mset fst (mset (zip events ks))" unfolding ys by (simp only: mset_map mset_sort)
  also have "\<dots> = mset (map fst (zip events ks))" by (simp only: mset_map)
  also have "map fst (zip events ks) = events" using len by simp
  finally show "mset ys = mset events" .
  let ?ps = "sort_key snd (zip events ks)"
  have "event_start_sort_key api (fst p) = Inr (snd p)" if "p \<in> set ?ps" for p
  proof -
    from that have "p \<in> set (zip events ks)" by simp
    with ks show ?thesis by (auto simp: map_res_Inr list_all2_iff in_set_zip)
  qed
  then have "map_res (event_start_sort_key api) ys = Inr (map snd ?ps)"
    unfolding ys by (auto simp: map_res_Inr list_all2_conv_all_nth simp del: set_sort intro: nth_mem)
  moreover have "sorted (map snd ?ps)" by simp
  ultimately show "\<exists>ks. map_res (event_start_sort_key api) ys = Inr ks \<and> sorted ks" by blast
qed

text \<open>
  C25. The events a calendar search returns are the earliest of the eligible ones: events that the
  service returned, that start at or after \<open>time_min\<close> and have the attendee asked for, in
  ascending order of start, the first \<open>max_results\<close> of them and no others.
\<close>

theorem calendar_search_selects_earliest:
  assumes "select_events api time_min attendee n events = Inr chosen"
  shows "\<exists>rest ks. mset (chosen @ rest) = mset (filter (eligible api time_min attendee) events) \<and>
    map_res (event_start_sort_key api) (chosen @ rest) = Inr ks \<and> sorted ks \<and>
    length chosen = min (nat n) (length (chosen @ rest))"
proof -
  from assms obtain es ys where es: "from_time_min time_min events = Inr es"
    and ys: "sorted_events api (case attendee of None \<Rightarrow> es | Some a \<Rightarrow> filter (attended_by api a) es) = Inr ys"
    and chosen: "chosen = take (nat n) ys"
    by (auto simp: select_events_def)
  have "(case attendee of None \<Rightarrow> es | Some a \<Rightarrow> filter (attended_by api a) es) =
      filter (eligible api time_min attendee) events"
    using from_time_min_Inr [OF es, where attendee = attendee and api = api] by (cases attendee) simp_all
  with ys have ys: "sorted_events api (filter (eligible api time_min attendee) events) = Inr ys" by simp
  have "ys = chosen @ drop (nat n) ys" and "length chosen = min (nat n) (length ys)"
    using chosen by simp_all
  with sorted_events_props [OF ys] show ?thesis by metis
qed

definition sample_events :: "dict list" where
  "sample_events =
     [[(''id'', JStr ''late''), (''start'', JStr ''2024-05-02T09:00:00Z'')],
      [(''id'', JStr ''past''), (''start'', JStr ''2024-04-30T09:00:00Z'')],
      [(''id'', JStr ''next''), (''start'', JStr ''2024-05-01T12:00:00+02:00'')]]"

lemma sample_event_times:
  "datetime_fromisoformat (replace_z ''2024-05-01T00:00:00Z'') =
     Some \<lparr>year = 2024, month = 5, day = 1, hour = 0, minute = 0, second = 0, microsecond = 0, utcoffset = Some 0\<rparr>"
  "datetime_fromisoformat (replace_z ''2024-05-02T09:00:00Z'') =
     Some \<lparr>year = 2024, month = 5, day = 2, hour = 9, minute = 0, second = 0, microsecond = 0, utcoffset = Some 0\<rparr>"
  "datetime_fromisoformat (replace_z ''2024-04-30T09:00:00Z'') =
     Some \<lparr>year = 2024, month = 4, day = 30, hour = 9, minute = 0, second = 0, microsecond = 0, utcoffset = Some 0\<rparr>"
  "datetime_fromisoformat (replace_z ''2024-05-01T12:00:00+02:00'') =
     Some \<lparr>year = 2024, month = 5, day = 1, hour = 12, minute = 0, second = 0, microsecond = 0, utcoffset = Some 7200000000\<rparr>"
  by (simp_all add: datetime_eval cong: let_weak_cong)

lemma sample_selected:
  "select_events (answering []) (Some ''2024-05-01T00:00:00Z'') None 1 sample_events = Inr [sample_events ! 2]"
  by (simp add: select_events_def from_time_min_def filter_res_def and_then_def sample_events_def
      is_at_or_after_def sample_event_times sorted_events_def event_start_sort_key_def dict_get_or_def
      is_aware_def utc_micros_def local_micros_def ymd_to_ord_def days_before_year_def
      days_before_month_def days_in_month_def is_leap_def)

lemma calendar_search_selects_earliest_witness:
  "\<exists>rest ks. mset ([sample_events ! 2] @ rest) =
      mset (filter (eligible (answering []) (Some ''2024-05-01T00:00:00Z'') None) sample_events) \<and>
    map_res (event_start_sort_key (answering [])) ([sample_events ! 2] @ rest) = Inr ks \<and> sorted ks \<and>
    length [sample_events ! 2] = min (nat 1) (length ([sample_events ! 2] @ rest))"
  by (rule calendar_search_selects_earliest [OF sample_selected])

end
