(* ===== verification/Chunking.thy ===== *)
theory Chunking
  imports Py_Text
begin

text \<open>
  \<open>chunk_text\<close> of \<open>app/retrieval/chunking.py\<close>: the splitting of a text into overlapping chunks.
  The loop is \<open>partial_function (option)\<close>: it ends for the sizes the program uses, 850 and 100,
  and more generally when the overlap is less than half the target size; for larger overlaps the
  code accepts it may run for ever, which \<open>chunk_text_may_diverge\<close> shows.
\<close>

section \<open>The loop\<close>

text \<open>\<open>text.rfind(" ", lo, hi)\<close> and \<open>text.find(" ", lo, hi)\<close>; \<open>None\<close> is -1.\<close>

definition spaces_between :: "string \<Rightarrow> nat \<Rightarrow> nat \<Rightarrow> nat list" where
  "spaces_between s lo hi = filter (\<lambda>i. s ! i = CHR '' '') [lo ..< min hi (length s)]"

definition rfind_space :: "string \<Rightarrow> nat \<Rightarrow> nat \<Rightarrow> nat option" where
  "rfind_space s lo hi = (case spaces_between s lo hi of [] \<Rightarrow> None | is \<Rightarrow> Some (last is))"

definition find_space :: "string \<Rightarrow> nat \<Rightarrow> nat \<Rightarrow> nat option" where
  "find_space s lo hi = (case spaces_between s lo hi of [] \<Rightarrow> None | i # _ \<Rightarrow> Some i)"

definition chunk_end :: "string \<Rightarrow> nat \<Rightarrow> nat \<Rightarrow> nat" where
  "chunk_end s target_size start =
     (let proposed_end = min (start + target_size) (length s) in
      if proposed_end < length s then
        (case rfind_space s (start + target_size div 2) (proposed_end + 1) of
           Some boundary \<Rightarrow> (if boundary > start then boundary else proposed_end)
         | None \<Rightarrow> proposed_end)
      else proposed_end)"

definition next_start :: "string \<Rightarrow> nat \<Rightarrow> nat \<Rightarrow> nat" where
  "next_start s overlap stop =
     (let lo = stop - overlap in
      case find_space s lo stop of Some boundary \<Rightarrow> boundary + 1 | None \<Rightarrow> lo)"

definition slice :: "string \<Rightarrow> nat \<Rightarrow> nat \<Rightarrow> string" where
  "slice s start stop = take (stop - start) (drop start s)"

partial_function (option) chunk_loop ::
  "string \<Rightarrow> nat \<Rightarrow> nat \<Rightarrow> nat \<Rightarrow> string list \<Rightarrow> string list option" where
  "chunk_loop s target_size overlap start chunks =
     (if start < length s then
        (let stop = chunk_end s target_size start;
             chunks = chunks @ [py_strip (slice s start stop)]
         in if stop = length s then Some chunks
            else chunk_loop s target_size overlap (next_start s overlap stop) chunks)
      else Some chunks)"

text \<open>\<open>None\<close> means that the call does not return.\<close>

definition chunk_text :: "string \<Rightarrow> int \<Rightarrow> int \<Rightarrow> (py_error + string list) option" where
  "chunk_text text1 target_size overlap =
     (let cleaned = normalize_space text1 in
      if cleaned = [] then Some (Inr [])
      else if target_size < 200 then Some (Inl (ValueError ''target_size must be at least 200''))
      else if overlap < 0 \<or> overlap \<ge> target_size
      then Some (Inl (ValueError ''overlap must be non-negative and smaller than target_size''))
      else if int (length cleaned) \<le> target_size then Some (Inr [cleaned])
      else map_option Inr (chunk_loop cleaned (nat target_size) (nat overlap) 0 []))"

section \<open>Progress\<close>

lemma spaces_between_props:
  "i \<in> set (spaces_between s lo hi) \<longleftrightarrow> lo \<le> i \<and> i < hi \<and> i < length s \<and> s ! i = CHR '' ''"
  by (auto simp: spaces_between_def)

lemma rfind_space_Some:
  "rfind_space s lo hi = Some i \<Longrightarrow> lo \<le> i \<and> i < hi \<and> i < length s \<and> s ! i = CHR '' ''"
  using spaces_between_props [of i s lo hi]
  by (auto simp: rfind_space_def split: list.splits if_splits)

lemma find_space_Some:
  "find_space s lo hi = Some i \<Longrightarrow> lo \<le> i \<and> i < hi \<and> i < length s \<and> s ! i = CHR '' ''"
  using spaces_between_props [of i s lo hi]
  by (auto simp: find_space_def split: list.splits)

lemma chunk_end_bounds:
  assumes "start < length s" and "2 \<le> target_size"
  shows "start < chunk_end s target_size start" "chunk_end s target_size start \<le> start + target_size"
    "chunk_end s target_size start \<le> length s"
    "chunk_end s target_size start = length s \<or> start + target_size div 2 \<le> chunk_end s target_size start"
  using assms
  by (auto simp: chunk_end_def Let_def dest!: rfind_space_Some split: option.splits)

lemma next_start_bounds:
  assumes "stop \<le> length s"
  shows "stop - overlap \<le> next_start s overlap stop" "next_start s overlap stop \<le> stop"
  using assms by (auto simp: next_start_def Let_def dest!: find_space_Some split: option.splits)

lemma chunk_progress:
  assumes "start < length s" "chunk_end s target_size start \<noteq> length s" "overlap < target_size div 2"
  shows "start < next_start s overlap (chunk_end s target_size start)"
    "next_start s overlap (chunk_end s target_size start) < length s"
  using chunk_end_bounds [of start s target_size] assms
    next_start_bounds [of "chunk_end s target_size start" s overlap] by linarith+

text \<open>Induction along the loop, for sizes for which it makes progress.\<close>

lemma chunk_loop_induct [consumes 1, case_names End Last Step]:
  assumes "overlap < target_size div 2"
    and "\<And>start chunks. length s \<le> start \<Longrightarrow> P start chunks (Some chunks)"
    and "\<And>start chunks. start < length s \<Longrightarrow> chunk_end s target_size start = length s \<Longrightarrow>
      P start chunks (Some (chunks @ [py_strip (slice s start (length s))]))"
    and "\<And>start chunks r. start < length s \<Longrightarrow> chunk_end s target_size start \<noteq> length s \<Longrightarrow>
      P (next_start s overlap (chunk_end s target_size start))
        (chunks @ [py_strip (slice s start (chunk_end s target_size start))]) r \<Longrightarrow> P start chunks r"
  shows "P start chunks (chunk_loop s target_size overlap start chunks)"
proof (induction "length s - start" arbitrary: start chunks rule: less_induct)
  case less
  show ?case
  proof (cases "start < length s")
    case False
    then show ?thesis using assms(2) [of start chunks] by (simp add: chunk_loop.simps)
  next
    case True
    let ?stop = "chunk_end s target_size start"
    show ?thesis
    proof (cases "?stop = length s")
      case True
      with \<open>start < length s\<close> assms(3) [of start chunks] show ?thesis
        by (simp add: chunk_loop.simps [of s target_size overlap start] Let_def)
    next
      case False
      have "start < next_start s overlap ?stop"
        using chunk_progress(1) [OF True False assms(1)] .
      with True have "length s - next_start s overlap ?stop < length s - start" by linarith
      from less [OF this] assms(4) [OF True False]
      have "P start chunks (chunk_loop s target_size overlap (next_start s overlap ?stop)
          (chunks @ [py_strip (slice s start ?stop)]))" by blast
      with True False show ?thesis
        by (simp add: chunk_loop.simps [of s target_size overlap start] Let_def)
    qed
  qed
qed

lemma chunk_loop_total:
  "overlap < target_size div 2 \<Longrightarrow> \<exists>cs. chunk_loop s target_size overlap start chunks = Some cs"
  by (induction rule: chunk_loop_induct [where P = "\<lambda>_ _ r. \<exists>cs. r = Some cs"]) auto

section \<open>Normalized text\<close>

text \<open>The words of a split text are non-empty and hold no white space.\<close>

definition is_word :: "string \<Rightarrow> bool" where
  "is_word w \<longleftrightarrow> w \<noteq> [] \<and> (\<forall>c \<in> set w. \<not> py_isspace c)"

lemma split_acc_words:
  "\<forall>c \<in> set w. \<not> py_isspace c \<Longrightarrow> v \<in> set (split_acc w s) \<Longrightarrow> is_word v"
proof (induction s arbitrary: w)
  case Nil
  then show ?case by (simp add: is_word_def split: if_splits)
next
  case (Cons c s)
  show ?case
  proof (cases "py_isspace c")
    case True
    with Cons.prems have "w \<noteq> [] \<and> v = w \<or> v \<in> set (split_acc [] s)" by (simp split: if_splits)
    with Cons.prems(1) Cons.IH [of "[]"] show ?thesis by (auto simp: is_word_def)
  next
    case False
    with Cons.prems Cons.IH [of "w @ [c]"] show ?thesis by simp
  qed
qed

lemma py_split_words: "v \<in> set (py_split s) \<Longrightarrow> is_word v"
  unfolding py_split_def by (rule split_acc_words) simp_all

lemma space_is_space: "py_isspace CHR '' ''"
  by code_simp

text \<open>Single inner spaces only: no space at either end, none next to another.\<close>

definition single_spaced :: "string \<Rightarrow> bool" where
  "single_spaced s \<longleftrightarrow>
     s \<noteq> [] \<and> \<not> py_isspace (hd s) \<and> \<not> py_isspace (last s) \<and>
     (\<forall>i. Suc i < length s \<longrightarrow> py_isspace (s ! i) \<longrightarrow> s ! i = CHR '' '' \<and> \<not> py_isspace (s ! Suc i))"

lemma single_spaced_word: "is_word w \<Longrightarrow> single_spaced w"
  by (auto simp: is_word_def single_spaced_def)

lemma single_spaced_append:
  assumes "is_word w" and "single_spaced s"
  shows "single_spaced (w @ CHR '' '' # s)"
  unfolding single_spaced_def
proof (intro conjI allI impI)
  show "w @ CHR '' '' # s \<noteq> []" by simp
  show "\<not> py_isspace (hd (w @ CHR '' '' # s))" using assms(1) by (cases w) (auto simp: is_word_def)
  show "\<not> py_isspace (last (w @ CHR '' '' # s))" using assms(2) by (auto simp: single_spaced_def)
  fix i
  assume i: "Suc i < length (w @ CHR '' '' # s)" and sp: "py_isspace ((w @ CHR '' '' # s) ! i)"
  from assms(1) sp have "length w \<le> i" by (auto simp: is_word_def nth_append split: if_splits)
  then obtain j where j: "i = length w + j" by (auto simp: le_iff_add)
  show "(w @ CHR '' '' # s) ! i = CHR '' ''" "\<not> py_isspace ((w @ CHR '' '' # s) ! Suc i)"
    using assms(2) i sp unfolding j
    by (cases j; auto simp: single_spaced_def nth_append hd_conv_nth)+
qed

lemma single_spaced_join: "ws \<noteq> [] \<Longrightarrow> \<forall>w \<in> set ws. is_word w \<Longrightarrow> single_spaced (py_join '' '' ws)"
  by (induction "'' ''" ws rule: py_join.induct) (simp_all add: single_spaced_word single_spaced_append)

lemma normalize_space_single:
  "normalize_space s \<noteq> [] \<Longrightarrow> single_spaced (normalize_space s)"
  unfolding normalize_space_def
  by (rule single_spaced_join) (auto simp: py_split_words)

lemma single_spaced_after:
  assumes "single_spaced s" "i < length s" "s ! i = CHR '' ''"
  shows "Suc i < length s" "\<not> py_isspace (s ! Suc i)"
proof -
  show "Suc i < length s"
  proof (rule ccontr)
    assume "\<not> Suc i < length s"
    with assms(2) have "i = length s - 1" by linarith
    moreover have "s \<noteq> []" using assms(1) by (simp add: single_spaced_def)
    ultimately have "last s = s ! i" using last_conv_nth [of s] by simp
    moreover have "\<not> py_isspace (last s)" using assms(1) by (simp add: single_spaced_def)
    ultimately show False using assms(3) space_is_space by simp
  qed
  with assms(1) have "py_isspace (s ! i) \<longrightarrow> \<not> py_isspace (s ! Suc i)"
    unfolding single_spaced_def by blast
  with assms(3) space_is_space show "\<not> py_isspace (s ! Suc i)" by simp
qed

lemma py_strip_nonempty: "c \<in> set s \<Longrightarrow> \<not> py_isspace c \<Longrightarrow> py_strip s \<noteq> []"
proof
  assume c: "c \<in> set s" "\<not> py_isspace c" and "py_strip s = []"
  then have "\<forall>x \<in> set (rev (dropWhile py_isspace s)). py_isspace x"
    by (simp add: py_strip_def strip_with_def dropWhile_eq_Nil_conv)
  moreover have "c \<in> set (dropWhile py_isspace s)"
    using c by (metis UnE set_append set_takeWhileD takeWhile_dropWhile_id)
  ultimately show False using c by simp
qed

section \<open>Properties\<close>

text \<open>The spans the loop cuts the text into, from a start on.\<close>

definition tiles :: "string \<Rightarrow> nat \<Rightarrow> nat \<Rightarrow> (nat \<times> nat) list \<Rightarrow> bool" where
  "tiles s target_size start spans \<longleftrightarrow>
     (\<forall>(a, b) \<in> set spans. a < b \<and> b \<le> length s \<and> b \<le> a + target_size \<and> \<not> py_isspace (s ! a)) \<and>
     (\<forall>i. start \<le> i \<and> i < length s \<longrightarrow> (\<exists>(a, b) \<in> set spans. a \<le> i \<and> i < b))"

definition cut :: "string \<Rightarrow> (nat \<times> nat) list \<Rightarrow> string list" where
  "cut s spans = map (\<lambda>(a, b). py_strip (slice s a b)) spans"

lemma chunk_loop_tiles:
  assumes "overlap < target_size div 2" and single: "single_spaced s" and "0 < overlap"
  shows "start < length s \<longrightarrow> \<not> py_isspace (s ! start) \<longrightarrow>
    (\<exists>spans. chunk_loop s target_size overlap start chunks = Some (chunks @ cut s spans) \<and>
       tiles s target_size start spans)"
  using assms(1)
proof (induction rule: chunk_loop_induct [where s = s])
  case (End start chunks)
  then show ?case by simp
next
  case (Last start chunks)
  show ?case
  proof (intro impI exI conjI)
    show "Some (chunks @ [py_strip (slice s start (length s))]) = Some (chunks @ cut s [(start, length s)])"
      by (simp add: cut_def)
    assume "\<not> py_isspace (s ! start)"
    with Last chunk_end_bounds(2) [of start s target_size] assms
    show "tiles s target_size start [(start, length s)]" by (simp add: tiles_def)
  qed
next
  case (Step start chunks r)
  let ?stop = "chunk_end s target_size start"
  let ?next = "next_start s overlap ?stop"
  note bounds = chunk_end_bounds [OF Step(1), of target_size]
  have stop: "?stop < length s" "start < ?stop" using bounds Step(2) assms(1) by linarith+
  have "?next < length s" using chunk_progress(2) [OF Step(1,2) assms(1)] .
  moreover have "\<not> py_isspace (s ! ?next)"
  proof (cases "find_space s (?stop - overlap) ?stop")
    case None
    then have "spaces_between s (?stop - overlap) ?stop = []"
      by (simp add: find_space_def split: list.splits)
    then have "?stop - overlap \<notin> set (spaces_between s (?stop - overlap) ?stop)" by simp
    then have "s ! (?stop - overlap) \<noteq> CHR '' ''"
      using stop assms(3) unfolding spaces_between_props by auto
    moreover have "?next = ?stop - overlap" using None by (simp add: next_start_def)
    moreover have "Suc (?stop - overlap) < length s" using stop assms(3) by linarith
    ultimately show ?thesis using single by (auto simp: single_spaced_def)
  next
    case (Some i)
    with single_spaced_after(2) [OF single, of i] find_space_Some [OF Some]
    show ?thesis by (simp add: next_start_def)
  qed
  ultimately obtain spans where
    spans: "r = Some ((chunks @ [py_strip (slice s start ?stop)]) @ cut s spans)" "tiles s target_size ?next spans"
    using Step(3) by blast
  show ?case
  proof (intro impI exI conjI)
    show "r = Some (chunks @ cut s ((start, ?stop) # spans))" using spans(1) by (simp add: cut_def)
    assume "\<not> py_isspace (s ! start)"
    moreover have "?next \<le> ?stop" using next_start_bounds(2) [OF bounds(3)] assms(1) by simp
    moreover have "\<exists>(a, b) \<in> set ((start, ?stop) # spans). a \<le> i \<and> i < b"
      if "start \<le> i" "i < length s" for i
    proof (cases "i < ?stop")
      case False
      with \<open>?next \<le> ?stop\<close> have "?next \<le> i" by simp
      with that spans(2) show ?thesis unfolding tiles_def by auto
    qed (use that in auto)
    moreover have "?stop \<le> start + target_size" using bounds(2) assms(1) by simp
    ultimately show "tiles s target_size start ((start, ?stop) # spans)"
      using spans(2) stop unfolding tiles_def by auto
  qed
qed

lemma strip_take_length: "length (py_strip s) \<le> length s"
proof -
  have "length (dropWhile p xs) \<le> length xs" for p and xs :: string by (induction xs) simp_all
  from this [of py_isspace "rev (dropWhile py_isspace s)"] this [of py_isspace s]
  show ?thesis by (simp add: py_strip_def strip_with_def)
qed

lemma tile_chunk:
  assumes "tiles s target_size start spans" and "c \<in> set (cut s spans)"
  shows "c \<noteq> [] \<and> length c \<le> target_size"
proof -
  from assms obtain a b where ab: "c = py_strip (slice s a b)" "a < b" "b \<le> length s" "b \<le> a + target_size"
    "\<not> py_isspace (s ! a)" by (force simp: tiles_def cut_def)
  then have "s ! a \<in> set (slice s a b)"
    by (auto simp: slice_def in_set_conv_nth intro!: exI [where x = 0])
  with ab have "c \<noteq> []" by (simp add: py_strip_nonempty)
  moreover have "length c \<le> target_size"
    using ab strip_take_length [of "slice s a b"] by (simp add: slice_def)
  ultimately show ?thesis by blast
qed

lemma chunk_text_tiles:
  assumes "200 \<le> target_size" and "0 < overlap" and "overlap < target_size div 2"
  shows "\<exists>chunks spans. chunk_text text1 target_size overlap = Some (Inr chunks) \<and>
    chunks = cut (normalize_space text1) spans \<and> tiles (normalize_space text1) (nat target_size) 0 spans"
proof -
  let ?s = "normalize_space text1"
  have o: "nat overlap < nat target_size div 2" using assms by linarith
  show ?thesis
  proof (cases "?s = []")
    case True
    then show ?thesis by (intro exI [where x = "[]"]) (simp add: chunk_text_def cut_def tiles_def)
  next
    case False
    note single = normalize_space_single [OF this]
    then have hd: "\<not> py_isspace (?s ! 0)" using False by (simp add: single_spaced_def hd_conv_nth)
    show ?thesis
    proof (cases "int (length ?s) \<le> target_size")
      case True
      have "py_strip ?s = ?s"
        using single by (simp add: single_spaced_def py_strip_def strip_with_def)
          (metis dropWhile_eq_self_iff hd_rev rev_rev_ident)
      moreover have "0 < length ?s" using False by simp
      moreover have "\<not> target_size \<le> overlap" using assms by linarith
      moreover have "length ?s \<le> nat target_size" using True by linarith
      ultimately show ?thesis using True False hd assms
        by (intro exI [where x = "[?s]"] exI [where x = "[(0, length ?s)]"])
          (simp add: chunk_text_def Let_def cut_def slice_def tiles_def)
    next
      case long: False
      have "0 < nat overlap" "0 < length ?s" using assms False by simp_all
      with chunk_loop_tiles [OF o single, of 0 "[]"] hd obtain spans where
        "chunk_loop ?s (nat target_size) (nat overlap) 0 [] = Some (cut ?s spans)"
        "tiles ?s (nat target_size) 0 spans" by auto
      with long False assms show ?thesis by (auto simp: chunk_text_def Let_def)
    qed
  qed
qed

text \<open>
  C24. With an overlap above zero and below half the target size, \<open>chunk_text\<close> returns: chunks that
  are never empty nor longer than the target size, cut from spans of the normalized text that
  together cover all of it.
\<close>

theorem chunk_text_covers:
  assumes "200 \<le> target_size" and "0 < overlap" and "overlap < target_size div 2"
  shows "\<exists>chunks spans. chunk_text text1 target_size overlap = Some (Inr chunks) \<and>
    chunks = cut (normalize_space text1) spans \<and>
    tiles (normalize_space text1) (nat target_size) 0 spans \<and>
    (\<forall>c \<in> set chunks. c \<noteq> [] \<and> int (length c) \<le> target_size)"
proof -
  let ?s = "normalize_space text1"
  from chunk_text_tiles [OF assms, of text1] obtain chunks spans where r: "chunk_text text1 target_size overlap = Some (Inr chunks)"
    "chunks = cut ?s spans" "tiles ?s (nat target_size) 0 spans" by blast
  from tile_chunk [OF r(3)] have "\<forall>c \<in> set chunks. c \<noteq> [] \<and> length c \<le> nat target_size"
    unfolding r(2) by blast
  with assms have "\<forall>c \<in> set chunks. c \<noteq> [] \<and> int (length c) \<le> target_size" by (auto simp: le_nat_iff)
  with r show ?thesis by blast
qed

lemma chunk_text_covers_witness:
  "\<exists>chunks spans. chunk_text ''a b'' 850 100 = Some (Inr chunks) \<and>
    chunks = cut (normalize_space ''a b'') spans \<and>
    tiles (normalize_space ''a b'') (nat 850) 0 spans \<and>
    (\<forall>c \<in> set chunks. c \<noteq> [] \<and> int (length c) \<le> 850)"
  by (rule chunk_text_covers) simp_all

text \<open>A text with one space, at 100, and the accepted sizes 200 and 150.\<close>

definition stuck_text :: string where
  "stuck_text = replicate 100 CHR ''a'' @ '' '' @ replicate 300 CHR ''a''"

lemma stuck_nth: "i < length stuck_text \<Longrightarrow> stuck_text ! i = CHR '' '' \<longleftrightarrow> i = 100"
  by (auto simp: stuck_text_def nth_append nth_Cons')

lemma stuck_length: "length stuck_text = 401"
  by (simp add: stuck_text_def)

lemma stuck_spaces: "set (spaces_between stuck_text lo hi) = {i. i = 100 \<and> lo \<le> i \<and> i < hi}"
  using stuck_nth by (auto simp: spaces_between_props stuck_length)

lemma stuck_end: "chunk_end stuck_text 200 0 = 100"
proof -
  have "100 \<in> set (spaces_between stuck_text 100 201)" unfolding stuck_spaces by simp
  then obtain i where i: "rfind_space stuck_text 100 201 = Some i"
    by (cases "spaces_between stuck_text 100 201") (simp_all add: rfind_space_def)
  with rfind_space_Some [OF i] stuck_nth [of i] have "i = 100" by simp
  with i show ?thesis by (simp add: chunk_end_def stuck_length)
qed

lemma stuck_next: "next_start stuck_text 150 100 = 0"
proof -
  have "set (spaces_between stuck_text 0 100) = {}" unfolding stuck_spaces by simp
  then show ?thesis by (simp add: next_start_def find_space_def)
qed

lemma stuck_loop: "chunk_loop stuck_text 200 150 0 chunks = None"
proof -
  have no: "s = stuck_text \<and> t = 200 \<and> v = 150 \<and> start = 0 \<longrightarrow> False"
    if "chunk_loop s t v start cs = Some r" for s t v start cs r
    by (rule chunk_loop.raw_induct [OF _ that], clarify)
      (fastforce simp: Let_def stuck_length stuck_end stuck_next)
  show ?thesis using no [of stuck_text 200 150 0 chunks]
    by (cases "chunk_loop stuck_text 200 150 0 chunks") auto
qed

lemma split_acc_word: "\<forall>c \<in> set u. \<not> py_isspace c \<Longrightarrow> split_acc w (u @ v) = split_acc (w @ u) v"
  by (induction u arbitrary: w) simp_all

lemma normalize_two_words:
  assumes "is_word u" "is_word v"
  shows "normalize_space (u @ CHR '' '' # v) = u @ CHR '' '' # v"
proof -
  have "py_split (u @ CHR '' '' # v) = [u, v]"
    using assms split_acc_word [of u "[]" "CHR '' '' # v"] split_acc_word [of v "[]" "[]"] space_is_space
    by (simp add: py_split_def is_word_def)
  then show ?thesis by (simp add: normalize_space_def)
qed

text \<open>
  The check of the sizes admits calls that never return: with a target size of 200 and an
  overlap of 150, a text whose only space lies 100 characters in makes the loop restart at 0 for
  ever. The program itself only calls \<open>chunk_text\<close> with its defaults.
\<close>

theorem chunk_text_may_diverge: "chunk_text stuck_text 200 150 = None"
proof -
  have "\<not> py_isspace CHR ''a''" by code_simp
  then have "is_word (replicate 100 CHR ''a'')" "is_word (replicate 300 CHR ''a'')"
    by (auto simp: is_word_def)
  from normalize_two_words [OF this] have "normalize_space stuck_text = stuck_text"
    by (simp add: stuck_text_def)
  moreover have "stuck_text \<noteq> []" by (simp add: stuck_text_def)
  ultimately show ?thesis by (simp add: chunk_text_def stuck_length stuck_loop)
qed

end
