(* ===== verification/Iso_Format.thy ===== *)
theory Iso_Format
  imports Iso_Datetime
begin

text \<open>
  \<open>datetime.isoformat\<close>, and that \<open>fromisoformat\<close> reads back what it writes; adding a
  \<open>timedelta\<close> to a datetime.
\<close>

section \<open>Writing\<close>

definition digit_char :: "nat \<Rightarrow> char" where
  "digit_char n = char_of (48 + n mod 10)"

fun padded :: "nat \<Rightarrow> nat \<Rightarrow> string" where
  "padded 0 n = []"
| "padded (Suc w) n = padded w (n div 10) @ [digit_char n]"

definition iso_fraction :: "nat \<Rightarrow> string" where
  "iso_fraction us = (if us = 0 then [] else ''.'' @ padded 6 us)"

definition iso_offset :: "int \<Rightarrow> string" where
  "iso_offset off =
     (let n = nat \<bar>off\<bar>; us = n mod 1000000; s = n div 1000000 in
      (if off < 0 then ''-'' else ''+'') @ padded 2 (s div 3600) @ '':'' @ padded 2 (s div 60 mod 60) @
      (if s mod 60 \<noteq> 0 \<or> us \<noteq> 0 then '':'' @ padded 2 (s mod 60) @ iso_fraction us else []))"

definition isoformat :: "datetime \<Rightarrow> string" where
  "isoformat t =
     padded 4 (year t) @ ''-'' @ padded 2 (month t) @ ''-'' @ padded 2 (day t) @ ''T'' @
     padded 2 (hour t) @ '':'' @ padded 2 (minute t) @ '':'' @ padded 2 (second t) @
     iso_fraction (microsecond t) @
     (case utcoffset t of None \<Rightarrow> [] | Some off \<Rightarrow> iso_offset off)"

section \<open>Reading back\<close>

text \<open>The bytes of a decimal digit, and the number two or six of them denote.\<close>

definition digits2 :: "nat \<Rightarrow> nat list" where
  "digits2 n = [48 + n div 10, 48 + n mod 10]"

definition digits6 :: "nat \<Rightarrow> nat list" where
  "digits6 n = [48 + n div 100000 mod 10, 48 + n div 10000 mod 10, 48 + n div 1000 mod 10,
     48 + n div 100 mod 10, 48 + n div 10 mod 10, 48 + n mod 10]"

definition digits4 :: "nat \<Rightarrow> nat list" where
  "digits4 n = [48 + n div 1000, 48 + n div 100 mod 10, 48 + n div 10 mod 10, 48 + n mod 10]"

lemma code_point_digit: "code_point (digit_char n) = 48 + n mod 10"
  by (simp add: code_point_def digit_char_def)

lemma utf8_append [simp]: "utf8_bytes (s @ t) = utf8_bytes s @ utf8_bytes t"
  by (simp add: utf8_bytes_def)

lemma utf8_Nil [simp]: "utf8_bytes [] = []"
  by (simp add: utf8_bytes_def)

lemma utf8_Cons: "utf8_bytes (c # s) =
    (if code_point c < 128 then [code_point c]
     else [192 + code_point c div 64, 128 + code_point c mod 64]) @ utf8_bytes s"
  by (simp add: utf8_bytes_def Let_def)

lemma utf8_digit: "utf8_bytes (digit_char n # s) = (48 + n mod 10) # utf8_bytes s"
proof -
  have "n mod 10 < 80" by (rule less_trans [of _ 10]) simp_all
  then show ?thesis by (simp add: utf8_Cons code_point_digit)
qed

lemma utf8_marks:
  "utf8_bytes (CHR ''-'' # s) = 45 # utf8_bytes s" "utf8_bytes (CHR ''+'' # s) = 43 # utf8_bytes s"
  "utf8_bytes (CHR '':'' # s) = 58 # utf8_bytes s" "utf8_bytes (CHR ''T'' # s) = 84 # utf8_bytes s"
  "utf8_bytes (CHR ''.'' # s) = 46 # utf8_bytes s"
  by (simp_all add: utf8_Cons code_point_def)

lemma padded_numeral: "padded (numeral k) n = padded (pred_numeral k) (n div 10) @ [digit_char n]"
  unfolding numeral_eq_Suc [of k] by (rule padded.simps(2))

lemma utf8_padded:
  "n < 100 \<Longrightarrow> utf8_bytes (padded 2 n) = digits2 n"
  "n < 10000 \<Longrightarrow> utf8_bytes (padded 4 n) = digits4 n"
  "n < 1000000 \<Longrightarrow> utf8_bytes (padded 6 n) = digits6 n"
  by (simp_all add: padded_numeral utf8_digit digits2_def digits4_def digits6_def
      div_mult2_eq [symmetric])

text \<open>Reading inside a longer string is reading its tail.\<close>

lemma peek_shift: "peek s (n + p) = peek (drop n s) p"
  by (auto simp: peek_def)

lemma parse_digits_shift:
  "parse_digits s (n + p) k v = map_option (\<lambda>(v, q). (v, n + q)) (parse_digits (drop n s) p k v)"
proof (induction k arbitrary: p v)
  case (Suc k)
  show ?case using Suc.IH [of "Suc p"] by (simp add: peek_shift)
qed simp

lemma digit_run_end_shift: "digit_run_end s (n + p) = n + digit_run_end (drop n s) p"
  by (simp add: digit_run_end_def add.commute)

lemma hms_loop_shift:
  "hms_loop s (n + stop) k b vals (n + p) =
     map_option (\<lambda>(vs, r). (vs, map_sum id ((+) n) r)) (hms_loop (drop n s) stop k b vals p)"
proof (induction k arbitrary: b vals p)
  case (Suc k)
  show ?case
  proof (cases "parse_digits (drop n s) p 2 0")
    case None
    then show ?thesis using parse_digits_shift [of s n p 2 0] by simp
  next
    case (Some vq)
    obtain v q where vq: "vq = (v, q)" by (cases vq)
    have "parse_digits s (n + p) 2 0 = Some (v, n + q)"
      using Some vq parse_digits_shift [of s n p 2 0] by simp
    moreover have "peek s (n + q) = peek (drop n s) q" by (rule peek_shift)
    ultimately show ?thesis
      using Some vq Suc.IH [of _ _ "q + 1"] Suc.IH [of _ _ q]
      by (simp add: Let_def add.assoc del: parse_digits_numeral)
  qed
qed simp

lemma parse_hms_shift: "parse_hms s (n + p) (n + stop) = parse_hms (drop n s) p stop"
  unfolding parse_hms_def hms_loop_shift
  by (auto simp: Let_def parse_digits_shift digit_run_end_shift peek_shift
      simp del: parse_digits_numeral hms_loop_numeral split: option.splits prod.splits sum.splits)

lemmas hms_read_simps = parse_hms_def peek_def is_digit_byte_def digit_run_end_def component_def
  Let_def nth_append digits2_def digits6_def

lemma digits2_bytes:
  assumes "n < 100"
  obtains a b where "digits2 n = [48 + a, 48 + b]" "a < 10" "b < 10" "10 * a + b = n"
proof
  show "digits2 n = [48 + n div 10, 48 + n mod 10]" by (simp add: digits2_def)
  show "n div 10 < 10" using assms by (simp add: less_mult_imp_div_less)
qed simp_all

lemma digits6_bytes:
  assumes "n < 1000000"
  obtains a b c d e f where "digits6 n = [48 + a, 48 + b, 48 + c, 48 + d, 48 + e, 48 + f]"
    "a < 10" "b < 10" "c < 10" "d < 10" "e < 10" "f < 10"
    "10 * (10 * (10 * (10 * (10 * a + b) + c) + d) + e) + f = n"
proof
  show "digits6 n = [48 + n div 100000 mod 10, 48 + n div 10000 mod 10, 48 + n div 1000 mod 10,
     48 + n div 100 mod 10, 48 + n div 10 mod 10, 48 + n mod 10]" by (simp add: digits6_def)
  have "10 * (m div 10) + m mod 10 = m" for m :: nat by simp
  from this [of n] this [of "n div 10"] this [of "n div 100"] this [of "n div 1000"] this [of "n div 10000"]
    this [of "n div 100000"] assms
  show "10 * (10 * (10 * (10 * (10 * (n div 100000 mod 10) + n div 10000 mod 10) + n div 1000 mod 10) +
      n div 100 mod 10) + n div 10 mod 10) + n mod 10 = n"
    by (simp add: div_mult2_eq [symmetric])
qed simp_all

text \<open>\<open>r\<close> is what follows: nothing, or a byte that is no digit.\<close>

definition ends_digits :: "bytes \<Rightarrow> bool" where
  "ends_digits r \<longleftrightarrow> r = [] \<or> \<not> is_digit_byte (hd r)"

lemma read_hm:
  assumes "h < 100" "m < 100"
  shows "parse_hms (digits2 h @ 58 # digits2 m) 0 5 = Some (h, m, 0, 0, False)"
proof -
  from assms(1) obtain a b where 1: "digits2 h = [48 + a, 48 + b]" "a < 10" "b < 10" "10 * a + b = h"
    by (rule digits2_bytes)
  from assms(2) obtain c d where 2: "digits2 m = [48 + c, 48 + d]" "c < 10" "d < 10" "10 * c + d = m"
    by (rule digits2_bytes)
  from 1(2-) 2(2-) show ?thesis unfolding 1(1) 2(1) by (simp add: hms_read_simps)
qed

lemma read_hms:
  assumes "h < 100" "m < 100" "s < 100"
  shows "parse_hms (digits2 h @ 58 # digits2 m @ 58 # digits2 s @ r) 0 8 =
    Some (h, m, s, 0, r \<noteq> [] \<and> hd r \<noteq> 0)"
proof -
  from assms(1) obtain a b where 1: "digits2 h = [48 + a, 48 + b]" "a < 10" "b < 10" "10 * a + b = h"
    by (rule digits2_bytes)
  from assms(2) obtain c d where 2: "digits2 m = [48 + c, 48 + d]" "c < 10" "d < 10" "10 * c + d = m"
    by (rule digits2_bytes)
  from assms(3) obtain e f where 3: "digits2 s = [48 + e, 48 + f]" "e < 10" "f < 10" "10 * e + f = s"
    by (rule digits2_bytes)
  from 1(2-) 2(2-) 3(2-) show ?thesis unfolding 1(1) 2(1) 3(1) by (cases r) (simp_all add: hms_read_simps)
qed

lemma read_hms_fraction:
  assumes "h < 100" "m < 100" "s < 100" "us < 1000000" and r: "ends_digits r"
  shows "parse_hms (digits2 h @ 58 # digits2 m @ 58 # digits2 s @ 46 # digits6 us @ r) 0 15 =
    Some (h, m, s, us, r \<noteq> [] \<and> hd r \<noteq> 0)"
proof -
  from assms(1) obtain a b where 1: "digits2 h = [48 + a, 48 + b]" "a < 10" "b < 10" "10 * a + b = h"
    by (rule digits2_bytes)
  from assms(2) obtain c d where 2: "digits2 m = [48 + c, 48 + d]" "c < 10" "d < 10" "10 * c + d = m"
    by (rule digits2_bytes)
  from assms(3) obtain e f where 3: "digits2 s = [48 + e, 48 + f]" "e < 10" "f < 10" "10 * e + f = s"
    by (rule digits2_bytes)
  from assms(4) obtain u v w x y z where 4: "digits6 us = [48 + u, 48 + v, 48 + w, 48 + x, 48 + y, 48 + z]"
    "u < 10" "v < 10" "w < 10" "x < 10" "y < 10" "z < 10"
    "10 * (10 * (10 * (10 * (10 * u + v) + w) + x) + y) + z = us" by (rule digits6_bytes)
  show ?thesis
  proof (cases r)
    case Nil
    with 1(2-) 2(2-) 3(2-) 4(2-) show ?thesis unfolding 1(1) 2(1) 3(1) 4(1) by (simp add: hms_read_simps)
  next
    case (Cons q r')
    with r have "\<not> (48 \<le> q \<and> q \<le> 57)" by (simp add: ends_digits_def is_digit_byte_def)
    with Cons 1(2-) 2(2-) 3(2-) 4(2-) show ?thesis unfolding 1(1) 2(1) 3(1) 4(1)
      by (auto simp: hms_read_simps)
  qed
qed

text \<open>The two parts of a written datetime that may be missing.\<close>

definition fraction_bytes :: "nat \<Rightarrow> bytes" where
  "fraction_bytes us = (if us = 0 then [] else 46 # digits6 us)"

lemma read_clock:
  assumes "h < 100" "m < 100" "s < 100" "us < 1000000" and "ends_digits r"
  shows "parse_hms (digits2 h @ 58 # digits2 m @ 58 # digits2 s @ fraction_bytes us @ r) 0
      (8 + length (fraction_bytes us)) = Some (h, m, s, us, r \<noteq> [] \<and> hd r \<noteq> 0)"
proof (cases "us = 0")
  case True
  then show ?thesis using read_hms [OF assms(1-3), of r] by (simp add: fraction_bytes_def)
next
  case False
  then show ?thesis using read_hms_fraction [OF assms] by (simp add: fraction_bytes_def digits6_def)
qed

lemma read_clock_tail:
  assumes "h < 100" "m < 100" "s < 100" "us < 1000000"
  defines "bs \<equiv> digits2 h @ 58 # digits2 m @ 58 # digits2 s @ fraction_bytes us"
  shows "parse_hms (tl (sg # bs)) 0 (length (sg # bs) - 1) = Some (h, m, s, us, False)"
proof -
  have "length (sg # bs) - 1 = 8 + length (fraction_bytes us)" by (simp add: bs_def digits2_def)
  moreover have "parse_hms bs 0 (8 + length (fraction_bytes us)) = Some (h, m, s, us, False)"
    using read_clock [OF assms(1-4), of "[]"] by (simp add: bs_def ends_digits_def)
  ultimately show ?thesis by (simp only: list.sel)
qed

lemma read_hm_tail:
  assumes "h < 100" "m < 100"
  defines "bs \<equiv> digits2 h @ 58 # digits2 m"
  shows "parse_hms (tl (sg # bs)) 0 (length (sg # bs) - 1) = Some (h, m, 0, 0, False)"
proof -
  have "length (sg # bs) - 1 = 5" by (simp add: bs_def digits2_def)
  with read_hm [OF assms(1-2)] show ?thesis by (simp only: list.sel bs_def)
qed

definition offset_bytes :: "int \<Rightarrow> bytes" where
  "offset_bytes off =
     (let n = nat \<bar>off\<bar>; us = n mod 1000000; s = n div 1000000 in
      (if off < 0 then 45 else 43) # digits2 (s div 3600) @ 58 # digits2 (s div 60 mod 60) @
      (if s mod 60 \<noteq> 0 \<or> us \<noteq> 0 then 58 # digits2 (s mod 60) @ fraction_bytes us else []))"

text \<open>
  An offset of less than a second other than zero is read as zero by the C implementation, so it
  is excluded.
\<close>

definition whole_offset :: "int option \<Rightarrow> bool" where
  "whole_offset off =
     (case off of None \<Rightarrow> True | Some n \<Rightarrow> \<bar>n\<bar> < 86400000000 \<and> (n = 0 \<or> 1000000 \<le> \<bar>n\<bar>))"

lemma read_offset:
  assumes "\<bar>off\<bar> < 86400000000"
  defines "n \<equiv> nat \<bar>off\<bar>"
  shows "parse_hms (tl (offset_bytes off)) 0 (length (offset_bytes off) - 1) =
    Some (n div 1000000 div 3600, n div 1000000 div 60 mod 60, n div 1000000 mod 60, n mod 1000000, False)"
proof -
  let ?s = "n div 1000000" and ?us = "n mod 1000000"
  have "n < 86400000000" using assms by (simp add: n_def)
  then have "?s < 86400" by (simp add: less_mult_imp_div_less)
  then have h: "?s div 3600 < 100" by (simp add: less_mult_imp_div_less)
  have m: "?s div 60 mod 60 < 100" and s: "?s mod 60 < 100"
    by (rule less_trans [of _ 60]; simp)+
  have us: "?us < 1000000" by simp
  let ?sign = "if off < 0 then 45 else 43 :: nat"
  show ?thesis
  proof (cases "?s mod 60 \<noteq> 0 \<or> ?us \<noteq> 0")
    case True
    then have eq: "offset_bytes off = ?sign # digits2 (?s div 3600) @ 58 # digits2 (?s div 60 mod 60) @ 58 #
        digits2 (?s mod 60) @ fraction_bytes ?us"
      unfolding offset_bytes_def n_def Let_def by (simp only: if_True append_Cons append.assoc)
    show ?thesis unfolding eq by (rule read_clock_tail [OF h m s us])
  next
    case False
    then have eq: "offset_bytes off = ?sign # digits2 (?s div 3600) @ 58 # digits2 (?s div 60 mod 60)"
      unfolding offset_bytes_def n_def Let_def by (simp only: if_False append_Nil2)
    from False have "?s mod 60 = 0" "?us = 0" by blast+
    then show ?thesis using read_hm_tail [OF h m] unfolding eq by (simp only:)
  qed
qed

text \<open>The bytes of a written datetime.\<close>

lemma utf8_fraction: "us < 1000000 \<Longrightarrow> utf8_bytes (iso_fraction us) = fraction_bytes us"
  by (simp add: iso_fraction_def fraction_bytes_def utf8_padded utf8_Cons code_point_def)

lemma utf8_offset:
  assumes "\<bar>off\<bar> < 86400000000"
  shows "utf8_bytes (iso_offset off) = offset_bytes off"
proof -
  define n where "n = nat \<bar>off\<bar>"
  let ?s = "n div 1000000"
  have "n < 86400000000" using assms by (simp add: n_def)
  then have "?s < 86400" by (simp add: less_mult_imp_div_less)
  then have h: "?s div 3600 < 100" by (simp add: less_mult_imp_div_less)
  have m: "?s div 60 mod 60 < 100" and s: "?s mod 60 < 100"
    by (rule less_trans [of _ 60]; simp)+
  have us: "n mod 1000000 < 1000000" by simp
  show ?thesis
    unfolding iso_offset_def offset_bytes_def Let_def n_def [symmetric]
    by (simp only: utf8_append utf8_marks utf8_padded(1) [OF h] utf8_padded(1) [OF m] utf8_padded(1) [OF s]
        utf8_fraction [OF us] utf8_Nil append_Cons append_Nil split: if_split) simp
qed

definition datetime_bytes :: "datetime \<Rightarrow> bytes" where
  "datetime_bytes t =
     digits4 (year t) @ 45 # digits2 (month t) @ 45 # digits2 (day t) @ 84 # digits2 (hour t) @ 58 #
     digits2 (minute t) @ 58 # digits2 (second t) @ fraction_bytes (microsecond t) @
     (case utcoffset t of None \<Rightarrow> [] | Some off \<Rightarrow> offset_bytes off)"

lemma valid_bounds:
  assumes "valid_datetime t"
  shows "year t < 10000" "month t < 100" "day t < 100" "hour t < 100" "minute t < 100" "second t < 100"
    "microsecond t < 1000000" "1 \<le> year t"
proof -
  have "days_in_month y m \<le> 31" for y m by (simp add: days_in_month_def)
  from this [of "year t" "month t"] assms
  show "year t < 10000" "month t < 100" "day t < 100" "hour t < 100" "minute t < 100" "second t < 100"
    "microsecond t < 1000000" "1 \<le> year t"
    by (auto simp: valid_datetime_def valid_ymd_def)
qed

lemma utf8_isoformat:
  assumes "valid_datetime t" and "whole_offset (utcoffset t)"
  shows "utf8_bytes (isoformat t) = datetime_bytes t"
proof -
  have "utf8_bytes (case utcoffset t of None \<Rightarrow> [] | Some off \<Rightarrow> iso_offset off) =
      (case utcoffset t of None \<Rightarrow> [] | Some off \<Rightarrow> offset_bytes off)"
    using assms(2) by (cases "utcoffset t") (simp_all add: utf8_offset whole_offset_def)
  then show ?thesis
    unfolding isoformat_def datetime_bytes_def
    by (simp only: utf8_append utf8_marks utf8_padded utf8_fraction valid_bounds [OF assms(1)]
        append_Cons append_Nil)
qed

lemma digits4_bytes:
  assumes "n < 10000"
  obtains a b c d where "digits4 n = [48 + a, 48 + b, 48 + c, 48 + d]" "a < 10" "b < 10" "c < 10" "d < 10"
    "10 * (10 * (10 * a + b) + c) + d = n"
proof
  show "digits4 n = [48 + n div 1000, 48 + n div 100 mod 10, 48 + n div 10 mod 10, 48 + n mod 10]"
    by (simp add: digits4_def)
  show "n div 1000 < 10" using assms by (simp add: less_mult_imp_div_less)
  have "10 * (m div 10) + m mod 10 = m" for m :: nat by simp
  from this [of n] this [of "n div 10"] this [of "n div 100"]
  show "10 * (10 * (10 * (n div 1000) + n div 100 mod 10) + n div 10 mod 10) + n mod 10 = n"
    by (simp add: div_mult2_eq [symmetric])
qed simp_all

lemma read_date:
  fixes r :: bytes
  assumes "y < 10000" "m < 100" "d < 100"
  defines "bs \<equiv> digits4 y @ 45 # digits2 m @ 45 # digits2 d @ 84 # r"
  shows "parse_iso_date bs 10 = Some (y, m, d)"
    and "10 < length bs \<Longrightarrow> separator_location bs = Some 10"
    and "peek bs 10 = 84" and "drop 11 bs = r" and "length bs = 11 + length r"
proof -
  from assms(1) obtain a b c e where 1: "digits4 y = [48 + a, 48 + b, 48 + c, 48 + e]" "a < 10" "b < 10"
    "c < 10" "e < 10" "10 * (10 * (10 * a + b) + c) + e = y" by (rule digits4_bytes)
  from assms(2) obtain f g where 2: "digits2 m = [48 + f, 48 + g]" "f < 10" "g < 10" "10 * f + g = m"
    by (rule digits2_bytes)
  from assms(3) obtain h i where 3: "digits2 d = [48 + h, 48 + i]" "h < 10" "i < 10" "10 * h + i = d"
    by (rule digits2_bytes)
  show "parse_iso_date bs 10 = Some (y, m, d)"
    using 1(2-) 2(2-) 3(2-) unfolding bs_def 1(1) 2(1) 3(1)
    by (simp add: parse_iso_date_def peek_def is_digit_byte_def Let_def)
  show "10 < length bs \<Longrightarrow> separator_location bs = Some 10"
    using 2(2-) unfolding bs_def 1(1) 2(1) 3(1) by (simp add: separator_location_def peek_def Let_def)
  show "peek bs 10 = 84" "drop 11 bs = r" "length bs = 11 + length r"
    unfolding bs_def 1(1) 2(1) 3(1) by (simp_all add: peek_def)
qed

text \<open>The clock stops before a sign; digits, colons and the point are none.\<close>

lemma no_sign_in_clock:
  assumes "h < 100" "m < 100" "s < 100" "us < 1000000"
  shows "\<forall>c \<in> set (digits2 h @ 58 # digits2 m @ 58 # digits2 s @ fraction_bytes us). c \<notin> {43, 45, 90}"
proof -
  have "set (digits2 n) \<subseteq> {48..57}" if "n < 100" for n
  proof -
    from that obtain a b where "digits2 n = [48 + a, 48 + b]" "a < 10" "b < 10" by (rule digits2_bytes)
    then show ?thesis by simp
  qed
  with assms have "set (digits2 h) \<subseteq> {48..57}" "set (digits2 m) \<subseteq> {48..57}" "set (digits2 s) \<subseteq> {48..57}"
    by blast+
  moreover from assms(4) obtain a b c d e f where "digits6 us = [48 + a, 48 + b, 48 + c, 48 + d, 48 + e, 48 + f]"
    "a < 10" "b < 10" "c < 10" "d < 10" "e < 10" "f < 10" by (rule digits6_bytes)
  then have "set (fraction_bytes us) \<subseteq> {46} \<union> {48..57}" by (simp add: fraction_bytes_def)
  ultimately show ?thesis by fastforce
qed

lemma offset_bytes_hd: "offset_bytes off \<noteq> [] \<and> hd (offset_bytes off) = (if off < 0 then 45 else 43)"
  by (simp add: offset_bytes_def Let_def)

lemma clock_parts: "s div 3600 * 3600 + s div 60 mod 60 * 60 + s mod 60 = s" for s :: nat
proof -
  have "s div 60 div 60 * 60 + s div 60 mod 60 = s div 60" "s div 60 * 60 + s mod 60 = s"
    by (rule div_mult_mod_eq)+
  moreover have "s div 3600 = s div 60 div 60" by (simp add: div_mult2_eq [symmetric])
  ultimately show ?thesis by linarith
qed

lemma signed_magnitude:
  fixes v :: int
  assumes "a = \<bar>v\<bar>" and "z \<Longrightarrow> v = 0"
  shows "(if z then 0 else (if (if v < 0 then 45 else 43 :: nat) = 45 then -1 else 1) * a) = v"
  using assms by auto

lemma parse_iso_time_offset:
  assumes "tz_position bs p = tz" "tz < length bs" "peek bs tz \<noteq> 90"
    and "parse_hms bs p tz = Some (h, m, s, us, b)"
    and "parse_hms bs (tz + 1) (length bs) = Some (th, tm, ts, tus, False)"
    and "th * 3600 + tm * 60 + ts = secs"
    and "(if secs = 0 then 0 else (if peek bs tz = 45 then -1 else 1) * (int secs * 1000000 + int tus)) = v"
    and "\<bar>v\<bar> < 86400000000"
  shows "parse_iso_time bs p = Some (h, m, s, us, Some v)"
  unfolding parse_iso_time_def Let_def assms(1,4,5) option.case prod.case assms(6,7)
  using assms(2,3,8) by simp

lemma drop_prefix: "length xs = k \<Longrightarrow> drop k (xs @ ys) = ys"
  by auto

lemma read_time:
  assumes clock: "h < 100" "m < 100" "s < 100" "us < 1000000" and off: "whole_offset off"
    and bs: "drop 11 bs = digits2 h @ 58 # digits2 m @ 58 # digits2 s @ fraction_bytes us @
      (case off of None \<Rightarrow> [] | Some n \<Rightarrow> offset_bytes n)"
    and len: "length bs = 11 + length (drop 11 bs)"
  shows "parse_iso_time bs 11 = Some (h, m, s, us, off)"
proof -
  let ?r = "case off of None \<Rightarrow> [] | Some n \<Rightarrow> offset_bytes n"
  let ?clock = "digits2 h @ 58 # digits2 m @ 58 # digits2 s @ fraction_bytes us"
  let ?n = "8 + length (fraction_bytes us)"
  have n: "length ?clock = ?n" by (simp add: digits2_def)
  have stop: "?r = [] \<or> hd ?r \<in> {43, 45, 90}"
    using offset_bytes_hd by (cases off) auto
  have drop: "drop 11 bs = ?clock @ ?r" using bs by simp
  have "takeWhile (\<lambda>c. c \<notin> {43, 45, 90}) (?clock @ ?r) = ?clock"
  proof -
    have "takeWhile (\<lambda>c. c \<notin> {43, 45, 90}) ?r = []" using stop by (cases ?r) auto
    moreover have "takeWhile (\<lambda>c. c \<notin> {43, 45, 90}) (?clock @ ?r) =
        ?clock @ takeWhile (\<lambda>c. c \<notin> {43, 45, 90}) ?r"
      by (rule takeWhile_append2) (use no_sign_in_clock [OF clock] in blast)
    ultimately show ?thesis by (simp only: append_Nil2)
  qed
  then have tz: "tz_position bs 11 = 11 + ?n" unfolding tz_position_def drop by (simp only: n)
  have "ends_digits ?r"
    using offset_bytes_hd by (cases off) (auto simp: ends_digits_def is_digit_byte_def)
  from read_clock [OF clock this]
  have first: "parse_hms bs 11 (11 + ?n) = Some (h, m, s, us, ?r \<noteq> [] \<and> hd ?r \<noteq> 0)"
    using parse_hms_shift [of bs 11 0 ?n] unfolding bs by simp
  have total: "length bs = 11 + ?n + length ?r" using len n unfolding drop by simp
  show ?thesis
  proof (cases off)
    case None
    with first total show ?thesis unfolding parse_iso_time_def Let_def tz by simp
  next
    case (Some v)
    have v: "\<bar>v\<bar> < 86400000000" "v = 0 \<or> 1000000 \<le> \<bar>v\<bar>" using off Some by (auto simp: whole_offset_def)
    let ?k = "nat \<bar>v\<bar>"
    have rest: "drop (11 + ?n) bs = offset_bytes v"
    proof -
      have "drop (11 + ?n) bs = drop ?n (drop 11 bs)" by simp
      also have "\<dots> = offset_bytes v" unfolding drop drop_prefix [OF n] using Some by simp
      finally show ?thesis .
    qed
    have sign: "peek bs (11 + ?n) = (if v < 0 then 45 else 43)"
      using offset_bytes_hd [of v] peek_shift [of bs "11 + ?n" 0]
      unfolding rest by (simp add: peek_def flip: hd_conv_nth)
    have "drop (11 + ?n + 1) bs = tl (offset_bytes v)"
      using rest by (metis drop_Suc drop_drop plus_1_eq_Suc tl_drop add.commute)
    moreover have "length bs = 11 + ?n + 1 + (length (offset_bytes v) - 1)"
      using total Some offset_bytes_hd [of v] by (cases "offset_bytes v") simp_all
    ultimately have second: "parse_hms bs (11 + ?n + 1) (length bs) =
      Some (?k div 1000000 div 3600, ?k div 1000000 div 60 mod 60, ?k div 1000000 mod 60, ?k mod 1000000, False)"
      using parse_hms_shift [of bs "11 + ?n + 1" 0 "length (offset_bytes v) - 1"] read_offset [OF v(1)] by simp
    let ?secs = "?k div 1000000"
    have secs: "?secs div 3600 * 3600 + ?secs div 60 mod 60 * 60 + ?secs mod 60 = ?secs" by (rule clock_parts)
    have "int (?secs * 1000000 + ?k mod 1000000) = \<bar>v\<bar>" unfolding div_mult_mod_eq by simp
    then have "int ?secs * 1000000 + int (?k mod 1000000) = \<bar>v\<bar>"
      by (simp only: of_nat_add of_nat_mult of_nat_numeral)
    moreover have "?secs = 0 \<Longrightarrow> v = 0" using v(2) by (auto simp: div_eq_0_iff)
    ultimately have off_eq: "(if ?secs = 0 then 0 else (if peek bs (11 + ?n) = 45 then -1 else 1) *
        (int ?secs * 1000000 + int (?k mod 1000000))) = v"
      unfolding sign by (rule signed_magnitude)
    have "11 + ?n < length bs" "peek bs (11 + ?n) \<noteq> 90"
      using total Some offset_bytes_hd [of v] sign by auto
    then show ?thesis unfolding Some
      by (intro parse_iso_time_offset [OF tz _ _ first second secs off_eq v(1)])
  qed
qed

lemma isoformat_read_back:
  assumes "valid_datetime t" and "whole_offset (utcoffset t)"
  shows "datetime_fromisoformat (isoformat t) = Some t"
proof -
  note bounds = valid_bounds [OF assms(1)]
  let ?bs = "datetime_bytes t"
  define r where "r = digits2 (hour t) @ 58 # digits2 (minute t) @ 58 # digits2 (second t) @
    fraction_bytes (microsecond t) @ (case utcoffset t of None \<Rightarrow> [] | Some n \<Rightarrow> offset_bytes n)"
  have bs: "?bs = digits4 (year t) @ 45 # digits2 (month t) @ 45 # digits2 (day t) @ 84 # r"
    by (simp add: datetime_bytes_def r_def)
  note date = read_date [OF bounds(1-3), of r, folded bs]
  have "drop 11 ?bs = r" and "length ?bs = 11 + length (drop 11 ?bs)" using date(4,5) by simp_all
  then have time: "parse_iso_time ?bs 11 =
      Some (hour t, minute t, second t, microsecond t, utcoffset t)"
    unfolding r_def by (intro read_time bounds assms(2))
  have "r \<noteq> []" by (simp add: r_def digits2_def)
  then have long: "10 < length ?bs" using date(5) by (cases r) simp_all
  have "make_datetime (year t) (month t) (day t) (hour t) (minute t) (second t) (microsecond t) (utcoffset t) = Some t"
    using assms(1) by (simp add: make_datetime_def valid_datetime_def)
  then show ?thesis
    using date(1) date(2) [OF long] date(3) time long
    by (simp add: datetime_fromisoformat_def utf8_isoformat [OF assms] separator_width_def Let_def)
qed

end
