(* ===== verification/Index_Store.thy ===== *)
theory Index_Store
  imports Chunking Iso_Format "HOL-Library.Multiset"
begin

text \<open>
  The search index: the tables \<open>workspace_items\<close> and \<open>document_chunks\<close> of \<open>app/db/models.py\<close>,
  the embedding provider of \<open>app/retrieval/embeddings.py\<close> and \<open>WorkspaceIndexer.index_item\<close> of
  \<open>app/retrieval/indexer.py\<close>.

  Parameters: \<open>encode\<close>, the sentence-transformer model, and the clock. \<open>index_item\<close> returns
  \<open>None\<close> only if the chunking did not return, an exception (the caller then rolls the session
  back), or the item's id with the new tables.
\<close>

section \<open>Tables\<close>

record normalized_item =
  ni_service :: string
  ni_external_id :: string
  ni_title :: string
  ni_text :: string
  ni_metadata :: dict
  ni_created :: "datetime option"
  ni_updated :: "datetime option"

record item_row =
  wi_id :: nat
  wi_user :: nat
  wi_service :: string
  wi_external_id :: string
  wi_title :: string
  wi_text :: string
  wi_metadata :: dict
  wi_created :: "datetime option"
  wi_updated :: "datetime option"
  wi_indexed :: datetime
  wi_deleted :: "datetime option"

record chunk_row =
  dc_item :: nat
  dc_user :: nat
  dc_index :: nat
  dc_text :: string
  dc_embedding :: "rat list"

record index_db =
  items :: "item_row list"
  chunks :: "chunk_row list"
  next_item_id :: nat

definition empty_index :: index_db where
  "empty_index = \<lparr>items = [], chunks = [], next_item_id = 0\<rparr>"

definition item_key :: "item_row \<Rightarrow> nat \<times> string \<times> string" where
  "item_key r = (wi_user r, wi_service r, wi_external_id r)"

section \<open>Embeddings\<close>

record embedder =
  emb_dimensions :: nat
  emb_encode :: "string list \<Rightarrow> rat list list"

definition embed_texts :: "embedder \<Rightarrow> string list \<Rightarrow> py_error + rat list list" where
  "embed_texts e texts =
     (if texts = [] \<or> list_ex (\<lambda>t. py_strip t = []) texts
      then Inl (ValueError ''texts must contain non-empty strings'')
      else
        (let vectors = emb_encode e texts in
         if list_ex (\<lambda>v. length v \<noteq> emb_dimensions e) vectors
         then Inl (RuntimeError ''Embedding model dimension does not match configuration'')
         else Inr vectors))"

definition embed_text :: "embedder \<Rightarrow> string \<Rightarrow> py_error + rat list" where
  "embed_text e t =
     (if py_strip t = [] then Inl (ValueError ''text must be a non-empty string'')
      else (case embed_texts e [t] of Inl err \<Rightarrow> Inl err | Inr vs \<Rightarrow> Inr (hd vs)))"

section \<open>Indexing\<close>

text \<open>\<open>INSERT ... ON CONFLICT ON CONSTRAINT uq_workspace_items_user_service_resource DO UPDATE\<close>.\<close>

definition fill_item :: "datetime \<Rightarrow> normalized_item \<Rightarrow> item_row \<Rightarrow> item_row" where
  "fill_item now i r = r\<lparr>wi_title := ni_title i, wi_text := ni_text i, wi_metadata := ni_metadata i,
     wi_created := ni_created i, wi_updated := ni_updated i, wi_indexed := now, wi_deleted := None\<rparr>"

definition has_item_key :: "nat \<Rightarrow> normalized_item \<Rightarrow> item_row \<Rightarrow> bool" where
  "has_item_key user i r \<longleftrightarrow> item_key r = (user, ni_service i, ni_external_id i)"

definition new_item :: "nat \<Rightarrow> nat \<Rightarrow> datetime \<Rightarrow> normalized_item \<Rightarrow> item_row" where
  "new_item ident user now i =
     \<lparr>wi_id = ident, wi_user = user, wi_service = ni_service i, wi_external_id = ni_external_id i,
      wi_title = ni_title i, wi_text = ni_text i, wi_metadata = ni_metadata i,
      wi_created = ni_created i, wi_updated = ni_updated i, wi_indexed = now, wi_deleted = None\<rparr>"

definition upsert_item :: "nat \<Rightarrow> datetime \<Rightarrow> normalized_item \<Rightarrow> index_db \<Rightarrow> nat \<times> index_db" where
  "upsert_item user now i db =
     (case List.find (has_item_key user i) (items db) of
        Some r \<Rightarrow>
          (wi_id r, db\<lparr>items := map (\<lambda>x. if has_item_key user i x then fill_item now i x else x) (items db)\<rparr>)
      | None \<Rightarrow>
          (next_item_id db,
           db\<lparr>items := items db @ [new_item (next_item_id db) user now i],
              next_item_id := Suc (next_item_id db)\<rparr>))"

text \<open>The delete and the bulk insert; \<open>zip(..., strict=True)\<close> raises on different lengths.\<close>

definition replace_chunks ::
  "nat \<Rightarrow> nat \<Rightarrow> string list \<Rightarrow> rat list list \<Rightarrow> index_db \<Rightarrow> py_error + index_db" where
  "replace_chunks user ident texts vectors db =
     (if length texts \<noteq> length vectors
      then Inl (ValueError ''zip() arguments have different lengths'')
      else Inr (db\<lparr>chunks :=
        filter (\<lambda>c. \<not> (dc_item c = ident \<and> dc_user c = user)) (chunks db) @
        map (\<lambda>(k, t, v). \<lparr>dc_item = ident, dc_user = user, dc_index = k, dc_text = t, dc_embedding = v\<rparr>)
          (zip [0 ..< length texts] (zip texts vectors))\<rparr>))"

definition index_item ::
  "embedder \<Rightarrow> nat \<Rightarrow> datetime \<Rightarrow> normalized_item \<Rightarrow> index_db \<Rightarrow> (py_error + nat \<times> index_db) option" where
  "index_item e user now i db =
     (case upsert_item user now i db of (ident, db) \<Rightarrow>
      (case chunk_text (ni_text i) 850 100 of
         None \<Rightarrow> None
       | Some (Inl err) \<Rightarrow> Some (Inl err)
       | Some (Inr texts) \<Rightarrow>
           Some
             (case (if texts = [] then Inr [] else embed_texts e texts) of
                Inl err \<Rightarrow> Inl err
              | Inr vectors \<Rightarrow>
                  (case replace_chunks user ident texts vectors db of
                     Inl err \<Rightarrow> Inl err
                   | Inr db \<Rightarrow> Inr (ident, db)))))"

section \<open>Consistency of the index\<close>

text \<open>
  The unique constraints of both tables, fresh ids, and that every chunk belongs to an item of the
  same user.
\<close>

definition chunk_key :: "chunk_row \<Rightarrow> nat \<times> nat" where
  "chunk_key c = (dc_item c, dc_index c)"

definition index_ok :: "index_db \<Rightarrow> bool" where
  "index_ok db \<longleftrightarrow>
     distinct (map wi_id (items db)) \<and> distinct (map item_key (items db)) \<and>
     (\<forall>r \<in> set (items db). wi_id r < next_item_id db) \<and>
     distinct (map chunk_key (chunks db)) \<and>
     (\<forall>c \<in> set (chunks db). \<exists>r \<in> set (items db). wi_id r = dc_item c \<and> wi_user r = dc_user c)"

lemma fill_item_simps [simp]:
  "item_key (fill_item now i r) = item_key r" "wi_id (fill_item now i r) = wi_id r"
  "wi_user (fill_item now i r) = wi_user r"
  by (simp_all add: fill_item_def item_key_def)

lemma find_Some_in: "List.find P xs = Some x \<Longrightarrow> x \<in> set xs \<and> P x"
  by (induction xs) (auto split: if_splits)

lemma upsert_cases:
  assumes "index_ok db" and "upsert_item user now i db = (ident, db')"
  obtains (Update) r where "r \<in> set (items db)" "item_key r = (user, ni_service i, ni_external_id i)"
      "ident = wi_id r" "next_item_id db' = next_item_id db"
      "items db' = map (\<lambda>x. if x = r then fill_item now i x else x) (items db)" "chunks db' = chunks db"
  | (Insert) "(user, ni_service i, ni_external_id i) \<notin> item_key ` set (items db)"
      "ident = next_item_id db" "next_item_id db' = Suc (next_item_id db)"
      "items db' = items db @ [new_item ident user now i]" "chunks db' = chunks db"
proof (cases "List.find (has_item_key user i) (items db)")
  case (Some r)
  from find_Some_in [OF Some] have r: "r \<in> set (items db)" "has_item_key user i r" by simp_all
  from assms(1) have "inj_on item_key (set (items db))" by (simp add: index_ok_def distinct_map)
  then have "has_item_key user i x \<longleftrightarrow> x = r" if "x \<in> set (items db)" for x
    using that r unfolding has_item_key_def by (metis inj_onD)
  then have upd: "map (\<lambda>x. if has_item_key user i x then fill_item now i x else x) (items db) =
      map (\<lambda>x. if x = r then fill_item now i x else x) (items db)" by simp
  from Some assms(2) have "ident = wi_id r"
    "db' = db\<lparr>items := map (\<lambda>x. if has_item_key user i x then fill_item now i x else x) (items db)\<rparr>"
    by (simp_all add: upsert_item_def)
  with r upd show ?thesis by (intro Update [of r]) (simp_all add: has_item_key_def)
next
  case None
  then have "(user, ni_service i, ni_external_id i) \<notin> item_key ` set (items db)"
    by (auto simp: find_None_iff has_item_key_def)
  with None assms(2) Insert show ?thesis by (auto simp: upsert_item_def)
qed

lemma new_item_simps [simp]:
  "wi_id (new_item ident user now i) = ident" "wi_user (new_item ident user now i) = user"
  "item_key (new_item ident user now i) = (user, ni_service i, ni_external_id i)"
  by (simp_all add: new_item_def item_key_def)

lemma upsert_ok:
  assumes ok: "index_ok db" and up: "upsert_item user now i db = (ident, db')"
  shows "index_ok db'" and "\<exists>r \<in> set (items db'). wi_id r = ident \<and> wi_user r = user"
proof -
  have "index_ok db' \<and> (\<exists>r \<in> set (items db'). wi_id r = ident \<and> wi_user r = user)"
    using ok up
  proof (cases rule: upsert_cases)
    case (Update r)
    let ?f = "\<lambda>x. if x = r then fill_item now i x else x"
    have ids: "map wi_id (items db') = map wi_id (items db)" "map item_key (items db') = map item_key (items db)"
      by (simp_all add: Update)
    have "\<exists>x \<in> set (items db'). wi_id x = dc_item c \<and> wi_user x = dc_user c" if "c \<in> set (chunks db)" for c
    proof -
      from ok that obtain x where "x \<in> set (items db)" "wi_id x = dc_item c" "wi_user x = dc_user c"
        unfolding index_ok_def by blast
      then show ?thesis by (intro bexI [of _ "?f x"]) (auto simp: Update)
    qed
    moreover have "\<forall>x \<in> set (items db'). wi_id x < next_item_id db'"
      using ok unfolding index_ok_def Update by auto
    moreover have "\<exists>x \<in> set (items db'). wi_id x = ident \<and> wi_user x = user"
      using Update(1,2) by (intro bexI [of _ "?f r"]) (auto simp: Update item_key_def)
    ultimately show ?thesis using ok ids unfolding index_ok_def Update(6) by metis
  next
    case Insert
    with ok show ?thesis by (fastforce simp: index_ok_def)
  qed
  then show "index_ok db'" "\<exists>r \<in> set (items db'). wi_id r = ident \<and> wi_user r = user" by blast+
qed

text \<open>The chunks of one item, and of the others.\<close>

definition chunks_of :: "nat \<Rightarrow> index_db \<Rightarrow> chunk_row list" where
  "chunks_of ident db = filter (\<lambda>c. dc_item c = ident) (chunks db)"

lemma replace_chunks_props:
  assumes "replace_chunks user ident texts vectors db = Inr db'"
    and owned: "\<forall>c \<in> set (chunks db). dc_item c = ident \<longrightarrow> dc_user c = user"
  shows "items db' = items db" "next_item_id db' = next_item_id db"
    "map dc_text (chunks_of ident db') = texts" "map dc_embedding (chunks_of ident db') = vectors"
    "map dc_index (chunks_of ident db') = [0 ..< length texts]"
    "\<forall>c \<in> set (chunks_of ident db'). dc_user c = user"
    "filter (\<lambda>c. dc_item c \<noteq> ident) (chunks db') = filter (\<lambda>c. dc_item c \<noteq> ident) (chunks db)"
proof -
  let ?new = "map (\<lambda>(k, t, v). \<lparr>dc_item = ident, dc_user = user, dc_index = k, dc_text = t, dc_embedding = v\<rparr>)
      (zip [0 ..< length texts] (zip texts vectors))"
  from assms(1) have len: "length vectors = length texts"
    and db': "db' = db\<lparr>chunks := filter (\<lambda>c. \<not> (dc_item c = ident \<and> dc_user c = user)) (chunks db) @ ?new\<rparr>"
    by (auto simp: replace_chunks_def split: if_splits)
  have new: "\<forall>c \<in> set ?new. dc_item c = ident \<and> dc_user c = user" by auto
  have old: "filter (\<lambda>c. \<not> (dc_item c = ident \<and> dc_user c = user)) (chunks db) =
      filter (\<lambda>c. dc_item c \<noteq> ident) (chunks db)"
    using owned by (intro filter_cong) auto
  have "filter (\<lambda>c. dc_item c = ident) ?new = ?new" "filter (\<lambda>c. dc_item c \<noteq> ident) ?new = []"
    using new by (auto intro!: filter_True filter_False)
  then have own: "chunks_of ident db' = ?new"
    and rest: "filter (\<lambda>c. dc_item c \<noteq> ident) (chunks db') = filter (\<lambda>c. dc_item c \<noteq> ident) (chunks db)"
    unfolding chunks_of_def db' old by (simp_all add: filter_empty_conv)
  show "items db' = items db" "next_item_id db' = next_item_id db" by (simp_all add: db')
  show "filter (\<lambda>c. dc_item c \<noteq> ident) (chunks db') = filter (\<lambda>c. dc_item c \<noteq> ident) (chunks db)" by (rule rest)
  show "map dc_text (chunks_of ident db') = texts" "map dc_embedding (chunks_of ident db') = vectors"
    "map dc_index (chunks_of ident db') = [0 ..< length texts]"
    using len unfolding own by (auto intro!: nth_equalityI)
  show "\<forall>c \<in> set (chunks_of ident db'). dc_user c = user" using new unfolding own by blast
qed

lemma index_owner:
  assumes "index_ok db" and "\<exists>x \<in> set (items db). wi_id x = ident \<and> wi_user x = user"
  shows "\<forall>c \<in> set (chunks db). dc_item c = ident \<longrightarrow> dc_user c = user"
proof (intro ballI impI)
  fix c assume "c \<in> set (chunks db)" "dc_item c = ident"
  with assms(1) obtain x where "x \<in> set (items db)" "wi_id x = ident" "wi_user x = dc_user c"
    unfolding index_ok_def by blast
  moreover from assms(1) have "inj_on wi_id (set (items db))" by (simp add: index_ok_def distinct_map)
  ultimately show "dc_user c = user" using assms(2) by (metis inj_onD)
qed

lemma replace_chunks_ok:
  assumes ok: "index_ok db" and r: "replace_chunks user ident texts vectors db = Inr db'"
    and owner: "\<exists>x \<in> set (items db). wi_id x = ident \<and> wi_user x = user"
  shows "index_ok db'"
proof -
  have owned: "\<forall>c \<in> set (chunks db). dc_item c = ident \<longrightarrow> dc_user c = user"
    using ok owner by (rule index_owner)
  note props = replace_chunks_props [OF r owned]
  let ?rest = "filter (\<lambda>c. dc_item c \<noteq> ident) (chunks db)"
  have split: "mset (map chunk_key (chunks db')) = mset (map chunk_key ?rest) + mset (map chunk_key (chunks_of ident db'))"
  proof -
    have "mset (chunks db') = filter_mset (\<lambda>c. dc_item c \<noteq> ident) (mset (chunks db')) + filter_mset (\<lambda>c. dc_item c = ident) (mset (chunks db'))"
      using multiset_partition [of "mset (chunks db')" "\<lambda>c. dc_item c \<noteq> ident"] by simp
    then show ?thesis using props(7) by (simp add: chunks_of_def flip: mset_filter image_mset_union)
  qed
  have "distinct (map chunk_key ?rest)" using ok by (simp add: index_ok_def distinct_map_filter)
  moreover have "distinct (map chunk_key (chunks_of ident db'))"
  proof -
    have "distinct (map dc_index (chunks_of ident db'))" unfolding props(5) by simp
    moreover have "map dc_index (chunks_of ident db') = map snd (map chunk_key (chunks_of ident db'))"
      by (simp add: chunk_key_def)
    ultimately show ?thesis by (metis distinct_map)
  qed
  moreover have "set (map chunk_key ?rest) \<inter> set (map chunk_key (chunks_of ident db')) = {}"
    by (auto simp: chunk_key_def chunks_of_def)
  ultimately have "distinct (map chunk_key (?rest @ chunks_of ident db'))" by simp
  then have "distinct (map chunk_key (chunks db'))"
    using mset_eq_imp_distinct_iff [of "map chunk_key (chunks db')" "map chunk_key (?rest @ chunks_of ident db')"]
      split by simp
  moreover have "\<exists>x \<in> set (items db). wi_id x = dc_item c \<and> wi_user x = dc_user c" if "c \<in> set (chunks db')" for c
  proof (cases "dc_item c = ident")
    case True
    with that props(6) owner show ?thesis by (auto simp: chunks_of_def)
  next
    case False
    with that have "c \<in> set (filter (\<lambda>c. dc_item c \<noteq> ident) (chunks db'))" by simp
    then have "c \<in> set ?rest" unfolding props(7) .
    with ok show ?thesis unfolding index_ok_def by auto
  qed
  ultimately show ?thesis using ok props(1,2) by (simp add: index_ok_def)
qed

text \<open>The row an item should have, field by field.\<close>

definition indexed_row :: "nat \<Rightarrow> nat \<Rightarrow> datetime \<Rightarrow> normalized_item \<Rightarrow> item_row \<Rightarrow> bool" where
  "indexed_row user ident now i r \<longleftrightarrow>
     wi_id r = ident \<and> item_key r = (user, ni_service i, ni_external_id i) \<and> wi_title r = ni_title i \<and>
     wi_text r = ni_text i \<and> wi_metadata r = ni_metadata i \<and> wi_created r = ni_created i \<and>
     wi_updated r = ni_updated i \<and> wi_indexed r = now \<and> wi_deleted r = None"

text \<open>The chunks an item should have: one for each text, in order, with the vector of the text.\<close>

definition chunk_rows :: "nat \<Rightarrow> nat \<Rightarrow> string list \<Rightarrow> rat list list \<Rightarrow> chunk_row list" where
  "chunk_rows user ident texts vectors =
     map (\<lambda>k. \<lparr>dc_item = ident, dc_user = user, dc_index = k, dc_text = texts ! k, dc_embedding = vectors ! k\<rparr>)
       [0 ..< length texts]"

definition vectors_for :: "embedder \<Rightarrow> string list \<Rightarrow> rat list list \<Rightarrow> bool" where
  "vectors_for e texts vectors \<longleftrightarrow>
     length vectors = length texts \<and> (texts \<noteq> [] \<longrightarrow> vectors = emb_encode e texts) \<and>
     (\<forall>v \<in> set vectors. length v = emb_dimensions e)"

lemma upsert_item_row:
  assumes "index_ok db" and "upsert_item user now i db = (ident, db')"
  shows "(\<exists>r \<in> set (items db'). indexed_row user ident now i r) \<and>
    filter (\<lambda>r. wi_id r \<noteq> ident) (items db') = filter (\<lambda>r. wi_id r \<noteq> ident) (items db) \<and>
    chunks db' = chunks db"
  using assms
proof (cases rule: upsert_cases)
  case (Update r)
  let ?f = "\<lambda>x. if x = r then fill_item now i x else x"
  have "?f r \<in> set (items db')" using Update by auto
  moreover have "indexed_row user ident now i (?f r)"
    using Update by (simp add: indexed_row_def fill_item_def item_key_def)
  moreover have "filter (\<lambda>x. wi_id x \<noteq> ident) (map ?f xs) = filter (\<lambda>x. wi_id x \<noteq> ident) xs" for xs
    using Update(3) by (induction xs) auto
  ultimately show ?thesis using Update(5,6) by auto
next
  case Insert
  have "indexed_row user ident now i (new_item ident user now i)"
    by (simp add: indexed_row_def new_item_def item_key_def)
  with Insert show ?thesis by auto
qed

lemma embed_texts_error:
  assumes "embed_texts e texts = Inl err" "texts \<noteq> []" "\<forall>t \<in> set texts. py_strip t \<noteq> []"
  shows "err = RuntimeError ''Embedding model dimension does not match configuration''"
  using assms by (auto simp: embed_texts_def Let_def list_ex_iff split: if_splits)

lemma index_item_parts:
  assumes "index_item e user now i db = Some (Inr (ident, db'))"
  obtains db1 texts vectors where "upsert_item user now i db = (ident, db1)"
    "chunk_text (ni_text i) 850 100 = Some (Inr texts)"
    "replace_chunks user ident texts vectors db1 = Inr db'" "vectors_for e texts vectors"
proof -
  from assms obtain db1 texts vectors where parts: "upsert_item user now i db = (ident, db1)"
    "chunk_text (ni_text i) 850 100 = Some (Inr texts)" "replace_chunks user ident texts vectors db1 = Inr db'"
    and embedded: "(if texts = [] then Inr [] else embed_texts e texts) = Inr vectors"
    by (auto simp: index_item_def split: prod.splits option.splits sum.splits)
  have "length vectors = length texts" using parts(3) by (simp add: replace_chunks_def split: if_splits)
  with embedded have "vectors_for e texts vectors"
    by (auto simp: vectors_for_def embed_texts_def Let_def list_ex_iff split: if_splits)
  with parts show ?thesis by (rule that)
qed

lemma chunk_rows_eqI:
  assumes "map dc_text cs = texts" "map dc_embedding cs = vectors" "map dc_index cs = [0 ..< length texts]"
    and "\<forall>c \<in> set cs. dc_item c = ident \<and> dc_user c = user"
  shows "cs = chunk_rows user ident texts vectors"
proof (rule nth_equalityI)
  have len: "length cs = length texts" using assms(1) by (metis length_map)
  then show "length cs = length (chunk_rows user ident texts vectors)" by (simp add: chunk_rows_def)
  fix k assume k: "k < length cs"
  then have "dc_text (cs ! k) = texts ! k" "dc_embedding (cs ! k) = vectors ! k"
    using assms(1,2) by auto
  moreover have "dc_index (cs ! k) = k" using assms(3) k len by (metis add_0 diff_zero length_upt nth_map nth_upt)
  moreover have "dc_item (cs ! k) = ident" "dc_user (cs ! k) = user" using assms(4) k by auto
  ultimately show "cs ! k = chunk_rows user ident texts vectors ! k" using k len by (simp add: chunk_rows_def)
qed

lemma chunk_text_default:
  obtains texts where "chunk_text t 850 100 = Some (Inr texts)" "\<forall>c \<in> set texts. py_strip c \<noteq> []"
proof -
  obtain texts spans where texts: "chunk_text t 850 100 = Some (Inr texts)"
    "texts = cut (normalize_space t) spans" "tiles (normalize_space t) 850 0 spans"
    using chunk_text_tiles [of 850 100 t] by auto
  have "py_strip c \<noteq> []" if "c \<in> set texts" for c
  proof -
    from that texts(2) obtain x where "c = py_strip x" by (auto simp: cut_def)
    with tile_chunk [OF texts(3)] that texts(2) show ?thesis by (simp add: py_strip_def strip_with_idem)
  qed
  with texts(1) that show ?thesis by blast
qed

lemma index_item_frame:
  assumes ok: "index_ok db" and run: "index_item e user now i db = Some (Inr (ident, db'))"
  shows "index_ok db'"
    and "filter (\<lambda>r. wi_id r \<noteq> ident) (items db') = filter (\<lambda>r. wi_id r \<noteq> ident) (items db)"
    and "filter (\<lambda>c. dc_item c \<noteq> ident) (chunks db') = filter (\<lambda>c. dc_item c \<noteq> ident) (chunks db)"
    and "(\<exists>r \<in> set (items db'). indexed_row user ident now i r) \<and>
      (\<exists>texts vectors. chunk_text (ni_text i) 850 100 = Some (Inr texts) \<and> vectors_for e texts vectors \<and>
        chunks_of ident db' = chunk_rows user ident texts vectors)"
    and "\<forall>d \<in> {db, db'}. \<forall>r \<in> set (items d). wi_id r = ident \<longrightarrow> wi_user r = user"
proof -
  from run obtain db1 texts vectors where up: "upsert_item user now i db = (ident, db1)"
    and ch: "chunk_text (ni_text i) 850 100 = Some (Inr texts)"
    and re: "replace_chunks user ident texts vectors db1 = Inr db'" and ve: "vectors_for e texts vectors" by (rule index_item_parts)
  note ok1 = upsert_ok [OF ok up] and row = upsert_item_row [OF ok up]
  have owned: "\<forall>c \<in> set (chunks db1). dc_item c = ident \<longrightarrow> dc_user c = user"
    using ok1 by (rule index_owner)
  note props = replace_chunks_props [OF re owned]
  have "\<forall>c \<in> set (chunks_of ident db'). dc_item c = ident \<and> dc_user c = user"
    using props(6) by (simp add: chunks_of_def)
  note rows = chunk_rows_eqI [OF props(3-5) this]
  show ok': "index_ok db'" by (rule replace_chunks_ok [OF ok1(1) re ok1(2)])
  show "filter (\<lambda>r. wi_id r \<noteq> ident) (items db') = filter (\<lambda>r. wi_id r \<noteq> ident) (items db)"
    "filter (\<lambda>c. dc_item c \<noteq> ident) (chunks db') = filter (\<lambda>c. dc_item c \<noteq> ident) (chunks db)"
    using row props by simp_all
  show "(\<exists>r \<in> set (items db'). indexed_row user ident now i r) \<and>
      (\<exists>texts vectors. chunk_text (ni_text i) 850 100 = Some (Inr texts) \<and> vectors_for e texts vectors \<and>
        chunks_of ident db' = chunk_rows user ident texts vectors)"
    using row ch ve rows props(1) by auto
  have after: "wi_user r = user" if "r \<in> set (items db')" "wi_id r = ident" for r
  proof -
    from ok' have "inj_on wi_id (set (items db'))" by (simp add: index_ok_def distinct_map)
    with that ok1(2) show ?thesis unfolding props(1) by (metis inj_onD)
  qed
  have before: "wi_user r = user" if "r \<in> set (items db)" "wi_id r = ident" for r
    using ok up
  proof (cases rule: upsert_cases)
    case (Update x)
    from ok have "inj_on wi_id (set (items db))" by (simp add: index_ok_def distinct_map)
    with that Update(1,3) have "r = x" by (simp add: inj_onD)
    with Update(2) show ?thesis by (simp add: item_key_def)
  next
    case Insert
    with that ok show ?thesis by (auto simp: index_ok_def)
  qed
  show "\<forall>d \<in> {db, db'}. \<forall>r \<in> set (items d). wi_id r = ident \<longrightarrow> wi_user r = user"
    using before after by blast
qed

section \<open>Properties\<close>

text \<open>
  C23. Indexing an item keeps the index consistent and is a replacement: afterwards the row of the
  item carries the title, the text, the metadata and both source times of the item and the time of
  indexing, and is not deleted; its chunks are exactly the chunks of the new text, numbered from
  zero, each with the vector the model gives for its text, of the configured dimension; and every
  other item and chunk is as it was.
\<close>

theorem index_item_replaces:
  assumes ok: "index_ok db" and run: "index_item e user now i db = Some (Inr (ident, db'))"
  shows "index_ok db' \<and> (\<exists>r \<in> set (items db'). indexed_row user ident now i r) \<and>
    (\<exists>texts vectors. chunk_text (ni_text i) 850 100 = Some (Inr texts) \<and> vectors_for e texts vectors \<and>
      chunks_of ident db' = chunk_rows user ident texts vectors) \<and>
    filter (\<lambda>r. wi_id r \<noteq> ident) (items db') = filter (\<lambda>r. wi_id r \<noteq> ident) (items db) \<and>
    filter (\<lambda>c. dc_item c \<noteq> ident) (chunks db') = filter (\<lambda>c. dc_item c \<noteq> ident) (chunks db)"
  using index_item_frame [OF ok run] by blast

definition sample_instant :: datetime where
  "sample_instant = \<lparr>year = 2024, month = 5, day = 1, hour = 12, minute = 0, second = 0, microsecond = 0,
     utcoffset = Some 0\<rparr>"

definition sample_item :: normalized_item where
  "sample_item = \<lparr>ni_service = ''gmail'', ni_external_id = ''m1'', ni_title = ''Hi'', ni_text = ''Hello  world'',
     ni_metadata = [], ni_created = None, ni_updated = None\<rparr>"

definition sample_embedder :: embedder where
  "sample_embedder = \<lparr>emb_dimensions = 1, emb_encode = map (\<lambda>_. [1])\<rparr>"

lemma sample_indexed:
  "index_item sample_embedder 7 sample_instant sample_item empty_index =
     Some (Inr (0, \<lparr>items = [new_item 0 7 sample_instant sample_item],
       chunks = [\<lparr>dc_item = 0, dc_user = 7, dc_index = 0, dc_text = ''Hello world'', dc_embedding = [1]\<rparr>],
       next_item_id = 1\<rparr>))"
proof -
  have "normalize_space ''Hello  world'' = ''Hello world''" and "py_strip ''Hello world'' \<noteq> []"
    by code_simp+
  then show ?thesis
    by (simp add: index_item_def upsert_item_def empty_index_def sample_item_def chunk_text_def
        sample_embedder_def embed_texts_def replace_chunks_def)
qed

lemma empty_index_ok: "index_ok empty_index"
  by (simp add: index_ok_def empty_index_def)

lemma index_item_replaces_witness:
  "\<exists>db'. index_item sample_embedder 7 sample_instant sample_item empty_index = Some (Inr (0, db')) \<and>
     index_ok db' \<and> map dc_text (chunks_of 0 db') = [''Hello world'']"
  using index_item_replaces [OF empty_index_ok sample_indexed] sample_indexed
  by (simp add: chunks_of_def)

text \<open>
  Indexing always returns, and the only exceptions are a model whose vectors have the wrong
  dimension or number: the chunks given to the model are never blank, so its check of the texts
  never fails.
\<close>

theorem index_item_returns:
  "case index_item e user now i db of
     None \<Rightarrow> False
   | Some (Inr _) \<Rightarrow> True
   | Some (Inl err) \<Rightarrow> err \<in> {RuntimeError ''Embedding model dimension does not match configuration'',
       ValueError ''zip() arguments have different lengths''}"
proof -
  obtain texts where texts: "chunk_text (ni_text i) 850 100 = Some (Inr texts)" "\<forall>c \<in> set texts. py_strip c \<noteq> []"
    by (rule chunk_text_default)
  obtain ident db1 where up: "upsert_item user now i db = (ident, db1)" by (cases "upsert_item user now i db")
  show ?thesis
  proof (cases "if texts = [] then Inr [] else embed_texts e texts")
    case (Inl err)
    with texts(2) have "err = RuntimeError ''Embedding model dimension does not match configuration''"
      by (cases "texts = []") (auto dest: embed_texts_error)
    with Inl texts(1) up show ?thesis by (simp add: index_item_def)
  next
    case (Inr vectors)
    with texts(1) up show ?thesis by (simp add: index_item_def replace_chunks_def)
  qed
qed

end
