(* ===== verification/Freshness.thy ===== *)
theory Freshness
  imports Iso_Format Py_Text
begin

text \<open>
  \<open>app/retrieval/freshness.py\<close>: for each requested service, whether its index is fresh, and why
  not; and the form \<open>_sync_state_freshness\<close> of \<open>agents/workspace.py\<close> gives it.

  A naive reference time raises; the program passes an aware one.
\<close>

record sync_snapshot =
  snap_service :: string
  snap_status :: string
  snap_last_sync :: "datetime option"

record service_freshness =
  fresh_service :: string
  is_fresh :: bool
  fresh_reason :: string
  fresh_last_sync :: "datetime option"

definition freshness_of :: "datetime \<Rightarrow> int \<Rightarrow> string \<Rightarrow> sync_snapshot option \<Rightarrow> service_freshness" where
  "freshness_of now stale_after name state =
     (let verdict = (\<lambda>ok reason last. \<lparr>fresh_service = name, is_fresh = ok, fresh_reason = reason,
            fresh_last_sync = last\<rparr>) in
      case state of
        None \<Rightarrow> verdict False ''never_synced'' None
      | Some s \<Rightarrow>
          if snap_status s \<noteq> ''completed'' then
            verdict False
              (''sync_'' @ (if snap_status s = [] then ''incomplete'' else snap_status s)) (snap_last_sync s)
          else
            (case snap_last_sync s of
               None \<Rightarrow> verdict False ''never_succeeded'' None
             | Some t \<Rightarrow>
                 if \<not> is_aware t then verdict False ''invalid_naive_timestamp'' (Some t)
                 else
                   (let fresh = utc_micros now - utc_micros t \<le> stale_after
                    in verdict fresh (if fresh then ''fresh'' else ''age_exceeded'') (Some t))))"

text \<open>The last state of a service wins; services are visited in sorted order.\<close>

definition evaluate_service_freshness ::
  "sync_snapshot list \<Rightarrow> string list \<Rightarrow> datetime \<Rightarrow> int \<Rightarrow>
   py_error + (string \<times> service_freshness) list" where
  "evaluate_service_freshness states requested now stale_after =
     (if \<not> is_aware now then Inl (ValueError ''Freshness reference time must be timezone-aware'')
      else
        (let by_service = dict_of [] (map (\<lambda>s. (snap_service s, s)) states) in
         Inr (map (\<lambda>name. (name, freshness_of now stale_after name (dict_get by_service name)))
           (sorted_strs requested))))"

section \<open>The freshness of the search states\<close>

text \<open>\<open>_sync_state_freshness\<close>: the states the search returns, a status and a time per service.\<close>

type_synonym sync_states = "(string \<times> string \<times> datetime option) list"

definition all_services :: "string list" where
  "all_services = [''gmail'', ''google_calendar'', ''google_drive'']"

definition sync_state_freshness ::
  "sync_states \<Rightarrow> datetime \<Rightarrow> int \<Rightarrow> py_error + (string \<times> service_freshness) list" where
  "sync_state_freshness states now stale_after =
     evaluate_service_freshness
       (map (\<lambda>(name, st, t). \<lparr>snap_service = name, snap_status = st, snap_last_sync = t\<rparr>) states)
       (if states = [] then all_services else map fst states) now stale_after"

definition freshness_json :: "service_freshness \<Rightarrow> json" where
  "freshness_json r = JObj
     [(''fresh'', JBool (is_fresh r)), (''reason'', JStr (fresh_reason r)),
      (''last_successful_sync'',
        (case fresh_last_sync r of None \<Rightarrow> JNull | Some t \<Rightarrow> JStr (isoformat t)))]"

section \<open>Properties\<close>

lemma dict_of_last:
  "dict_get (dict_of acc kvs) k =
     (case List.find (\<lambda>p. fst p = k) (rev kvs) of None \<Rightarrow> dict_get acc k | Some p \<Rightarrow> Some (snd p))"
proof (induction kvs arbitrary: acc)
  case (Cons p kvs)
  obtain k' v where p: "p = (k', v)" by (cases p)
  have snoc: "List.find P (xs @ [x]) = (case List.find P xs of None \<Rightarrow> if P x then Some x else None | Some y \<Rightarrow> Some y)"
    for P :: "string \<times> 'a \<Rightarrow> bool" and xs x by (induction xs) auto
  show ?case using Cons.IH [of "dict_set k' v acc"]
    by (auto simp: p snoc dict_get_set split: option.splits)
qed simp

lemma freshness_of_iff:
  "is_fresh (freshness_of now stale_after name state) \<longleftrightarrow>
     (\<exists>s t. state = Some s \<and> snap_status s = ''completed'' \<and> snap_last_sync s = Some t \<and>
        is_aware t \<and> utc_micros now - utc_micros t \<le> stale_after)"
  by (auto simp: freshness_of_def Let_def split: option.splits)

lemma freshness_reason:
  "fresh_reason (freshness_of now stale_after name state) = ''fresh'' \<longleftrightarrow>
     is_fresh (freshness_of now stale_after name state)"
  by (auto simp: freshness_of_def Let_def split: option.splits)

text \<open>
  Exactly the requested services get a verdict, in sorted order, and a service counts as fresh
  exactly when its last recorded state is a completed sync with an aware time that is not older
  than the limit; the reason is \<open>fresh\<close> for those and only those.
\<close>

theorem freshness_iff:
  assumes "evaluate_service_freshness states requested now stale_after = Inr verdicts"
  shows "map fst verdicts = sorted_strs requested \<and>
    (\<forall>(name, v) \<in> set verdicts.
       (is_fresh v \<longleftrightarrow>
          (\<exists>s t. List.find (\<lambda>s. snap_service s = name) (rev states) = Some s \<and>
             snap_status s = ''completed'' \<and> snap_last_sync s = Some t \<and> is_aware t \<and>
             utc_micros now - utc_micros t \<le> stale_after)) \<and>
       (fresh_reason v = ''fresh'' \<longleftrightarrow> is_fresh v))"
proof -
  let ?by = "dict_of [] (map (\<lambda>s. (snap_service s, s)) states)"
  have find: "List.find (\<lambda>p. fst p = name) (map (\<lambda>s. (snap_service s, s)) xs) =
      map_option (\<lambda>s. (snap_service s, s)) (List.find (\<lambda>s. snap_service s = name) xs)" for name xs
    by (induction xs) auto
  have lookup: "dict_get ?by name = List.find (\<lambda>s. snap_service s = name) (rev states)" for name
    by (simp add: dict_of_last rev_map find split: option.splits)
  from assms have v: "verdicts = map (\<lambda>name. (name, freshness_of now stale_after name (dict_get ?by name)))
      (sorted_strs requested)"
    by (simp add: evaluate_service_freshness_def Let_def split: if_splits)
  then have "map fst verdicts = sorted_strs requested" by (simp add: comp_def)
  moreover have "(is_fresh v \<longleftrightarrow>
          (\<exists>s t. List.find (\<lambda>s. snap_service s = name) (rev states) = Some s \<and>
             snap_status s = ''completed'' \<and> snap_last_sync s = Some t \<and> is_aware t \<and>
             utc_micros now - utc_micros t \<le> stale_after)) \<and>
       (fresh_reason v = ''fresh'' \<longleftrightarrow> is_fresh v)" if "(name, v) \<in> set verdicts" for name v
  proof -
    from that v have "v = freshness_of now stale_after name (dict_get ?by name)" by auto
    then show ?thesis by (simp add: freshness_reason freshness_of_iff lookup)
  qed
  ultimately show ?thesis by blast
qed

definition sample_noon :: datetime where
  "sample_noon = \<lparr>year = 2024, month = 5, day = 1, hour = 12, minute = 0, second = 0, microsecond = 0,
     utcoffset = Some 0\<rparr>"

definition sample_states :: sync_states where
  "sample_states = [(''gmail'', ''completed'', Some sample_noon), (''google_drive'', ''running'', None)]"

lemma freshness_iff_witness:
  "\<exists>verdicts. sync_state_freshness sample_states sample_noon 60000000 = Inr verdicts \<and>
     map fst verdicts = sorted_strs [''gmail'', ''google_drive''] \<and>
     map (\<lambda>(_, v). is_fresh v) verdicts = [True, False]"
proof -
  let ?snaps = "[\<lparr>snap_service = ''gmail'', snap_status = ''completed'', snap_last_sync = Some sample_noon\<rparr>,
    \<lparr>snap_service = ''google_drive'', snap_status = ''running'', snap_last_sync = None\<rparr>]"
  have sorted: "sorted_strs [''gmail'', ''google_drive''] = [''gmail'', ''google_drive'']"
    by code_simp
  obtain verdicts where v: "evaluate_service_freshness ?snaps [''gmail'', ''google_drive''] sample_noon 60000000 = Inr verdicts"
    by (simp add: evaluate_service_freshness_def Let_def sample_noon_def is_aware_def)
  from freshness_iff [OF v] have "map fst verdicts = sorted_strs [''gmail'', ''google_drive'']" by blast
  moreover from v have "map (\<lambda>(_, v). is_fresh v) verdicts = [True, False]"
    by (auto simp: evaluate_service_freshness_def Let_def sorted freshness_of_iff sample_noon_def is_aware_def)
  ultimately show ?thesis using v by (simp add: sync_state_freshness_def sample_states_def)
qed

end
