(* ===== verification/Relevance.thy ===== *)
theory Relevance
  imports Py_Text "HOL-Library.Multiset"
begin

text \<open>
  \<open>app/retrieval/relevance.py\<close>: the calibrated score of a search candidate, the ranking, and the
  removal of duplicates.

  A candidate is a dict or an object; \<open>val c name\<close> is \<open>_value(c, name)\<close>. Scores are floats: \<open>fl\<close>
  rounds the exact result of an operation to a double, and nothing is assumed of it. \<open>fr\<close> prints
  a float.
\<close>

section \<open>Tokens\<close>

definition is_token_char :: "char \<Rightarrow> bool" where
  "is_token_char c \<longleftrightarrow>
     (let n = code_point c in 48 \<le> n \<and> n \<le> 57 \<or> 97 \<le> n \<and> n \<le> 122)"

text \<open>\<open>findall\<close> of maximal runs.\<close>

fun runs :: "(char \<Rightarrow> bool) \<Rightarrow> string \<Rightarrow> string \<Rightarrow> string list" where
  "runs p w [] = (if w = [] then [] else [w])"
| "runs p w (c # cs) =
     (if p c then runs p (w @ [c]) cs
      else if w = [] then runs p [] cs
      else w # runs p [] cs)"

definition tokens :: "string \<Rightarrow> string list" where
  "tokens s = remdups (runs is_token_char [] (py_lower s))"

definition stop_words :: "string list" where
  "stop_words =
     [''a'', ''an'', ''and'', ''are'', ''documents'', ''emails'', ''find'', ''for'', ''in'', ''me'',
      ''my'', ''of'', ''on'', ''related'', ''research'', ''the'', ''to'', ''with'']"

definition meaningful_tokens :: "string \<Rightarrow> string list" where
  "meaningful_tokens s = filter (\<lambda>t. t \<notin> set stop_words \<and> length t > 1) (tokens s)"

section \<open>Scores\<close>

definition py_or_text :: "(rat \<Rightarrow> string) \<Rightarrow> json list \<Rightarrow> string" where
  "py_or_text fr vs = py_str fr (foldr py_or vs (JStr []))"

definition bounded_score :: "json \<Rightarrow> rat" where
  "bounded_score v =
     (case v of
        JInt i \<Rightarrow> max 0 (min (of_int i) 1)
      | JFloat r \<Rightarrow> max 0 (min r 1)
      | _ \<Rightarrow> 0)"

definition share :: "(rat \<Rightarrow> rat) \<Rightarrow> string list \<Rightarrow> string list \<Rightarrow> rat" where
  "share fl query_terms terms =
     (if query_terms = [] then 0
      else fl (rat_of_nat (length (filter (\<lambda>t. t \<in> set terms) query_terms)) /
               rat_of_nat (length query_terms)))"

record 'c ranked =
  rk_item :: 'c
  rk_score :: rat
  rk_coverage :: rat

definition rank_candidate ::
  "(rat \<Rightarrow> string) \<Rightarrow> (rat \<Rightarrow> rat) \<Rightarrow> ('c \<Rightarrow> string \<Rightarrow> json) \<Rightarrow> string list \<Rightarrow> string list \<Rightarrow> rat \<Rightarrow> 'c \<Rightarrow>
   'c ranked option" where
  "rank_candidate fr fl val query_terms requested minimum_score c =
     (let service = py_or_text fr [val c ''service''] in
      if requested \<noteq> [] \<and> service \<notin> set requested then None
      else
        (let title = py_or_text fr [val c ''title''];
             snippet = py_or_text fr [val c ''snippet'', val c ''chunk_text'', val c ''text''];
             coverage = share fl query_terms (tokens (title @ '' '' @ snippet));
             base_score = bounded_score (val c ''score'');
             title_coverage = share fl query_terms (tokens title);
             calibrated = fl (fl (fl (fl (60 / 100) * base_score) + fl (fl (30 / 100) * coverage)) +
               fl (fl (10 / 100) * title_coverage))
         in if calibrated \<ge> minimum_score \<and> (coverage > 0 \<or> base_score \<ge> fl (60 / 100))
            then Some \<lparr>rk_item = c, rk_score = calibrated, rk_coverage = coverage\<rparr>
            else None))"

section \<open>Duplicates\<close>

text \<open>\<open>_deduplication_key\<close>.\<close>

definition deduplication_key ::
  "(rat \<Rightarrow> string) \<Rightarrow> ('c \<Rightarrow> string \<Rightarrow> json) \<Rightarrow> 'c \<Rightarrow> string \<times> string" where
  "deduplication_key fr val c =
     (let service = py_or_text fr [val c ''service''];
          metadata = py_or (val c ''metadata'') (val c ''resource_metadata'');
          thread_id = (case metadata of JObj m \<Rightarrow> py_get m ''thread_id'' | _ \<Rightarrow> JNull);
          external_id = py_or (val c ''external_resource_id'') (val c ''id'')
      in if service = ''gmail'' \<and> is_str thread_id \<and> py_truthy thread_id
         then (service, ''thread:'' @ py_str fr thread_id)
         else if is_str external_id \<and> py_truthy external_id then (service, py_str fr external_id)
         else (service, normalize_space (py_lower (py_or_text fr [val c ''title'']))))"

text \<open>The first of each key, until there are \<open>top_k\<close>; \<open>n\<close> are selected so far.\<close>

fun first_of_keys :: "('c \<Rightarrow> 'k) \<Rightarrow> int \<Rightarrow> 'k list \<Rightarrow> int \<Rightarrow> 'c list \<Rightarrow> 'c list" where
  "first_of_keys key top_k seen n [] = []"
| "first_of_keys key top_k seen n (c # cs) =
     (if key c \<in> set seen then first_of_keys key top_k seen n cs
      else if n + 1 = top_k then [c]
      else c # first_of_keys key top_k (key c # seen) (n + 1) cs)"

definition select_relevant_candidates ::
  "(rat \<Rightarrow> string) \<Rightarrow> (rat \<Rightarrow> rat) \<Rightarrow> ('c \<Rightarrow> string \<Rightarrow> json) \<Rightarrow> 'c list \<Rightarrow> string \<Rightarrow> int \<Rightarrow> string list \<Rightarrow> rat \<Rightarrow>
   'c list" where
  "select_relevant_candidates fr fl val candidates query top_k requested minimum_score =
     (let ranked = sort_key (\<lambda>r. - rk_score r)
        (List.map_filter
          (rank_candidate fr fl val (meaningful_tokens query) requested minimum_score) candidates)
      in first_of_keys (deduplication_key fr val) top_k [] 0 (map rk_item ranked))"

section \<open>Properties\<close>

lemma first_of_keys_subseq: "subseq (first_of_keys key top_k seen n cs) cs"
  by (induction cs arbitrary: seen n) auto

lemma first_of_keys_set: "set (first_of_keys key top_k seen n cs) \<subseteq> set cs"
  by (induction cs arbitrary: seen n) auto

lemma first_of_keys_keys:
  "distinct (map key (first_of_keys key top_k seen n cs)) \<and>
   set (map key (first_of_keys key top_k seen n cs)) \<inter> set seen = {}"
proof (induction cs arbitrary: seen n)
  case (Cons c cs)
  from Cons.IH [of seen n] Cons.IH [of "key c # seen" "n + 1"] show ?case by auto
qed simp

lemma first_of_keys_length:
  "n < top_k \<Longrightarrow> int (length (first_of_keys key top_k seen n cs)) \<le> top_k - n"
proof (induction cs arbitrary: seen n)
  case (Cons c cs)
  have "int (length (first_of_keys key top_k (key c # seen) (n + 1) cs)) \<le> top_k - (n + 1)"
    if "n + 1 \<noteq> top_k" using Cons.IH [where n = "n + 1" and seen = "key c # seen"] Cons.prems that by simp
  with Cons.IH [where n = n and seen = seen] Cons.prems show ?case by (auto simp: algebra_simps)
qed simp

lemma first_of_keys_map:
  "first_of_keys key top_k seen n (map f xs) = map f (first_of_keys (key \<circ> f) top_k seen n xs)"
  by (induction xs arbitrary: seen n) auto

text \<open>
  Every key that occurs is represented by its best candidate, unless the selection is full and
  holds none that is worse.
\<close>

lemma first_of_keys_best:
  assumes "sorted_wrt (\<lambda>c d. score d \<le> (score c :: rat)) cs" and "n < top_k" and "c \<in> set cs" and "key c \<notin> set seen"
  shows "(\<exists>d \<in> set (first_of_keys key top_k seen n cs). key d = key c \<and> score c \<le> score d) \<or>
    int (length (first_of_keys key top_k seen n cs)) = top_k - n \<and>
    (\<forall>d \<in> set (first_of_keys key top_k seen n cs). score c \<le> score d)"
  using assms
proof (induction cs arbitrary: seen n)
  case (Cons d cs)
  show ?case
  proof (cases "key d \<in> set seen")
    case True
    with Cons show ?thesis by auto
  next
    case new: False
    have le: "score c \<le> score d" using Cons.prems by auto
    show ?thesis
    proof (cases "key c = key d \<or> n + 1 = top_k")
      case True
      with new le show ?thesis by auto
    next
      case False
      with new Cons.prems Cons.IH [of "n + 1" "key d # seen"] le show ?thesis by auto
    qed
  qed
qed simp

section \<open>What the ranking should keep\<close>

text \<open>
  The rule of the ranking, on sets of words: the words of the query that say something, the share
  of them a text has, and the weights of the three parts of a score.
\<close>

definition query_words :: "string \<Rightarrow> string set" where
  "query_words query = {t \<in> set (tokens query). t \<notin> set stop_words \<and> 1 < length t}"

definition word_share :: "(rat \<Rightarrow> rat) \<Rightarrow> string \<Rightarrow> string \<Rightarrow> rat" where
  "word_share fl query t =
     (if query_words query = {} then 0
      else fl (rat_of_nat (card (query_words query \<inter> set (tokens t))) / rat_of_nat (card (query_words query))))"

definition candidate_text :: "(rat \<Rightarrow> string) \<Rightarrow> ('c \<Rightarrow> string \<Rightarrow> json) \<Rightarrow> string list \<Rightarrow> 'c \<Rightarrow> string" where
  "candidate_text fr val names c =
     (case filter (\<lambda>n. py_truthy (val c n)) names of [] \<Rightarrow> [] | n # _ \<Rightarrow> py_str fr (val c n))"

definition candidate_base :: "('c \<Rightarrow> string \<Rightarrow> json) \<Rightarrow> 'c \<Rightarrow> rat" where
  "candidate_base val c =
     (case val c ''score'' of
        JInt i \<Rightarrow> if i < 1 then 0 else 1
      | JFloat r \<Rightarrow> if r < 0 then 0 else if 1 < r then 1 else r
      | _ \<Rightarrow> 0)"

definition candidate_share :: "(rat \<Rightarrow> string) \<Rightarrow> (rat \<Rightarrow> rat) \<Rightarrow> ('c \<Rightarrow> string \<Rightarrow> json) \<Rightarrow> string \<Rightarrow> 'c \<Rightarrow> rat" where
  "candidate_share fr fl val query c =
     word_share fl query (candidate_text fr val [''title''] c @ '' '' @
       candidate_text fr val [''snippet'', ''chunk_text'', ''text''] c)"

definition relevance_score :: "(rat \<Rightarrow> string) \<Rightarrow> (rat \<Rightarrow> rat) \<Rightarrow> ('c \<Rightarrow> string \<Rightarrow> json) \<Rightarrow> string \<Rightarrow> 'c \<Rightarrow> rat" where
  "relevance_score fr fl val query c =
     fl (fl (fl (fl (60 / 100) * candidate_base val c) + fl (fl (30 / 100) * candidate_share fr fl val query c)) +
       fl (fl (10 / 100) * word_share fl query (candidate_text fr val [''title''] c)))"

definition relevant_to ::
  "(rat \<Rightarrow> string) \<Rightarrow> (rat \<Rightarrow> rat) \<Rightarrow> ('c \<Rightarrow> string \<Rightarrow> json) \<Rightarrow> string \<Rightarrow> string list \<Rightarrow> rat \<Rightarrow> 'c \<Rightarrow> bool" where
  "relevant_to fr fl val query requested m c \<longleftrightarrow>
     (requested = [] \<or> candidate_text fr val [''service''] c \<in> set requested) \<and>
     m \<le> relevance_score fr fl val query c \<and>
     (0 < candidate_share fr fl val query c \<or> fl (60 / 100) \<le> candidate_base val c)"

lemma set_meaningful_tokens: "set (meaningful_tokens query) = query_words query" "distinct (meaningful_tokens query)"
  by (auto simp: meaningful_tokens_def query_words_def tokens_def)

lemma share_words: "share fl (meaningful_tokens query) (tokens t) = word_share fl query t"
proof -
  have "card (query_words query) = length (meaningful_tokens query)"
    using distinct_card [OF set_meaningful_tokens(2)] by (simp add: set_meaningful_tokens(1))
  moreover have "card (query_words query \<inter> set (tokens t)) =
      length (filter (\<lambda>w. w \<in> set (tokens t)) (meaningful_tokens query))"
    using distinct_card [OF distinct_filter [OF set_meaningful_tokens(2)]]
    by (simp add: set_meaningful_tokens(1) Int_def)
  moreover have "meaningful_tokens query = [] \<longleftrightarrow> query_words query = {}"
    using set_meaningful_tokens(1) by (metis set_empty)
  ultimately show ?thesis by (simp add: share_def word_share_def)
qed

lemma py_or_text_candidate: "py_or_text fr (map (val c) names) = candidate_text fr val names c"
  by (induction names) (simp_all add: py_or_text_def candidate_text_def py_or_def)

lemma bounded_score_base: "bounded_score (val c ''score'') = candidate_base val c"
  by (auto simp: bounded_score_def candidate_base_def max_def min_def split: json.splits)

lemma rank_candidate_eq:
  "rank_candidate fr fl val (meaningful_tokens query) requested m c =
     (if relevant_to fr fl val query requested m c
      then Some \<lparr>rk_item = c, rk_score = relevance_score fr fl val query c,
        rk_coverage = candidate_share fr fl val query c\<rparr>
      else None)"
proof -
  note words = py_or_text_candidate [of fr val c, symmetric]
  have "py_or_text fr [val c ''service''] = candidate_text fr val [''service''] c"
    "py_or_text fr [val c ''title''] = candidate_text fr val [''title''] c"
    "py_or_text fr [val c ''snippet'', val c ''chunk_text'', val c ''text''] =
       candidate_text fr val [''snippet'', ''chunk_text'', ''text''] c"
    by (simp_all only: words list.map)
  then show ?thesis
    by (simp only: rank_candidate_def Let_def share_words bounded_score_base relevant_to_def relevance_score_def
        candidate_share_def) simp
qed

lemma ranked_eq:
  "List.map_filter (rank_candidate fr fl val (meaningful_tokens query) requested m) cs =
     map (\<lambda>c. \<lparr>rk_item = c, rk_score = relevance_score fr fl val query c,
       rk_coverage = candidate_share fr fl val query c\<rparr>) (filter (relevant_to fr fl val query requested m) cs)"
  by (induction cs) (simp_all add: rank_candidate_eq List.map_filter_simps)

lemma ranked_items:
  "map rk_item (sort_key (\<lambda>r. - rk_score r)
     (List.map_filter (rank_candidate fr fl val (meaningful_tokens query) requested m) cs)) =
   sort_key (\<lambda>c. - relevance_score fr fl val query c) (filter (relevant_to fr fl val query requested m) cs)"
proof -
  have "map rk_item (sort_key (\<lambda>r. - rk_score r) (map f cs)) = sort_key (\<lambda>c. - g c) cs"
    if "\<And>c. rk_item (f c) = c" "\<And>c. rk_score (f c) = g c" for f :: "'a \<Rightarrow> 'a ranked" and g and cs :: "'a list"
  proof -
    have "insort_key (\<lambda>r. - rk_score r) (f c) (map f ds) = map f (insort_key (\<lambda>c. - g c) c ds)" for c ds
      using that by (induction ds) simp_all
    then have "sort_key (\<lambda>r. - rk_score r) (map f cs) = map f (sort_key (\<lambda>c. - g c) cs)"
      by (induction cs) simp_all
    with that show ?thesis by (simp add: map_idI)
  qed
  then show ?thesis by (simp add: ranked_eq)
qed

lemma selection_eq:
  "select_relevant_candidates fr fl val cs query top_k requested m =
     first_of_keys (deduplication_key fr val) top_k [] 0
       (sort_key (\<lambda>c. - relevance_score fr fl val query c) (filter (relevant_to fr fl val query requested m) cs))"
  by (simp only: select_relevant_candidates_def Let_def ranked_items)

lemma subseq_sorted_wrt:
  assumes "subseq xs ys" and "sorted_wrt P ys"
  shows "sorted_wrt P xs"
proof -
  have "set xs \<subseteq> set ys \<and> sorted_wrt P xs" using assms by (induction rule: list_emb.induct) auto
  then show ?thesis ..
qed

lemma selection_subset:
  "set (select_relevant_candidates fr fl val cs query top_k requested m) \<subseteq> set cs"
  using first_of_keys_set [of "deduplication_key fr val"] unfolding selection_eq by fastforce

lemma selection_length:
  "0 < top_k \<Longrightarrow> int (length (select_relevant_candidates fr fl val cs query top_k requested m)) \<le> top_k"
  using first_of_keys_length [of 0 top_k] by (simp add: select_relevant_candidates_def Let_def)

text \<open>
  C26. The selection holds at most \<open>top_k\<close> candidates, best score first, no two with the same
  de-duplication key. Each is of a requested service, has the minimum score, and shares a word with
  the query or has a base score of 0.6. Every candidate like that is represented by one with its
  key and no lower score, unless the selection is full and holds none with a lower score.
\<close>

theorem relevance_selection:
  fixes cs :: "'c list" and requested :: "string list" and m :: rat and query :: string
    and val :: "'c \<Rightarrow> string \<Rightarrow> json" and fr :: "rat \<Rightarrow> string" and fl :: "rat \<Rightarrow> rat"
  assumes "0 < top_k"
  defines "ss \<equiv> select_relevant_candidates fr fl val cs query top_k requested m"
    and "relevant \<equiv> relevant_to fr fl val query requested m"
    and "score \<equiv> relevance_score fr fl val query"
    and "key \<equiv> deduplication_key fr val"
  shows "set ss \<subseteq> {c \<in> set cs. relevant c} \<and> int (length ss) \<le> top_k \<and> distinct (map key ss) \<and>
    sorted (rev (map score ss)) \<and>
    (\<forall>c \<in> set cs. relevant c \<longrightarrow>
      (\<exists>d \<in> set ss. key d = key c \<and> score c \<le> score d) \<or>
      int (length ss) = top_k \<and> (\<forall>d \<in> set ss. score c \<le> score d))"
proof -
  let ?ranked = "sort_key (\<lambda>c. - score c) (filter relevant cs)"
  have ss: "ss = first_of_keys key top_k [] 0 ?ranked"
    unfolding ss_def selection_eq relevant_def score_def key_def ..
  have ranked: "sorted_wrt (\<lambda>c d. score d \<le> score c) ?ranked"
    using sorted_sort_key [of "\<lambda>c. - score c"] by (simp add: sorted_map)
  have "set ss \<subseteq> {c \<in> set cs. relevant c}"
    using first_of_keys_set [of key top_k "[]" 0 ?ranked] unfolding ss by simp
  moreover have "int (length ss) \<le> top_k" unfolding ss_def using assms(1) by (rule selection_length)
  moreover have "distinct (map key ss)" unfolding ss by (simp only: first_of_keys_keys)
  moreover have "sorted (rev (map score ss))"
    using subseq_sorted_wrt [OF first_of_keys_subseq ranked] unfolding ss by (simp add: sorted_wrt_rev sorted_wrt_map)
  moreover have "(\<exists>d \<in> set ss. key d = key c \<and> score c \<le> score d) \<or>
      int (length ss) = top_k \<and> (\<forall>d \<in> set ss. score c \<le> score d)" if "c \<in> set cs" "relevant c" for c
    using first_of_keys_best [OF ranked assms(1), of c key "[]"] that unfolding ss by simp
  ultimately show ?thesis by blast
qed

definition sample_candidates :: "dict list" where
  "sample_candidates =
     [[(''service'', JStr ''gmail''), (''id'', JStr ''m1''), (''title'', JStr ''Acme proposal''),
       (''score'', JFloat (1 / 2)), (''metadata'', JObj [(''thread_id'', JStr ''t'')])],
      [(''service'', JStr ''gmail''), (''id'', JStr ''m2''), (''title'', JStr ''Acme proposal''),
       (''score'', JFloat (3 / 4)), (''metadata'', JObj [(''thread_id'', JStr ''t'')])],
      [(''service'', JStr ''google_drive''), (''id'', JStr ''d1''), (''title'', JStr ''Quantum''),
       (''score'', JFloat (1 / 4))]]"

lemma sample_selection:
  "map (\<lambda>c. py_get c ''id'')
     (select_relevant_candidates (\<lambda>_. []) id (\<lambda>c k. py_get c k) sample_candidates ''find the Acme proposal''
        5 [] (30 / 100)) = [JStr ''m2'']"
  by code_simp

lemma relevance_selection_witness:
  "list_all (relevant_to (\<lambda>_. []) id (\<lambda>c k. py_get c k) ''find the Acme proposal'' [''gmail''] (30 / 100))
     (select_relevant_candidates (\<lambda>_. []) id (\<lambda>c k. py_get c k) sample_candidates ''find the Acme proposal''
        5 [''gmail''] (30 / 100))"
  using relevance_selection [of 5 "\<lambda>_. []" id "\<lambda>c k. py_get c k" sample_candidates "''find the Acme proposal''"
      "[''gmail'']" "30 / 100"] by (auto simp: list_all_iff)

end
