(* ===== verification/Search.thy ===== *)
theory Search
  imports Index_Store Freshness Relevance
begin

text \<open>
  \<open>HybridWorkspaceSearch.search\<close> of \<open>app/retrieval/search.py\<close> on the tables of \<open>Index_Store\<close> and
  the sync states: the checks, the SQL query, the states of the requested services, one result per
  item, and the relevance selection.

  Parameters, in \<open>search_env\<close>: the embedding of the query, what PostgreSQL computes (the cosine
  distance, the keyword rank, \<open>ILIKE\<close>, the text of a JSON value, the order of texts, and the order
  of rows by a score, whose ties it leaves open), rounding and printing of floats, and the
  durations measured. \<open>row_order\<close> is the documented contract of \<open>ORDER BY score DESC\<close>.
\<close>

section \<open>Filters, rows and results\<close>

record search_filters =
  f_services :: "string list option"
  f_sender :: "string option"
  f_date_from :: "string option"
  f_date_to :: "string option"
  f_mime_type :: "string option"
  f_attendee :: "string option"

definition no_filters :: search_filters where
  "no_filters = \<lparr>f_services = None, f_sender = None, f_date_from = None, f_date_to = None,
     f_mime_type = None, f_attendee = None\<rparr>"

type_synonym search_row = "item_row \<times> chunk_row"

record sync_row =
  ss_user :: nat
  ss_service :: string
  ss_status :: string
  ss_cursor :: json
  ss_last_success :: "datetime option"
  ss_last_attempt :: "datetime option"
  ss_error :: json

record search_env =
  query_vector :: "string \<Rightarrow> py_error + rat list \<times> bool"
  cosine_distance :: "rat list \<Rightarrow> rat list \<Rightarrow> rat"
  keyword_rank :: "string \<Rightarrow> string \<Rightarrow> rat"
  ilike :: "string \<Rightarrow> string \<Rightarrow> bool"
  json_text :: "json \<Rightarrow> string"
  text_less :: "string \<Rightarrow> string \<Rightarrow> bool"
  order_desc :: "(search_row \<Rightarrow> rat) \<Rightarrow> search_row list \<Rightarrow> search_row list"
  round_float :: "rat \<Rightarrow> rat"
  print_float :: "rat \<Rightarrow> string"
  durations :: "rat \<times> rat \<times> rat"

record search_result =
  sr_item :: nat
  sr_service :: string
  sr_external_id :: string
  sr_title :: string
  sr_chunk_text :: string
  sr_score :: rat
  sr_metadata :: dict
  sr_indexed :: datetime

record search_response =
  resp_results :: "search_result list"
  resp_duration :: rat
  resp_embedding_duration :: rat
  resp_database_duration :: rat
  resp_cache_hit :: bool
  resp_sync_states :: sync_states

text \<open>\<open>WorkspaceSearchResult.as_dict\<close>, and the attributes the relevance selection reads.\<close>

definition search_result_dict :: "search_result \<Rightarrow> dict" where
  "search_result_dict r =
     [(''workspace_item_id'', JStr (string_of_nat (sr_item r))), (''service'', JStr (sr_service r)),
      (''external_resource_id'', JStr (sr_external_id r)), (''title'', JStr (sr_title r)),
      (''chunk_text'', JStr (sr_chunk_text r)), (''score'', JFloat (sr_score r)),
      (''metadata'', JObj (sr_metadata r)), (''indexed_at'', JStr (isoformat (sr_indexed r)))]"

definition search_result_value :: "search_result \<Rightarrow> string \<Rightarrow> json" where
  "search_result_value r k = py_get
     [(''service'', JStr (sr_service r)), (''external_resource_id'', JStr (sr_external_id r)),
      (''title'', JStr (sr_title r)), (''chunk_text'', JStr (sr_chunk_text r)),
      (''score'', JFloat (sr_score r)), (''metadata'', JObj (sr_metadata r))] k"

section \<open>The query\<close>

definition hybrid_score :: "search_env \<Rightarrow> rat list \<Rightarrow> string \<Rightarrow> search_row \<Rightarrow> rat" where
  "hybrid_score env v query row =
     (let fl = round_float env; c = snd row in
      fl (fl (fl (1 - cosine_distance env (dc_embedding c) v) * (75 / 100)) +
          fl (keyword_rank env (dc_text c) query * (25 / 100))))"

text \<open>\<open>metadata ->> key\<close> and \<open>COALESCE\<close>.\<close>

definition astext :: "search_env \<Rightarrow> dict \<Rightarrow> string \<Rightarrow> string option" where
  "astext env m k =
     (case dict_get m k of
        None \<Rightarrow> None
      | Some JNull \<Rightarrow> None
      | Some (JStr s) \<Rightarrow> Some s
      | Some v \<Rightarrow> Some (json_text env v))"

definition coalesce :: "'a option \<Rightarrow> 'a option \<Rightarrow> 'a option" where
  "coalesce a b = (case a of None \<Rightarrow> b | Some x \<Rightarrow> Some x)"

definition date_value :: "search_env \<Rightarrow> dict \<Rightarrow> string option" where
  "date_value env m =
     coalesce (astext env m ''start'') (coalesce (astext env m ''date'') (astext env m ''modified_time''))"

text \<open>A filter that is empty or absent adds no condition; a condition on \<open>NULL\<close> does not hold.\<close>

definition given :: "string option \<Rightarrow> (string \<Rightarrow> bool) \<Rightarrow> bool" where
  "given f p = (case f of None \<Rightarrow> True | Some s \<Rightarrow> s = [] \<or> p s)"

definition holds :: "'a option \<Rightarrow> ('a \<Rightarrow> bool) \<Rightarrow> bool" where
  "holds v p = (case v of None \<Rightarrow> False | Some x \<Rightarrow> p x)"

definition requested_services :: "search_filters \<Rightarrow> string list" where
  "requested_services f =
     (case f_services f of None \<Rightarrow> all_services | Some [] \<Rightarrow> all_services | Some ss \<Rightarrow> remdups ss)"

definition has_attendee :: "dict \<Rightarrow> string \<Rightarrow> bool" where
  "has_attendee m a = (case dict_get m ''attendees'' of Some (JList xs) \<Rightarrow> JStr a \<in> set xs | _ \<Rightarrow> False)"

definition row_matches :: "search_env \<Rightarrow> nat \<Rightarrow> search_filters \<Rightarrow> search_row \<Rightarrow> bool" where
  "row_matches env user f row =
     (case row of (r, c) \<Rightarrow>
        let m = wi_metadata r in
        wi_id r = dc_item c \<and> dc_user c = user \<and> wi_user r = user \<and> wi_deleted r = None \<and>
        (case f_services f of None \<Rightarrow> True | Some ss \<Rightarrow> ss = [] \<or> wi_service r \<in> set ss) \<and>
        given (f_sender f) (\<lambda>s. holds (astext env m ''sender'') (\<lambda>v. ilike env v (''%'' @ s @ ''%''))) \<and>
        given (f_mime_type f) (\<lambda>s. astext env m ''mime_type'' = Some s) \<and>
        given (f_attendee f) (has_attendee m) \<and>
        given (f_date_from f) (\<lambda>s. holds (date_value env m) (\<lambda>v. \<not> text_less env v s)) \<and>
        given (f_date_to f) (\<lambda>s. holds (date_value env m) (\<lambda>v. text_less env v s)))"

definition matching_rows :: "search_env \<Rightarrow> nat \<Rightarrow> search_filters \<Rightarrow> index_db \<Rightarrow> search_row list" where
  "matching_rows env user f db =
     filter (row_matches env user f) (concat (map (\<lambda>c. map (\<lambda>r. (r, c)) (items db)) (chunks db)))"

definition result_of_row :: "search_env \<Rightarrow> rat list \<Rightarrow> string \<Rightarrow> search_row \<Rightarrow> search_result" where
  "result_of_row env v query row =
     (case row of (r, c) \<Rightarrow>
        \<lparr>sr_item = wi_id r, sr_service = wi_service r, sr_external_id = wi_external_id r,
         sr_title = wi_title r, sr_chunk_text = dc_text c, sr_score = hybrid_score env v query row,
         sr_metadata = wi_metadata r, sr_indexed = wi_indexed r\<rparr>)"

text \<open>The recorded state of each requested service, \<open>missing\<close> where there is none.\<close>

definition search_sync_states :: "nat \<Rightarrow> string list \<Rightarrow> sync_row list \<Rightarrow> sync_states" where
  "search_sync_states user requested rows =
     (let found = dict_of [] (map (\<lambda>s. (ss_service s, ss_status s, ss_last_success s))
            (filter (\<lambda>s. ss_user s = user \<and> ss_service s \<in> set requested) rows))
      in found @ map (\<lambda>name. (name, ''missing'', None)) (filter (\<lambda>name. \<not> has_key found name) requested))"

definition search ::
  "search_env \<Rightarrow> index_db \<Rightarrow> sync_row list \<Rightarrow> nat \<Rightarrow> string \<Rightarrow> int \<Rightarrow> search_filters \<Rightarrow>
   py_error + search_response" where
  "search env db states user query top_k f =
     (if py_strip query = [] then Inl (ValueError ''query must be non-empty'')
      else if \<not> (1 \<le> top_k \<and> top_k \<le> 50) then Inl (ValueError ''top_k must be between 1 and 50'')
      else
        (case query_vector env query of
           Inl e \<Rightarrow> Inl e
         | Inr (v, hit) \<Rightarrow>
             (let rows = take (nat (top_k * 5))
                    (order_desc env (hybrid_score env v query) (matching_rows env user f db));
                  results = first_of_keys sr_item (top_k * 5) [] 0 (map (result_of_row env v query) rows)
              in Inr
                \<lparr>resp_results =
                   select_relevant_candidates (print_float env) (round_float env) search_result_value
                     results query top_k (case f_services f of None \<Rightarrow> [] | Some ss \<Rightarrow> ss) (round_float env (30 / 100)),
                 resp_duration = fst (durations env),
                 resp_embedding_duration = fst (snd (durations env)),
                 resp_database_duration = snd (snd (durations env)),
                 resp_cache_hit = hit,
                 resp_sync_states = search_sync_states user (requested_services f) states\<rparr>)))"

section \<open>What PostgreSQL promises of the order of rows\<close>

locale row_order =
  fixes order :: "(search_row \<Rightarrow> rat) \<Rightarrow> search_row list \<Rightarrow> search_row list"
  assumes order_perm: "mset (order f rows) = mset rows"
    and order_sorted: "sorted_wrt (\<lambda>a b. f b \<le> f a) (order f rows)"
begin

lemma order_set: "set (order f rows) = set rows"
  using order_perm by (metis mset_eq_setD)

lemma taken_set: "set (take n (order f rows)) \<subseteq> set rows"
  using order_set set_take_subset by fastforce

text \<open>What is cut off by the limit scores no better than what is kept.\<close>

lemma dropped_worse:
  assumes "a \<in> set (take n (order f rows))" "b \<in> set (drop n (order f rows))"
  shows "f b \<le> f a"
proof -
  have "sorted_wrt (\<lambda>a b. f b \<le> f a) (take n (order f rows) @ drop n (order f rows))"
    using order_sorted [of f rows] by simp
  with assms show ?thesis unfolding sorted_wrt_append by blast
qed

end

text \<open>A stable sort is one such order.\<close>

definition stable_order :: "(search_row \<Rightarrow> rat) \<Rightarrow> search_row list \<Rightarrow> search_row list" where
  "stable_order f rows = sort_key (\<lambda>r. - f r) rows"

interpretation stable: row_order stable_order
proof
  show "mset (stable_order f rows) = mset rows" for f rows by (simp add: stable_order_def)
  show "sorted_wrt (\<lambda>a b. f b \<le> f a) (stable_order f rows)" for f rows
    using sorted_sort_key [of "\<lambda>r. - f r" rows] by (simp add: stable_order_def sorted_map)
qed

section \<open>A search sees the user's own rows only\<close>

definition own_items :: "nat \<Rightarrow> index_db \<Rightarrow> item_row list" where
  "own_items user db = filter (\<lambda>r. wi_user r = user) (items db)"

definition own_chunks :: "nat \<Rightarrow> index_db \<Rightarrow> chunk_row list" where
  "own_chunks user db = filter (\<lambda>c. dc_user c = user) (chunks db)"

lemma row_matches_own: "row_matches env user f (r, c) \<Longrightarrow> wi_user r = user \<and> dc_user c = user"
  by (simp add: row_matches_def Let_def)

lemma matching_rows_own:
  "matching_rows env user f db =
     filter (row_matches env user f)
       (concat (map (\<lambda>c. map (\<lambda>r. (r, c)) (own_items user db)) (own_chunks user db)))"
proof -
  have row: "filter (row_matches env user f) (map (\<lambda>r. (r, c)) rs) =
      (if dc_user c = user
       then filter (row_matches env user f) (map (\<lambda>r. (r, c)) (filter (\<lambda>r. wi_user r = user) rs)) else [])"
    for c rs
    using row_matches_own [of env user f _ c] by (induction rs) auto
  have "filter (row_matches env user f) (concat (map (\<lambda>c. map (\<lambda>r. (r, c)) rs) cs)) =
      filter (row_matches env user f)
        (concat (map (\<lambda>c. map (\<lambda>r. (r, c)) (filter (\<lambda>r. wi_user r = user) rs)) (filter (\<lambda>c. dc_user c = user) cs)))"
    for rs cs
    using row [of _ rs] by (induction cs) auto
  then show ?thesis by (simp add: matching_rows_def own_items_def own_chunks_def)
qed

lemma search_cong:
  assumes "own_items user db = own_items user db'" and "own_chunks user db = own_chunks user db'"
  shows "search env db states user query top_k f = search env db' states user query top_k f"
proof -
  have "matching_rows env user f db = matching_rows env user f db'"
    using assms by (simp only: matching_rows_own [of env user f])
  then show ?thesis by (simp only: search_def)
qed

lemma search_sync_states_own:
  "search_sync_states user requested rows =
     search_sync_states user requested (filter (\<lambda>s. ss_user s = user) rows)"
  by (simp add: search_sync_states_def conj_commute)

lemma search_Inr:
  assumes "search env db states user query top_k f = Inr resp"
  obtains v hit rows results where "query_vector env query = Inr (v, hit)" "1 \<le> top_k" "top_k \<le> 50"
    "rows = take (nat (top_k * 5)) (order_desc env (hybrid_score env v query) (matching_rows env user f db))"
    "results = first_of_keys sr_item (top_k * 5) [] 0 (map (result_of_row env v query) rows)"
    "resp_results resp = select_relevant_candidates (print_float env) (round_float env) search_result_value
       results query top_k (case f_services f of None \<Rightarrow> [] | Some ss \<Rightarrow> ss) (round_float env (30 / 100))"
    "resp_sync_states resp = search_sync_states user (requested_services f) states"
  using assms by (auto simp: search_def Let_def split: if_splits sum.splits)

text \<open>What the filters ask of an item, each only when it is given.\<close>

definition dated :: "search_env \<Rightarrow> dict \<Rightarrow> string \<Rightarrow> bool" where
  "dated env m v \<longleftrightarrow>
     astext env m ''start'' = Some v \<or>
     astext env m ''start'' = None \<and>
       (astext env m ''date'' = Some v \<or>
        astext env m ''date'' = None \<and> astext env m ''modified_time'' = Some v)"

definition passes_filters :: "search_env \<Rightarrow> search_filters \<Rightarrow> item_row \<Rightarrow> bool" where
  "passes_filters env f r \<longleftrightarrow>
     (\<forall>ss. f_services f = Some ss \<and> ss \<noteq> [] \<longrightarrow> wi_service r \<in> set ss) \<and>
     (\<forall>s. f_sender f = Some s \<and> s \<noteq> [] \<longrightarrow>
        (\<exists>v. astext env (wi_metadata r) ''sender'' = Some v \<and> ilike env v (''%'' @ s @ ''%''))) \<and>
     (\<forall>s. f_mime_type f = Some s \<and> s \<noteq> [] \<longrightarrow> astext env (wi_metadata r) ''mime_type'' = Some s) \<and>
     (\<forall>s. f_attendee f = Some s \<and> s \<noteq> [] \<longrightarrow>
        (\<exists>xs. dict_get (wi_metadata r) ''attendees'' = Some (JList xs) \<and> JStr s \<in> set xs)) \<and>
     (\<forall>s. f_date_from f = Some s \<and> s \<noteq> [] \<longrightarrow> (\<exists>v. dated env (wi_metadata r) v \<and> \<not> text_less env v s)) \<and>
     (\<forall>s. f_date_to f = Some s \<and> s \<noteq> [] \<longrightarrow> (\<exists>v. dated env (wi_metadata r) v \<and> text_less env v s))"

lemma dated_iff: "dated env m v \<longleftrightarrow> date_value env m = Some v"
  by (auto simp: dated_def date_value_def coalesce_def split: option.splits)

lemma given_iff: "given g p \<longleftrightarrow> (\<forall>s. g = Some s \<and> s \<noteq> [] \<longrightarrow> p s)"
  by (auto simp: given_def split: option.splits)

lemma holds_iff: "holds v p \<longleftrightarrow> (\<exists>x. v = Some x \<and> p x)"
  by (auto simp: holds_def split: option.splits)

lemma has_attendee_iff: "has_attendee m a \<longleftrightarrow> (\<exists>xs. dict_get m ''attendees'' = Some (JList xs) \<and> JStr a \<in> set xs)"
  by (auto simp: has_attendee_def split: option.splits json.splits)

lemma services_iff:
  "(case f_services f of None \<Rightarrow> True | Some ss \<Rightarrow> ss = [] \<or> x \<in> set ss) \<longleftrightarrow>
     (\<forall>ss. f_services f = Some ss \<and> ss \<noteq> [] \<longrightarrow> x \<in> set ss)"
  by (auto split: option.splits)

lemma row_matches_iff:
  "row_matches env user f (r, c) \<longleftrightarrow>
     wi_id r = dc_item c \<and> dc_user c = user \<and> wi_user r = user \<and> wi_deleted r = None \<and> passes_filters env f r"
  by (simp only: row_matches_def Let_def prod.case passes_filters_def dated_iff given_iff holds_iff has_attendee_iff
      services_iff)

text \<open>The item and the chunk a result was made from.\<close>

definition found_in :: "search_env \<Rightarrow> index_db \<Rightarrow> nat \<Rightarrow> search_filters \<Rightarrow> search_result \<Rightarrow> bool" where
  "found_in env db user f s \<longleftrightarrow>
     (\<exists>r \<in> set (items db). \<exists>c \<in> set (chunks db).
        wi_user r = user \<and> dc_user c = user \<and> dc_item c = wi_id r \<and> wi_deleted r = None \<and> passes_filters env f r \<and>
        sr_item s = wi_id r \<and> sr_service s = wi_service r \<and> sr_external_id s = wi_external_id r \<and>
        sr_title s = wi_title r \<and> sr_chunk_text s = dc_text c \<and> sr_metadata s = wi_metadata r \<and>
        sr_indexed s = wi_indexed r)"

lemma matching_row_found:
  assumes "row \<in> set (matching_rows env user f db)"
  shows "found_in env db user f (result_of_row env v query row)"
proof -
  obtain r c where row: "row = (r, c)" by (cases row)
  with assms have "r \<in> set (items db)" "c \<in> set (chunks db)" "row_matches env user f (r, c)"
    by (auto simp: matching_rows_def)
  then show ?thesis unfolding found_in_def row
    by (intro bexI [of _ r] bexI [of _ c]) (simp_all add: row_matches_iff result_of_row_def)
qed

lemma distinct_subseq:
  assumes "subseq xs ys" and "distinct ys"
  shows "distinct xs"
proof -
  have "set xs \<subseteq> set ys \<and> distinct xs" using assms by (induction rule: list_emb.induct) auto
  then show ?thesis ..
qed

lemma selection_distinct:
  assumes "distinct (map g cs)"
  shows "distinct (map g (select_relevant_candidates fr fl val cs query top_k requested m))"
proof -
  let ?ranked = "sort_key (\<lambda>c. - relevance_score fr fl val query c) (filter (relevant_to fr fl val query requested m) cs)"
  have "distinct (map g (filter (relevant_to fr fl val query requested m) cs))" using assms by (rule distinct_map_filter)
  then have "distinct (map g ?ranked)" by (simp add: distinct_map)
  then show ?thesis unfolding selection_eq using first_of_keys_subseq by (blast intro: subseq_map distinct_subseq)
qed

text \<open>
  C18. With any order of rows that PostgreSQL may choose, a search returns at most \<open>top_k\<close> results,
  of different items. Each comes from an item and a chunk of the searching user, not deleted, which
  passes every filter given: the service, the sender, the type of the file, the attendee, and the
  dates.
\<close>

theorem search_results_own:
  assumes "search env db states user query top_k f = Inr resp" and "row_order (order_desc env)"
  shows "int (length (resp_results resp)) \<le> top_k \<and> distinct (map sr_item (resp_results resp)) \<and>
    (\<forall>s \<in> set (resp_results resp). found_in env db user f s)"
proof -
  from assms(1) obtain v hit rows results where k: "1 \<le> top_k"
    and rows: "rows = take (nat (top_k * 5)) (order_desc env (hybrid_score env v query) (matching_rows env user f db))"
    and results: "results = first_of_keys sr_item (top_k * 5) [] 0 (map (result_of_row env v query) rows)"
    and resp: "resp_results resp = select_relevant_candidates (print_float env) (round_float env)
       search_result_value results query top_k (case f_services f of None \<Rightarrow> [] | Some ss \<Rightarrow> ss) (round_float env (30 / 100))"
    by (rule search_Inr)
  have "set rows \<subseteq> set (matching_rows env user f db)"
    unfolding rows by (rule row_order.taken_set [OF assms(2)])
  moreover have "set results \<subseteq> result_of_row env v query ` set rows"
    unfolding results using first_of_keys_set by (metis set_map)
  ultimately have "\<forall>s \<in> set results. found_in env db user f s" using matching_row_found by blast
  moreover have "set (resp_results resp) \<subseteq> set results" unfolding resp by (rule selection_subset)
  moreover have "int (length (resp_results resp)) \<le> top_k"
    unfolding resp by (rule selection_length) (use k in simp)
  moreover have "distinct (map sr_item (resp_results resp))"
    unfolding resp results by (rule selection_distinct) (simp only: first_of_keys_keys)
  ultimately show ?thesis by blast
qed

lemma index_item_own:
  assumes ok: "index_ok db" and run: "index_item e other now i db = Some (Inr (ident, db'))" and "other \<noteq> user"
  shows "own_items user db' = own_items user db" "own_chunks user db' = own_chunks user db"
proof -
  note r = index_item_frame [OF ok run]
  have other: "wi_user x = other" if "x \<in> set (items d)" "wi_id x = ident" "d \<in> {db, db'}" for x d
    using r(5) that by blast
  have chunk: "dc_user c = other" if "c \<in> set (chunks d)" "dc_item c = ident" "d \<in> {db, db'}" for c d
  proof -
    from that r(1) ok have "index_ok d" by blast
    with that obtain x where "x \<in> set (items d)" "wi_id x = dc_item c" "wi_user x = dc_user c"
      unfolding index_ok_def by blast
    with other that show ?thesis by metis
  qed
  have items: "own_items user d = filter (\<lambda>x. wi_user x = user) (filter (\<lambda>x. wi_id x \<noteq> ident) (items d))"
    if "d \<in> {db, db'}" for d
    unfolding own_items_def filter_filter using other that \<open>other \<noteq> user\<close> by (intro filter_cong) auto
  show "own_items user db' = own_items user db"
    unfolding items [OF insertI1] items [OF insertI2 [OF singletonI]] r(2) ..
  have chunks: "own_chunks user d = filter (\<lambda>c. dc_user c = user) (filter (\<lambda>c. dc_item c \<noteq> ident) (chunks d))"
    if "d \<in> {db, db'}" for d
    unfolding own_chunks_def filter_filter using chunk that \<open>other \<noteq> user\<close> by (intro filter_cong) auto
  show "own_chunks user db' = own_chunks user db"
    unfolding chunks [OF insertI1] chunks [OF insertI2 [OF singletonI]] r(3) ..
qed

text \<open>
  C19. Tenants do not interfere: two indexes and two tables of sync states that agree on the rows of
  a user give the same answer to every search of the user, whatever the items, the chunks and the
  states of others.
\<close>

theorem search_not_affected_by_others:
  assumes "filter (\<lambda>r. wi_user r = user) (items db) = filter (\<lambda>r. wi_user r = user) (items db')"
    and "filter (\<lambda>c. dc_user c = user) (chunks db) = filter (\<lambda>c. dc_user c = user) (chunks db')"
    and "filter (\<lambda>s. ss_user s = user) states = filter (\<lambda>s. ss_user s = user) states'"
  shows "search env db states user query top_k f = search env db' states' user query top_k f"
proof -
  have "search env db states user query top_k f = search env db' states user query top_k f"
    using assms(1,2) by (intro search_cong) (simp_all only: own_items_def own_chunks_def)
  moreover have "search_sync_states user requested states = search_sync_states user requested states'" for requested
    using search_sync_states_own assms(3) by metis
  ultimately show ?thesis by (simp only: search_def)
qed

definition sample_env :: search_env where
  "sample_env =
     \<lparr>query_vector = (\<lambda>_. Inr ([1], False)), cosine_distance = (\<lambda>_ _. 1 / 2), keyword_rank = (\<lambda>_ _. 1),
      ilike = (\<lambda>_ _. True), json_text = (\<lambda>_. []), text_less = (\<lambda>_ _. False), order_desc = stable_order,
      round_float = (\<lambda>r. r), print_float = (\<lambda>_. []), durations = (0, 0, 0)\<rparr>"

definition sample_index :: index_db where
  "sample_index =
     \<lparr>items = [new_item 0 7 sample_instant sample_item],
      chunks = [\<lparr>dc_item = 0, dc_user = 7, dc_index = 0, dc_text = ''Hello world'', dc_embedding = [1]\<rparr>],
      next_item_id = 1\<rparr>"

definition sample_filters :: search_filters where
  "sample_filters = no_filters\<lparr>f_services := Some [''gmail''], f_sender := Some ''alice''\<rparr>"

lemma sample_search: "\<exists>resp. search sample_env sample_index [] 7 ''hello'' 5 sample_filters = Inr resp"
proof -
  have "py_strip ''hello'' \<noteq> []" by code_simp
  then show ?thesis by (simp add: search_def sample_env_def Let_def)
qed

lemma search_results_own_witness:
  "\<exists>resp. search sample_env sample_index [] 7 ''hello'' 5 sample_filters = Inr resp \<and>
     (\<forall>s \<in> set (resp_results resp). found_in sample_env sample_index 7 sample_filters s)"
proof -
  obtain resp where resp: "search sample_env sample_index [] 7 ''hello'' 5 sample_filters = Inr resp"
    using sample_search by blast
  have "row_order (order_desc sample_env)" using stable.row_order_axioms by (simp add: sample_env_def)
  with search_results_own [OF resp] resp show ?thesis by blast
qed

lemma search_not_affected_by_others_witness:
  "search sample_env sample_index [] 8 ''hello'' 5 no_filters = search sample_env empty_index [] 8 ''hello'' 5 no_filters"
proof (rule search_not_affected_by_others)
  note own = index_item_own [OF empty_index_ok sample_indexed, of 8]
  show "filter (\<lambda>r. wi_user r = 8) (items sample_index) = filter (\<lambda>r. wi_user r = 8) (items empty_index)"
    "filter (\<lambda>c. dc_user c = 8) (chunks sample_index) = filter (\<lambda>c. dc_user c = 8) (chunks empty_index)"
    using own by (simp_all add: own_items_def own_chunks_def sample_index_def)
qed simp

end
