(* ===== verification/Compaction.thy ===== *)
theory Compaction
  imports Contracts Py_Text
begin

text \<open>
  \<open>app/orchestration/compaction.py\<close>: what is kept of a step's data before it is given to the
  response synthesizer. The four kinds of collection are tried in order; each kept item is a
  dict of whitelisted keys. \<open>compaction_commutes\<close> describes the whole function through the
  collection it finds, and the later facts are read off it.
\<close>

section \<open>The collection of a step's data\<close>

definition list_under :: "dict \<Rightarrow> string \<Rightarrow> json list option" where
  "list_under d k = (case dict_get d k of Some (JList xs) \<Rightarrow> Some xs | _ \<Rightarrow> None)"

definition flag :: "dict \<Rightarrow> string \<Rightarrow> bool" where
  "flag d k = py_truthy (dict_get_or d k (JBool False))"

section \<open>Compaction\<close>

definition select_fields :: "json list \<Rightarrow> string list \<Rightarrow> dict list" where
  "select_fields items names = map (select_keys names) (objects (take 20 items))"

definition compact_event :: "dict \<Rightarrow> dict" where
  "compact_event event =
     (let kept = select_keys [''title'', ''start'', ''end'', ''organizer'', ''status''] event in
      case list_under event ''attendees'' of
        None \<Rightarrow> kept
      | Some attendees \<Rightarrow>
          dict_set ''attendee_count'' (JInt (int (length attendees)))
            (dict_set ''attendees'' (JList (take 5 attendees)) kept))"

definition compact_events :: "json list \<Rightarrow> dict list" where
  "compact_events events = map compact_event (objects (take 20 events))"

definition compact_file :: "dict \<Rightarrow> dict" where
  "compact_file file =
     (let kept = select_keys [''id'', ''name''] file;
          mime_type = dict_get_or file ''mime_type'' (dict_get_or file ''mimeType'' JNull);
          modified_time =
            dict_get_or file ''modified_time'' (dict_get_or file ''modifiedTime'' JNull);
          kept = (if mime_type \<noteq> JNull then dict_set ''mime_type'' mime_type kept else kept)
      in if modified_time \<noteq> JNull then dict_set ''modified_time'' modified_time kept else kept)"

definition compact_search_result :: "dict \<Rightarrow> dict" where
  "compact_search_result result =
     (let kept = select_keys
            [''service'', ''external_resource_id'', ''title'', ''score'', ''source_updated_at'',
             ''retrieval_source''] result in
      case dict_get_or result ''snippet'' (dict_get_or result ''chunk_text'' JNull) of
        JStr s \<Rightarrow> (if py_strip s \<noteq> [] then dict_set ''snippet'' (JStr (take 300 (py_strip s))) kept
                    else kept)
      | _ \<Rightarrow> kept)"

definition set_if_dict :: "dict \<Rightarrow> string \<Rightarrow> dict \<Rightarrow> dict" where
  "set_if_dict d k kept =
     (case dict_get d k of Some (JObj v) \<Rightarrow> dict_set k (JObj v) kept | _ \<Rightarrow> kept)"

definition compact_search_data :: "dict \<Rightarrow> json list \<Rightarrow> dict" where
  "compact_search_data d results =
     (let kept =
        [(''results'', JList (map (\<lambda>r. JObj (compact_search_result r)) (objects (take 20 results)))),
         (''searched_services'', dict_get_or d ''searched_services'' (JList [])),
         (''index_stale'', JBool (flag d ''index_stale'')),
         (''native_fallback_recommended'', JBool (flag d ''native_fallback_recommended'')),
         (''native_fallback_performed'', JBool (flag d ''native_fallback_performed''))]
      in set_if_dict d ''freshness'' (set_if_dict d ''retrieval_timing_ms'' kept))"

definition compact_result_data :: "dict \<Rightarrow> dict" where
  "compact_result_data d =
     (case list_under d ''events'' of
        Some events \<Rightarrow> [(''events'', JList (map JObj (compact_events events)))]
      | None \<Rightarrow>
     (case list_under d ''emails'' of
        Some emails \<Rightarrow>
          [(''emails'', JList (map JObj (select_fields emails
              [''id'', ''thread_id'', ''subject'', ''sender'', ''date'', ''snippet''])))]
      | None \<Rightarrow>
     (case list_under d ''files'' of
        Some files \<Rightarrow> [(''files'', JList (map (\<lambda>f. JObj (compact_file f)) (objects (take 20 files))))]
      | None \<Rightarrow>
     (case list_under d ''results'' of
        Some results \<Rightarrow> compact_search_data d results
      | None \<Rightarrow> d))))"

definition compact_results_for_synthesis :: "step_result list \<Rightarrow> step_result list" where
  "compact_results_for_synthesis results =
     map (\<lambda>r. r\<lparr>data := compact_result_data (data r)\<rparr>) results"

section \<open>The collection is compacted item by item\<close>

text \<open>\<open>_primary_collection\<close> of \<open>synthesis.py\<close>.\<close>

definition collection_names :: "string list" where
  "collection_names = [''events'', ''emails'', ''files'', ''results'']"

fun first_collection :: "string list \<Rightarrow> dict \<Rightarrow> (string \<times> json list) option" where
  "first_collection [] d = None"
| "first_collection (k # ks) d =
     (case list_under d k of Some xs \<Rightarrow> Some (k, xs) | None \<Rightarrow> first_collection ks d)"

definition primary_collection :: "dict \<Rightarrow> (string \<times> json list) option" where
  "primary_collection d = first_collection collection_names d"

definition compact_item :: "string \<Rightarrow> dict \<Rightarrow> dict" where
  "compact_item k =
     (if k = ''events'' then compact_event
      else if k = ''emails'' then
        select_keys [''id'', ''thread_id'', ''subject'', ''sender'', ''date'', ''snippet'']
      else if k = ''files'' then compact_file
      else compact_search_result)"

definition kept_keys :: "string \<Rightarrow> string list" where
  "kept_keys k =
     (if k = ''events'' then
        [''title'', ''start'', ''end'', ''organizer'', ''status'', ''attendees'', ''attendee_count'']
      else if k = ''emails'' then [''id'', ''thread_id'', ''subject'', ''sender'', ''date'', ''snippet'']
      else if k = ''files'' then [''id'', ''name'', ''mime_type'', ''modified_time'']
      else [''service'', ''external_resource_id'', ''title'', ''score'', ''source_updated_at'',
            ''retrieval_source'', ''snippet''])"

lemma list_under_Cons [simp]:
  "list_under ((k', v) # d) k =
     (if k' = k then (case v of JList xs \<Rightarrow> Some xs | _ \<Rightarrow> None) else list_under d k)"
  by (simp add: list_under_def)

lemma list_under_Nil [simp]: "list_under [] k = None"
  by (simp add: list_under_def)

lemma list_under_set_if_dict [simp]:
  "k' \<noteq> k \<Longrightarrow> list_under (set_if_dict d k' c) k = list_under c k"
  by (auto simp: list_under_def set_if_dict_def dict_get_set split: option.splits json.splits)

lemma compaction_collection:
  "primary_collection (compact_result_data d) =
     map_option (\<lambda>(k, xs). (k, map (\<lambda>o1. JObj (compact_item k o1)) (objects (take 20 xs))))
       (primary_collection d)"
  by (simp add: primary_collection_def collection_names_def compact_result_data_def
      compact_search_data_def Let_def compact_events_def select_fields_def compact_item_def comp_def
      split: option.splits)

lemma compact_event_keys: "keys_in (compact_event d) (kept_keys ''events'')"
  unfolding compact_event_def kept_keys_def Let_def
  by (cases "list_under d ''attendees''") (simp_all add: keys_in_intros)

lemma compact_file_keys: "keys_in (compact_file d) (kept_keys ''files'')"
  unfolding compact_file_def kept_keys_def Let_def by (simp add: keys_in_intros)

lemma compact_search_result_keys: "keys_in (compact_search_result d) (kept_keys ''results'')"
  unfolding compact_search_result_def kept_keys_def Let_def
  by (cases "dict_get_or d ''snippet'' (dict_get_or d ''chunk_text'' JNull)")
    (simp_all add: keys_in_intros)

lemma compact_item_keys:
  "k \<in> set collection_names \<Longrightarrow> keys_in (compact_item k d) (kept_keys k)"
  using compact_event_keys [of d] compact_file_keys [of d] compact_search_result_keys [of d]
  by (auto simp: collection_names_def compact_item_def kept_keys_def keys_in_select)

lemma first_collection_in: "first_collection ks d = Some (k, xs) \<Longrightarrow> k \<in> set ks \<and> list_under d k = Some xs"
  by (induction ks) (auto split: option.splits)

lemma primary_collection_Some:
  "primary_collection d = Some (k, xs) \<Longrightarrow> k \<in> set collection_names \<and> list_under d k = Some xs"
  unfolding primary_collection_def by (rule first_collection_in)

lemma compaction_keeps_data: "primary_collection d = None \<Longrightarrow> compact_result_data d = d"
  by (auto simp: primary_collection_def collection_names_def compact_result_data_def
      split: option.splits)

section \<open>Properties\<close>

text \<open>
  What the synthesizer is given of a step's collection: the collection of the same kind, of
  at most 20 items, each a dict with whitelisted keys only, made item by item from the objects
  among the first 20 of the original in their order; data with no collection is passed on
  unchanged.
\<close>

theorem compaction_keeps_whitelisted:
  "case primary_collection d of
     None \<Rightarrow> compact_result_data d = d
   | Some (k, xs) \<Rightarrow>
       primary_collection (compact_result_data d) =
         Some (k, map (\<lambda>o1. JObj (compact_item k o1)) (objects (take 20 xs))) \<and>
       length (objects (take 20 xs)) \<le> 20 \<and>
       list_all (\<lambda>o1. keys_in (compact_item k o1) (kept_keys k)) (objects (take 20 xs))"
proof (cases "primary_collection d")
  case None
  then show ?thesis by (simp add: compaction_keeps_data)
next
  case (Some p)
  obtain k xs where p: "p = (k, xs)" by (cases p)
  from Some p have "k \<in> set collection_names" by (blast dest: primary_collection_Some)
  moreover have "length (objects (take 20 xs)) \<le> 20"
    using length_objects [of "take 20 xs"] by simp
  ultimately show ?thesis using Some p by (simp add: compaction_collection compact_item_keys list_all_iff)
qed

end
