(* ===== verification/Workspace_Agent.thy ===== *)
theory Workspace_Agent
  imports Search Gmail_Agent Drive_Agent Compaction
begin

text \<open>
  \<open>app/agents/workspace.py\<close>: the query made from a text or a calendar event, the search of the
  index with the freshness of its services, and the fallback to the Gmail and Drive agents.

  Parameters: \<open>find_items\<close>, the search of the index for the agent's user (\<open>Search.search\<close> on its tables),
  the clock, \<open>html.unescape\<close>, and the Google services behind the two native agents. Arguments are
  those the strict validation lets through: a filter is a string or absent, services are strings.
\<close>

section \<open>Text\<close>

definition py_rstrip :: "string \<Rightarrow> string" where
  "py_rstrip s = rev (dropWhile py_isspace (rev s))"

definition py_lstrip :: "string \<Rightarrow> string" where
  "py_lstrip s = dropWhile py_isspace s"

fun split_on :: "(char \<Rightarrow> bool) \<Rightarrow> string \<Rightarrow> string \<Rightarrow> string list" where
  "split_on p w [] = [w]"
| "split_on p w (c # cs) = (if p c then w # split_on p [] cs else split_on p (w @ [c]) cs)"

text \<open>\<open>re.split\<close> at \<open>|\<close>, a dash or a colon, with the white space around it.\<close>

definition is_title_separator :: "char \<Rightarrow> bool" where
  "is_title_separator c \<longleftrightarrow> c = CHR ''|'' \<or> c = em_dash \<or> c = en_dash \<or> c = CHR '':''"

definition title_segments :: "string \<Rightarrow> string list" where
  "title_segments s =
     (let raw = split_on is_title_separator [] s in
      if length raw = 1 then raw
      else [py_rstrip (hd raw)] @ map py_strip (butlast (tl raw)) @ [py_lstrip (last raw)])"

text \<open>\<open>re.sub(r"<[^>]+>", " ", s)\<close>.\<close>

function strip_tags :: "string \<Rightarrow> string" where
  "strip_tags [] = []"
| "strip_tags (c # cs) =
     (if c = CHR ''<'' \<and> takeWhile (\<lambda>x. x \<noteq> CHR ''>'') cs \<noteq> [] \<and> CHR ''>'' \<in> set cs
      then CHR '' '' # strip_tags (tl (dropWhile (\<lambda>x. x \<noteq> CHR ''>'') cs))
      else c # strip_tags cs)"
  by pat_completeness auto
termination
  by (relation "measure length") (auto simp: less_Suc_eq_le intro: order.trans [OF diff_le_self length_dropWhile_le])

definition is_newline :: "char \<Rightarrow> bool" where
  "is_newline c \<longleftrightarrow> c = CHR 0x0D \<or> c = CHR 0x0A"

text \<open>
  \<open>re.split(r"[\r\n]+|(?<=[.!?])\s+", s)\<close>: \<open>ended\<close> says that the character before is a full stop,
  an exclamation or a question mark, \<open>w\<close> is the piece so far.
\<close>

function split_sentences :: "bool \<Rightarrow> string \<Rightarrow> string \<Rightarrow> string list" where
  "split_sentences ended w [] = [w]"
| "split_sentences ended w (c # cs) =
     (if is_newline c then w # split_sentences False [] (dropWhile is_newline cs)
      else if ended \<and> py_isspace c then w # split_sentences False [] (dropWhile py_isspace cs)
      else split_sentences (c \<in> set ''.!?'') (w @ [c]) cs)"
  by pat_completeness auto
termination
  by (relation "measure (\<lambda>(_, _, s). length s)") (auto simp: less_Suc_eq_le length_dropWhile_le)

definition boilerplate :: "string list" where
  "boilerplate =
     [''http://'', ''https://'', ''www.'', ''meet.google.'', ''zoom.'', ''teams.microsoft.com'',
      ''password'', ''passcode'', ''dialin'', ''dial-in'', ''dial in'', ''join meeting'',
      ''join the meeting'', ''confidential'', ''disclaimer'', ''unsubscribe'', ''do not reply'',
      ''kind regards'', ''best regards'', ''sincerely'']"

definition is_boilerplate :: "string \<Rightarrow> bool" where
  "is_boilerplate s = list_ex (\<lambda>phrase. py_in phrase (py_lower s)) boilerplate"

fun collect_useful :: "string list \<Rightarrow> string list \<Rightarrow> string list" where
  "collect_useful useful [] = useful"
| "collect_useful useful (candidate # rest) =
     (let normalized = normalize_space candidate in
      if length normalized < 3 \<or> is_boilerplate normalized then collect_useful useful rest
      else
        (let useful = useful @ [normalized] in
         if sum_list (map length useful) \<ge> 350 \<or> length useful = 4 then useful
         else collect_useful useful rest))"

definition compact_description :: "(string \<Rightarrow> string) \<Rightarrow> string \<Rightarrow> string" where
  "compact_description unescape txt =
     py_rstrip (take 400 (py_join '' ''
       (collect_useful [] (split_sentences False [] (unescape (strip_tags txt))))))"

section \<open>The query\<close>

text \<open>A string that is not blank.\<close>

definition text_of :: "json \<Rightarrow> string option" where
  "text_of v = (case v of JStr s \<Rightarrow> (if py_strip s \<noteq> [] then Some s else None) | _ \<Rightarrow> None)"

fun add_segments :: "string list \<Rightarrow> string list \<Rightarrow> string list" where
  "add_segments parts [] = parts"
| "add_segments parts (s # ss) =
     (if length (py_split s) \<ge> 2 \<and> s \<notin> set parts then add_segments (parts @ [s]) ss
      else add_segments parts ss)"

definition title_parts :: "dict \<Rightarrow> string list" where
  "title_parts event =
     (case text_of (py_get event ''title'') of
        None \<Rightarrow> []
      | Some title \<Rightarrow> add_segments [normalize_space title] (title_segments (normalize_space title)))"

definition description_parts :: "(string \<Rightarrow> string) \<Rightarrow> dict \<Rightarrow> string list" where
  "description_parts unescape event =
     (case text_of (py_get event ''description'') of
        None \<Rightarrow> []
      | Some d \<Rightarrow> (if compact_description unescape d \<noteq> [] then [compact_description unescape d] else []))"

definition organizer_parts :: "dict \<Rightarrow> string list" where
  "organizer_parts event =
     (case text_of (py_get event ''organizer'') of None \<Rightarrow> [] | Some s \<Rightarrow> [normalize_space s])"

definition attendee_parts :: "dict \<Rightarrow> string list" where
  "attendee_parts event =
     (case py_get event ''attendees'' of
        JList xs \<Rightarrow> take 3 (map py_strip (List.map_filter text_of xs))
      | _ \<Rightarrow> [])"

definition contextual_query :: "(string \<Rightarrow> string) \<Rightarrow> json \<Rightarrow> py_error + string" where
  "contextual_query unescape v =
     (case text_of v of
        Some s \<Rightarrow> Inr (py_rstrip (take 700 (normalize_space s)))
      | None \<Rightarrow>
          (case v of
             JObj event \<Rightarrow>
               (let parts = title_parts event @ description_parts unescape event @
                      organizer_parts event @ attendee_parts event in
                if parts = [] then Inl (ValueError ''Calendar event context contains no searchable fields'')
                else Inr (py_rstrip (take 700 (normalize_space (py_join '' '' parts)))))
           | _ \<Rightarrow> Inl (ValueError ''workspace query must be a string or Calendar event context'')))"

text \<open>\<open>max(xs, key=f)\<close>: the first of the greatest.\<close>

fun first_max :: "('a \<Rightarrow> nat) \<Rightarrow> 'a \<Rightarrow> 'a list \<Rightarrow> 'a" where
  "first_max f best [] = best"
| "first_max f best (x # xs) = first_max f (if f x > f best then x else best) xs"

definition native_search_text :: "json \<Rightarrow> string \<Rightarrow> bool \<Rightarrow> string" where
  "native_search_text raw_context query prefer_topic =
     (case raw_context of
        JObj event \<Rightarrow>
          (case text_of (py_get event ''title'') of
             Some title \<Rightarrow>
               (let normalized = normalize_space title;
                    segments = filter (\<lambda>s. s \<noteq> []) (map py_strip (title_segments normalized))
                in if prefer_topic \<and> segments \<noteq> []
                   then take 200 (first_max (\<lambda>s. length (py_split s)) (hd segments) (tl segments))
                   else take 200 normalized)
           | None \<Rightarrow> take 200 query)
      | _ \<Rightarrow> take 200 query)"

section \<open>The native fallback\<close>

definition native_result_items :: "string \<Rightarrow> dict \<Rightarrow> dict list" where
  "native_result_items name d =
     (if name = ''gmail'' then
        (case list_under d ''emails'' of
           None \<Rightarrow> []
         | Some xs \<Rightarrow> map (\<lambda>item.
             [(''service'', JStr name), (''external_resource_id'', py_get item ''id''),
              (''title'', dict_get_or item ''subject'' (JStr [])),
              (''snippet'', dict_get_or item ''preview'' (JStr [])),
              (''retrieval_source'', JStr ''native_fallback'')]) (objects xs))
      else
        (case list_under d ''files'' of
           None \<Rightarrow> []
         | Some xs \<Rightarrow> map (\<lambda>item.
             [(''service'', JStr name), (''external_resource_id'', py_get item ''id''),
              (''title'', dict_get_or item ''name'' (JStr [])),
              (''source_updated_at'', py_get item ''modifiedTime''),
              (''retrieval_source'', JStr ''native_fallback'')]) (objects xs)))"

record fallback =
  fb_results :: "dict list"
  fb_performed :: bool
  fb_error :: "dict option"
  fb_source_ids :: "string list"

definition no_fallback :: fallback where
  "no_fallback = \<lparr>fb_results = [], fb_performed = False, fb_error = None, fb_source_ids = []\<rparr>"

text \<open>An exception that leaves an agent is one no caller here catches.\<close>

definition io_agent :: "(google_request list \<Rightarrow> google_request list \<times> agent_outcome) \<Rightarrow> agent_result google_io" where
  "io_agent run hist =
     (case run hist of
        (hist', Returned r) \<Rightarrow> (hist', Inr r)
      | (hist', Raised) \<Rightarrow> (hist', Inl OtherError))"

definition add_native :: "string \<Rightarrow> agent_result \<Rightarrow> fallback \<Rightarrow> fallback" where
  "add_native name r fb =
     (if agent_status r \<noteq> COMPLETED then
        fb\<lparr>fb_error := Some [(''service'', JStr name),
          (''code'', JStr (case agent_error r of None \<Rightarrow> ''operation_failed'' | Some e \<Rightarrow> err_code e))]\<rparr>
      else
        fb\<lparr>fb_performed := True, fb_source_ids := fb_source_ids fb @ source_ids r,
           fb_results := fb_results fb @ native_result_items name (agent_data r)\<rparr>)"

fun native_fallback ::
  "google_api \<Rightarrow> json \<Rightarrow> string \<Rightarrow> json list \<Rightarrow> fallback \<Rightarrow> fallback google_io" where
  "native_fallback api raw query [] fb = io_lift (Inr fb)"
| "native_fallback api raw query (JStr s # rest) fb =
     (if s = ''gmail'' then
        io_bind (io_agent (gmail_execute api ''search_emails''
          [(''keywords'', JStr (native_search_text raw query False)), (''max_results'', JInt 10)])) (\<lambda>r.
        native_fallback api raw query rest (add_native s r fb))
      else if s = ''google_drive'' then
        io_bind (io_agent (drive_execute api ''search_files''
          [(''filename'', JStr (native_search_text raw query True)), (''max_results'', JInt 10)])) (\<lambda>r.
        native_fallback api raw query rest (add_native s r fb))
      else native_fallback api raw query rest fb)"
| "native_fallback api raw query (_ # rest) fb = native_fallback api raw query rest fb"

section \<open>The operation\<close>

text \<open>\<open>int(value)\<close>.\<close>

definition int_text :: "string \<Rightarrow> int option" where
  "int_text s =
     (let t = py_strip s; neg = (t \<noteq> [] \<and> hd t = CHR ''-'');
          body = (if t \<noteq> [] \<and> hd t \<in> set ''+-'' then tl t else t);
          groups = split_on (\<lambda>c. c = CHR ''_'') [] body in
      if list_all (\<lambda>g. g \<noteq> [] \<and> list_all is_ascii_digit g) groups
      then Some ((if neg then -1 else 1) * int (digits_value (concat groups)))
      else None)"

fun int_arg :: "json \<Rightarrow> py_error + int" where
  "int_arg (JInt i) = Inr i"
| "int_arg (JBool b) = Inr (if b then 1 else 0)"
| "int_arg (JFloat r) = Inr (if r < 0 then - \<lfloor>- r\<rfloor> else \<lfloor>r\<rfloor>)"
| "int_arg (JStr s) =
     (case int_text s of
        None \<Rightarrow> Inl (ValueError (''invalid literal for int() with base 10: '' @ repr_string s))
      | Some i \<Rightarrow> Inr i)"
| "int_arg _ = Inl TypeError"

definition text_filter :: "dict \<Rightarrow> string \<Rightarrow> string option" where
  "text_filter args k = (case py_get args k of JStr s \<Rightarrow> Some s | _ \<Rightarrow> None)"

definition services_filter :: "json \<Rightarrow> string list option" where
  "services_filter v =
     (case v of JList xs \<Rightarrow> Some (List.map_filter (\<lambda>x. case x of JStr s \<Rightarrow> Some s | _ \<Rightarrow> None) xs) | _ \<Rightarrow> None)"

definition workspace_filters :: "dict \<Rightarrow> search_filters" where
  "workspace_filters args =
     \<lparr>f_services = services_filter (py_get args ''services''), f_sender = text_filter args ''sender'',
      f_date_from = text_filter args ''date_from'', f_date_to = text_filter args ''date_to'',
      f_mime_type = text_filter args ''mime_type'', f_attendee = text_filter args ''attendee''\<rparr>"

definition workspace_data ::
  "json \<Rightarrow> search_response \<Rightarrow> (string \<times> service_freshness) list \<Rightarrow> bool \<Rightarrow> fallback \<Rightarrow> dict" where
  "workspace_data services resp freshness index_stale fb =
     [(''results'', JList (map (\<lambda>r. JObj (search_result_dict r)) (resp_results resp) @ map JObj (fb_results fb))),
      (''searched_services'', py_or services (JList (map JStr all_services))),
      (''retrieval_duration_ms'', JFloat (resp_duration resp)),
      (''retrieval_timing_ms'', JObj
        [(''embedding'', JFloat (resp_embedding_duration resp)),
         (''database'', JFloat (resp_database_duration resp)),
         (''total'', JFloat (resp_duration resp)),
         (''embedding_cache_hit'', JBool (resp_cache_hit resp)),
         (''embedding_ms'', JFloat (resp_embedding_duration resp)),
         (''database_ms'', JFloat (resp_database_duration resp)),
         (''total_ms'', JFloat (resp_duration resp)),
         (''cache_hit'', JBool (resp_cache_hit resp))]),
      (''index_stale'', JBool index_stale),
      (''freshness'', JObj (map (\<lambda>(name, r). (name, freshness_json r)) freshness)),
      (''native_fallback_recommended'', JBool index_stale),
      (''native_fallback_performed'', JBool (fb_performed fb))] @
     (case fb_error fb of None \<Rightarrow> [] | Some e \<Rightarrow> [(''native_fallback_error'', JObj e)])"

definition is_stale :: "(string \<times> service_freshness) list \<Rightarrow> bool" where
  "is_stale freshness \<longleftrightarrow> freshness = [] \<or> \<not> list_all (\<lambda>(_, r). is_fresh r) freshness"

definition workspace_search ::
  "google_api \<Rightarrow> (string \<Rightarrow> int \<Rightarrow> search_filters \<Rightarrow> py_error + search_response) \<Rightarrow> (string \<Rightarrow> string) \<Rightarrow>
   datetime \<Rightarrow> int \<Rightarrow> dict \<Rightarrow> agent_result google_io" where
  "workspace_search api find_items unescape now stale_after args =
     io_bind (io_lift (subscript (JObj args) ''query'')) (\<lambda>raw.
     io_bind (io_lift (lift_py (contextual_query unescape raw))) (\<lambda>query.
     io_bind (io_lift (lift_py (int_arg (dict_get_or args ''top_k'' (JInt 5))))) (\<lambda>top_k.
     io_bind (io_lift (lift_py (find_items query top_k (workspace_filters args)))) (\<lambda>resp.
     io_bind (io_lift (lift_py (sync_state_freshness (resp_sync_states resp) now stale_after))) (\<lambda>freshness.
     let services = py_get args ''services'' in
     io_bind
       (if is_stale freshness \<and> resp_results resp = []
        then native_fallback api raw query (case services of JList xs \<Rightarrow> xs | _ \<Rightarrow> []) no_fallback
        else io_lift (Inr no_fallback)) (\<lambda>fb.
     io_lift (completed api (workspace_data services resp freshness (is_stale freshness) fb)
       (map (\<lambda>r. JStr (sr_external_id r)) (resp_results resp) @ map JStr (fb_source_ids fb)))))))))"

definition workspace_execute ::
  "google_api \<Rightarrow> (string \<Rightarrow> int \<Rightarrow> search_filters \<Rightarrow> py_error + search_response) \<Rightarrow> (string \<Rightarrow> string) \<Rightarrow>
   datetime \<Rightarrow> int \<Rightarrow> string \<Rightarrow> dict \<Rightarrow> google_request list \<Rightarrow> google_request list \<times> agent_outcome" where
  "workspace_execute api find_items unescape now stale_after =
     agent_run api [(''workspace_search'', workspace_search api find_items unescape now stale_after)]"

section \<open>Requests\<close>

lemma io_agent_reads:
  assumes "map_of handlers op = Some h" and "only_reads (h args)"
  shows "only_reads (io_agent (agent_run api handlers op args))"
proof -
  have "fst (io_agent (agent_run api handlers op args) hist) = fst (h args hist)" for hist
    using assms(1) safely_execute_log [of api "h args" hist]
    by (auto simp: io_agent_def agent_run_def split: prod.splits agent_outcome.splits)
  with assms(2) show ?thesis by (simp add: sends_def)
qed

lemma native_fallback_reads: "only_reads (native_fallback api raw query services fb)"
proof (induction services arbitrary: fb)
  case (Cons v rest)
  have "only_reads (io_agent (gmail_execute api ''search_emails'' a))" for a
    unfolding gmail_execute_def
    by (rule io_agent_reads [OF _ search_emails_reads]) (simp add: gmail_handlers_def)
  moreover have "only_reads (io_agent (drive_execute api ''search_files'' a))" for a
    unfolding drive_execute_def
    by (rule io_agent_reads [OF _ search_files_reads]) (simp add: drive_handlers_def)
  ultimately show ?case using Cons by (cases v) (auto intro!: sends_bind_read)
qed simp

lemma workspace_search_reads: "only_reads (workspace_search api find_items unescape now stale_after args)"
  unfolding workspace_search_def
  by (intro sends_bind_steps(1) sends_bind_read sends_let sends_if native_fallback_reads sends_lift) simp_all

lemma workspace_ends: "ends_completed (workspace_search api find_items unescape now stale_after args)"
  unfolding workspace_search_def Let_def by auto

section \<open>The query is fit for a search\<close>

definition nonblank :: "string \<Rightarrow> bool" where
  "nonblank s \<longleftrightarrow> (\<exists>c \<in> set s. \<not> py_isspace c)"

lemma strip_nonblank: "py_strip s \<noteq> [] \<longleftrightarrow> nonblank s"
proof
  assume "py_strip s \<noteq> []"
  show "nonblank s"
  proof (rule ccontr)
    assume "\<not> nonblank s"
    then have "dropWhile py_isspace s = []" by (simp add: nonblank_def dropWhile_eq_Nil_conv)
    with \<open>py_strip s \<noteq> []\<close> show False by (simp add: py_strip_def strip_with_def)
  qed
next
  assume "nonblank s"
  then show "py_strip s \<noteq> []" unfolding nonblank_def using py_strip_nonempty by blast
qed

lemma split_acc_nonempty: "w \<noteq> [] \<or> nonblank s \<Longrightarrow> split_acc w s \<noteq> []"
  by (induction s arbitrary: w) (auto simp: nonblank_def)

lemma normalize_nonblank: "nonblank s \<Longrightarrow> normalize_space s \<noteq> []"
proof -
  assume "nonblank s"
  then have "py_split s \<noteq> []" by (simp add: py_split_def split_acc_nonempty)
  then have "single_spaced (normalize_space s)"
    unfolding normalize_space_def by (rule single_spaced_join) (simp add: py_split_words)
  then show ?thesis by (simp add: single_spaced_def)
qed

lemma rstrip_hd:
  assumes "s \<noteq> []" "\<not> py_isspace (hd s)"
  shows "py_rstrip s \<noteq> []" "hd (py_rstrip s) = hd s"
proof -
  obtain c cs where s: "s = c # cs" "\<not> py_isspace c" using assms by (cases s) auto
  have "py_rstrip s = c # rev (dropWhile py_isspace (rev cs))"
    using s by (auto simp: py_rstrip_def dropWhile_append)
  with s show "py_rstrip s \<noteq> []" "hd (py_rstrip s) = hd s" by simp_all
qed

lemma rstrip_length: "length (py_rstrip s) \<le> length s"
  using length_dropWhile_le [of py_isspace "rev s"] by (simp add: py_rstrip_def)

lemma rstrip_nonblank: "py_rstrip s \<noteq> [] \<Longrightarrow> nonblank (py_rstrip s)"
proof -
  assume "py_rstrip s \<noteq> []"
  then have "dropWhile py_isspace (rev s) \<noteq> []" by (simp add: py_rstrip_def)
  then have "\<not> py_isspace (hd (dropWhile py_isspace (rev s)))"
    and "hd (dropWhile py_isspace (rev s)) \<in> set (py_rstrip s)"
    by (rule hd_dropWhile, simp add: py_rstrip_def)
  then show ?thesis unfolding nonblank_def by blast
qed

text \<open>Cutting a normalized text leaves a query that the search accepts.\<close>

lemma cut_query:
  assumes "nonblank s"
  shows "py_strip (py_rstrip (take 700 (normalize_space s))) \<noteq> []"
    and "length (py_rstrip (take 700 (normalize_space s))) \<le> 700"
proof -
  let ?t = "take 700 (normalize_space s)"
  have single: "single_spaced (normalize_space s)"
    using normalize_nonblank [OF assms] by (rule normalize_space_single)
  then have "?t \<noteq> []" "hd ?t = hd (normalize_space s)" by (simp_all add: single_spaced_def)
  with single have "py_rstrip ?t \<noteq> []" by (intro rstrip_hd) (simp_all add: single_spaced_def)
  then show "py_strip (py_rstrip ?t) \<noteq> []" unfolding strip_nonblank by (rule rstrip_nonblank)
  show "length (py_rstrip ?t) \<le> 700" using rstrip_length [of ?t] by simp
qed

lemma nonblank_join: "x \<in> set xs \<Longrightarrow> nonblank x \<Longrightarrow> nonblank (py_join sep xs)"
  using sublist_py_join [of x xs sep] unfolding nonblank_def by (meson set_mono_sublist subsetD)

lemma text_of_nonblank: "text_of v = Some s \<Longrightarrow> nonblank s"
  by (auto simp: text_of_def strip_nonblank split: json.splits if_splits)

lemma normalize_is_nonblank: "nonblank s \<Longrightarrow> nonblank (normalize_space s)"
  using normalize_space_single [OF normalize_nonblank] unfolding nonblank_def single_spaced_def
  by (metis hd_in_set)

lemma add_segments_incl: "set parts \<subseteq> set (add_segments parts ss)"
  by (induction parts ss rule: add_segments.induct) auto

lemma parts_nonblank:
  assumes "title_parts event @ description_parts unescape event @ organizer_parts event @ attendee_parts event \<noteq> []"
  shows "\<exists>x \<in> set (title_parts event @ description_parts unescape event @ organizer_parts event @ attendee_parts event).
    nonblank x"
proof -
  have title: "\<exists>x \<in> set (title_parts event). nonblank x" if "title_parts event \<noteq> []"
  proof -
    from that obtain t where t: "text_of (py_get event ''title'') = Some t"
      by (auto simp: title_parts_def split: option.splits)
    then have "normalize_space t \<in> set (title_parts event)"
      using add_segments_incl [of "[normalize_space t]"] by (simp add: title_parts_def)
    with normalize_is_nonblank [OF text_of_nonblank [OF t]] show ?thesis by blast
  qed
  have descr: "\<exists>x \<in> set (description_parts unescape event). nonblank x" if "description_parts unescape event \<noteq> []"
    using that rstrip_nonblank
    by (auto simp: description_parts_def compact_description_def split: option.splits if_splits)
  have organizer: "\<exists>x \<in> set (organizer_parts event). nonblank x" if "organizer_parts event \<noteq> []"
    using that by (auto simp: organizer_parts_def normalize_is_nonblank text_of_nonblank split: option.splits)
  have attendees: "\<exists>x \<in> set (attendee_parts event). nonblank x" if "attendee_parts event \<noteq> []"
  proof -
    have strip: "nonblank (py_strip s)" if "nonblank s" for s
      using that strip_nonblank [of "py_strip s"] strip_nonblank [of s] by (simp add: py_strip_def strip_with_idem)
    from that obtain x where x: "x \<in> set (attendee_parts event)" by (cases "attendee_parts event") auto
    then obtain xs s where s: "x = py_strip s" "s \<in> set (List.map_filter text_of xs)"
      by (auto simp: attendee_parts_def split: json.splits dest!: in_set_takeD)
    then obtain v where "text_of v = Some s" by (auto simp: List.map_filter_def)
    with s(1) have "nonblank x" by (simp add: strip text_of_nonblank)
    with x show ?thesis by (rule bexI [rotated])
  qed
  from assms title descr organizer attendees show ?thesis by fastforce
qed

text \<open>
  Whatever the text or the calendar event a search is asked with, the query made from it is at
  most 700 characters long and never blank, so the search does not refuse it.
\<close>

theorem contextual_query_fit:
  assumes "contextual_query unescape v = Inr query"
  shows "py_strip query \<noteq> [] \<and> length query \<le> 700"
proof (cases "text_of v")
  case (Some s)
  with assms cut_query [OF text_of_nonblank [OF Some]] show ?thesis by (auto simp: contextual_query_def)
next
  case None
  with assms obtain event where v: "v = JObj event" by (cases v) (simp_all add: contextual_query_def)
  let ?parts = "title_parts event @ description_parts unescape event @ organizer_parts event @ attendee_parts event"
  from None assms v have parts: "?parts \<noteq> []"
    and query: "query = py_rstrip (take 700 (normalize_space (py_join '' '' ?parts)))"
    by (auto simp: contextual_query_def Let_def split: if_splits)
  from parts_nonblank [OF parts] nonblank_join have "nonblank (py_join '' '' ?parts)" by blast
  from cut_query [OF this] show ?thesis unfolding query by blast
qed

lemma contextual_query_fit_witness:
  "\<exists>query. contextual_query id (JObj [(''title'', JStr ''Acme | Weekly sync'')]) = Inr query \<and>
     py_strip query \<noteq> [] \<and> length query \<le> 700"
proof -
  have "contextual_query id (JObj [(''title'', JStr ''Acme | Weekly sync'')]) =
      Inr ''Acme | Weekly sync Weekly sync''" by code_simp
  from this contextual_query_fit [OF this] show ?thesis by blast
qed

end
