(* ===== verification/Database.thy ===== *)
theory Database
  imports Contracts
begin

text \<open>
  The tables of \<open>app/db/models.py\<close> that the orchestration writes: executions, their steps, the
  action approvals and the audit log. A row keeps the columns the code reads or sets; the
  server-side timestamps are left out, since no modelled code depends on them.

  A primary key is a \<open>uuid4\<close>. The model draws it from the counter \<open>next_id\<close>: the only thing the
  code relies on is that a fresh id differs from all earlier ones.
\<close>

section \<open>Rows\<close>

record execution_row =
  exec_id :: nat
  exec_user :: nat
  exec_conversation :: nat
  exec_status :: string
  exec_intent :: json
  exec_plan :: json

record step_row =
  row_execution :: nat
  row_step :: string
  row_service :: string
  row_operation :: string
  row_status :: string
  row_arguments :: json
  row_result :: "json option"
  row_error :: "json option"

record approval_row =
  appr_id :: nat
  appr_execution :: nat
  appr_step :: string
  appr_user :: nat
  appr_status :: string
  proposed_action :: dict

record audit_row =
  audit_user :: nat
  audit_execution :: nat
  audit_action :: string
  audit_details :: dict

record database =
  executions :: "execution_row list"
  step_rows :: "step_row list"
  approvals :: "approval_row list"
  audit_logs :: "audit_row list"
  next_id :: nat

text \<open>\<open>str(uuid)\<close>: 32 hexadecimal digits in groups of 8, 4, 4, 4 and 12.\<close>

definition hex_digit :: "nat \<Rightarrow> char" where
  "hex_digit n = (if n < 10 then char_of (48 + n) else char_of (87 + n))"

fun hex_digits :: "nat \<Rightarrow> nat \<Rightarrow> string" where
  "hex_digits 0 n = []"
| "hex_digits (Suc k) n = hex_digits k (n div 16) @ [hex_digit (n mod 16)]"

definition uuid_str :: "nat \<Rightarrow> string" where
  "uuid_str n =
     (let s = hex_digits 32 n in
      take 8 s @ ''-'' @ take 4 (drop 8 s) @ ''-'' @ take 4 (drop 12 s) @ ''-'' @
      take 4 (drop 16 s) @ ''-'' @ drop 20 s)"

section \<open>Adding and updating rows\<close>

definition add_execution :: "execution_row \<Rightarrow> database \<Rightarrow> database" where
  "add_execution r db = db\<lparr>executions := executions db @ [r], next_id := Suc (next_id db)\<rparr>"

definition add_approval :: "approval_row \<Rightarrow> database \<Rightarrow> database" where
  "add_approval r db = db\<lparr>approvals := approvals db @ [r], next_id := Suc (next_id db)\<rparr>"

definition add_step_row :: "step_row \<Rightarrow> database \<Rightarrow> database" where
  "add_step_row r db = db\<lparr>step_rows := step_rows db @ [r]\<rparr>"

definition add_audit_log :: "audit_row \<Rightarrow> database \<Rightarrow> database" where
  "add_audit_log r db = db\<lparr>audit_logs := audit_logs db @ [r]\<rparr>"

definition set_execution_status :: "nat \<Rightarrow> string \<Rightarrow> database \<Rightarrow> database" where
  "set_execution_status x s db =
     db\<lparr>executions := map (\<lambda>r. if exec_id r = x then r\<lparr>exec_status := s\<rparr> else r) (executions db)\<rparr>"

definition set_approval_status :: "nat \<Rightarrow> string \<Rightarrow> database \<Rightarrow> database" where
  "set_approval_status a s db =
     db\<lparr>approvals := map (\<lambda>r. if appr_id r = a then r\<lparr>appr_status := s\<rparr> else r) (approvals db)\<rparr>"

text \<open>An update of the step row a query has loaded: the row of an execution and a step id.\<close>

definition update_step_row ::
  "nat \<Rightarrow> string \<Rightarrow> (step_row \<Rightarrow> step_row) \<Rightarrow> database \<Rightarrow> database" where
  "update_step_row x s f db =
     db\<lparr>step_rows := map (\<lambda>r. if row_execution r = x \<and> row_step r = s then f r else r) (step_rows db)\<rparr>"

lemmas db_update_defs = add_execution_def add_approval_def add_step_row_def add_audit_log_def
  set_execution_status_def set_approval_status_def update_step_row_def

section \<open>Well-formed databases\<close>

text \<open>
  The unique constraints \<open>uq_execution_steps_execution_step\<close> and
  \<open>uq_action_approvals_execution_step\<close>, the primary keys, and ids below the counter.
\<close>

definition step_key :: "step_row \<Rightarrow> nat \<times> string" where
  "step_key r = (row_execution r, row_step r)"

definition approval_key :: "approval_row \<Rightarrow> nat \<times> string" where
  "approval_key r = (appr_execution r, appr_step r)"

definition unique_keys :: "database \<Rightarrow> bool" where
  "unique_keys db \<longleftrightarrow>
     distinct (map exec_id (executions db)) \<and> distinct (map appr_id (approvals db)) \<and>
     distinct (map step_key (step_rows db)) \<and> distinct (map approval_key (approvals db))"

definition fresh_ids :: "database \<Rightarrow> bool" where
  "fresh_ids db \<longleftrightarrow>
     (\<forall>r \<in> set (executions db). exec_id r < next_id db) \<and>
     (\<forall>r \<in> set (approvals db). appr_id r < next_id db \<and> appr_execution r < next_id db) \<and>
     (\<forall>r \<in> set (step_rows db). row_execution r < next_id db)"

definition empty_database :: database where
  "empty_database = \<lparr>executions = [], step_rows = [], approvals = [], audit_logs = [], next_id = 0\<rparr>"

lemma length_hex_digits [simp]: "length (hex_digits k n) = k"
  by (induction k arbitrary: n) simp_all

lemma length_uuid_str: "length (uuid_str n) = 36"
  by (simp add: uuid_str_def Let_def)

end
