(* ===== verification/Executor.thy ===== *)
theory Executor
  imports Database Registry
begin

text \<open>
  The executor of \<open>app/orchestration/executor.py\<close>: the resolution of references to the output of
  earlier steps, and the loop that runs a plan wave by wave.

  Every definition takes the two registry methods the loop calls as arguments: \<open>needs\<close> is
  \<open>requires_approval\<close> and \<open>run\<close> is \<open>execute\<close>. The calls that reach an agent are kept in a log; the
  number of a call is its place in the log. The calls of one \<open>asyncio.gather\<close> are numbered in the
  order of its arguments, the order in which they start.
\<close>

section \<open>Resolving references\<close>

text \<open>\<open>ReferenceResolutionError\<close> with its code, step id and path, or one of the other exceptions.\<close>

datatype resolve_error = ReferenceError string string "json list" | Unresolvable

text \<open>
  \<open>str.isdigit\<close> holds of the superscripts one, two and three, which \<open>int\<close> rejects; \<open>int\<close> also
  rejects more than 4300 digits.
\<close>

definition py_isdigit :: "string \<Rightarrow> bool" where
  "py_isdigit s \<longleftrightarrow> s \<noteq> [] \<and>
     list_all (\<lambda>c. is_ascii_digit c \<or> code_point c \<in> {178, 179, 185}) s"

definition py_int_of_digits :: "string \<Rightarrow> nat option" where
  "py_int_of_digits s =
     (if list_all is_ascii_digit s \<and> length s \<le> 4300 then Some (digits_value s) else None)"

definition normalized_segment :: "json \<Rightarrow> json \<Rightarrow> resolve_error + json" where
  "normalized_segment current segment =
     (case (current, segment) of
        (JList _, JStr s) \<Rightarrow>
          if s = ''first'' \<or> s = ''next'' then Inr (JInt 0)
          else if py_isdigit s then
            (case py_int_of_digits s of None \<Rightarrow> Inl Unresolvable | Some n \<Rightarrow> Inr (JInt (int n)))
          else Inr segment
      | _ \<Rightarrow> Inr segment)"

definition follow_segment :: "string \<Rightarrow> json list \<Rightarrow> json \<Rightarrow> json \<Rightarrow> resolve_error + json" where
  "follow_segment sid traversed current segment =
     (case (current, segment) of
        (JObj d, JStr k) \<Rightarrow>
          (case dict_get d k of
             None \<Rightarrow> Inl (ReferenceError ''reference_field_missing'' sid (traversed @ [segment]))
           | Some v \<Rightarrow> Inr v)
      | (JList xs, JInt i) \<Rightarrow>
          if 0 \<le> i \<and> i < int (length xs) then Inr (xs ! nat i)
          else Inl (ReferenceError ''reference_element_missing'' sid (traversed @ [segment]))
      | _ \<Rightarrow> Inl (ReferenceError ''reference_shape_mismatch'' sid (traversed @ [segment])))"

fun traverse :: "string \<Rightarrow> json list \<Rightarrow> json \<Rightarrow> json list \<Rightarrow> resolve_error + json" where
  "traverse sid traversed current [] = Inr current"
| "traverse sid traversed current (segment # path) =
     (case normalized_segment current segment of
        Inl e \<Rightarrow> Inl e
      | Inr seg \<Rightarrow>
          (case follow_segment sid traversed current seg of
             Inl e \<Rightarrow> Inl e
           | Inr v \<Rightarrow> traverse sid (traversed @ [seg]) v path))"

type_synonym results = "(string \<times> step_result) list"

definition resolve_reference :: "results \<Rightarrow> dict \<Rightarrow> resolve_error + json" where
  "resolve_reference results d =
     (case (dict_get d ''$step'', dict_get_or d ''path'' (JList [])) of
        (Some (JStr sid), JList path) \<Rightarrow>
          (case dict_get results sid of
             None \<Rightarrow> Inl (ReferenceError ''reference_step_missing'' sid path)
           | Some r \<Rightarrow> traverse sid [] (JObj (data r)) path)
      | _ \<Rightarrow> Inl Unresolvable)"

fun resolve_references :: "results \<Rightarrow> json \<Rightarrow> resolve_error + json"
  and resolve_list :: "results \<Rightarrow> json list \<Rightarrow> resolve_error + json list"
  and resolve_items :: "results \<Rightarrow> dict \<Rightarrow> resolve_error + dict" where
  "resolve_references results (JObj d) =
     (if has_key d ''$step'' then resolve_reference results d
      else (case resolve_items results d of Inl e \<Rightarrow> Inl e | Inr kvs \<Rightarrow> Inr (JObj kvs)))"
| "resolve_references results (JList xs) =
     (case resolve_list results xs of Inl e \<Rightarrow> Inl e | Inr ys \<Rightarrow> Inr (JList ys))"
| "resolve_references results v = Inr v"
| "resolve_list results [] = Inr []"
| "resolve_list results (x # xs) =
     (case resolve_references results x of Inl e \<Rightarrow> Inl e
      | Inr y \<Rightarrow> (case resolve_list results xs of Inl e \<Rightarrow> Inl e | Inr ys \<Rightarrow> Inr (y # ys)))"
| "resolve_items results [] = Inr []"
| "resolve_items results ((k, v) # kvs) =
     (case resolve_references results v of Inl e \<Rightarrow> Inl e
      | Inr w \<Rightarrow> (case resolve_items results kvs of Inl e \<Rightarrow> Inl e | Inr ws \<Rightarrow> Inr ((k, w) # ws)))"

section \<open>Step results\<close>

definition error_info_of :: "string \<Rightarrow> string \<Rightarrow> error_info" where
  "error_info_of code message = \<lparr>err_code = code, err_message = message, err_details = []\<rparr>"

definition skipped_result :: "execution_step \<Rightarrow> step_result" where
  "skipped_result s = \<lparr>result_step_id = step_id s, status = SKIPPED, data = [],
     error = Some (error_info_of ''dependency_unavailable''
       ''A required prior step did not complete'')\<rparr>"

definition unresolved_result :: "execution_step \<Rightarrow> resolve_error \<Rightarrow> step_result" where
  "unresolved_result s e = \<lparr>result_step_id = step_id s, status = FAILED, data = [],
     error = Some (case e of
       ReferenceError code sid path \<Rightarrow>
         \<lparr>err_code = code,
          err_message = ''A referenced prior-step result was unavailable; '' @
            ''the dependent search was not attempted'',
          err_details = [(''source_step_id'', JStr sid), (''path'', JList path)]\<rparr>
     | Unresolvable \<Rightarrow> error_info_of ''reference_resolution_failed''
         ''A prior step output reference could not be resolved'')\<rparr>"

definition awaiting_result :: "execution_step \<Rightarrow> nat \<Rightarrow> step_result" where
  "awaiting_result s aid = \<lparr>result_step_id = step_id s, status = AWAITING_APPROVAL,
     data = [(''approval_id'', JStr (uuid_str aid))], error = None\<rparr>"

text \<open>\<open>_step_result\<close>: an exception, wherever it was raised, becomes \<open>operation_failed\<close>.\<close>

definition step_result_of :: "execution_step \<Rightarrow> dispatch_outcome \<Rightarrow> step_result" where
  "step_result_of s r =
     (case r of
        Called (Returned a) \<Rightarrow>
          \<lparr>result_step_id = step_id s, status = agent_status a, data = agent_data a, error = agent_error a\<rparr>
      | _ \<Rightarrow> \<lparr>result_step_id = step_id s, status = FAILED, data = [],
          error = Some (error_info_of ''operation_failed''
            ''The service operation could not be completed'')\<rparr>)"

section \<open>One wave\<close>

type_synonym needs_approval = "service \<Rightarrow> string \<Rightarrow> py_error + bool"
type_synonym dispatcher = "nat \<Rightarrow> service \<Rightarrow> string \<Rightarrow> json \<Rightarrow> dispatch_outcome"

record agent_call =
  call_service :: service
  call_operation :: string
  call_arguments :: json

record wave_entry =
  entry_step :: execution_step
  entry_result :: step_result
  entry_approval :: "nat option"
  entry_arguments :: json

record exec_state =
  ex_db :: database
  ex_calls :: "agent_call list"
  ex_remaining :: "(string \<times> execution_step) list"
  ex_results :: results
  ex_approval_ids :: "nat list"

definition ready_steps :: "exec_state \<Rightarrow> execution_step list" where
  "ready_steps st =
     filter (\<lambda>s. list_all (has_key (ex_results st)) (depends_on s)) (map snd (ex_remaining st))"

definition unavailable :: "step_result \<Rightarrow> bool" where
  "unavailable r \<longleftrightarrow> status r \<in> {FAILED, SKIPPED, AWAITING_APPROVAL}"

text \<open>\<open>results[dependency]\<close> does not raise for a ready step: all its dependencies have results.\<close>

definition dependency_failed :: "results \<Rightarrow> execution_step \<Rightarrow> bool" where
  "dependency_failed results s \<longleftrightarrow>
     list_ex (\<lambda>d. case dict_get results d of None \<Rightarrow> False | Some r \<Rightarrow> unavailable r) (depends_on s)"

definition new_approval :: "nat \<Rightarrow> nat \<Rightarrow> nat \<Rightarrow> execution_step \<Rightarrow> json \<Rightarrow> approval_row" where
  "new_approval aid xid user s args =
     \<lparr>appr_id = aid, appr_execution = xid, appr_step = step_id s, appr_user = user,
      appr_status = status_value AWAITING_APPROVAL,
      proposed_action = [(''service'', JStr (service_value (service s))),
        (''operation'', JStr (operation s)), (''arguments'', args)]\<rparr>"

text \<open>
  The body of \<open>for step in ready\<close>. It appends to \<open>wave_results\<close> or to \<open>executable\<close>, and may add an
  approval to the session.
\<close>

type_synonym wave_state = "database \<times> wave_entry list \<times> (execution_step \<times> json) list"

definition prepare_step ::
  "needs_approval \<Rightarrow> nat \<Rightarrow> nat \<Rightarrow> results \<Rightarrow> execution_step \<Rightarrow> wave_state \<Rightarrow> py_error + wave_state" where
  "prepare_step needs xid user results s w = (case w of (db, entries, executable) \<Rightarrow>
     if dependency_failed results s then
       Inr (db, entries @ [\<lparr>entry_step = s, entry_result = skipped_result s, entry_approval = None,
         entry_arguments = JObj (arguments s)\<rparr>], executable)
     else
       (case resolve_references results (JObj (arguments s)) of
          Inl e \<Rightarrow>
            Inr (db, entries @ [\<lparr>entry_step = s, entry_result = unresolved_result s e,
              entry_approval = None, entry_arguments = JObj (arguments s)\<rparr>], executable)
        | Inr args \<Rightarrow>
            (case needs (service s) (operation s) of
               Inl e \<Rightarrow> Inl e
             | Inr True \<Rightarrow>
                 (let aid = next_id db in
                  Inr (add_approval (new_approval aid xid user s args) db,
                    entries @ [\<lparr>entry_step = s, entry_result = awaiting_result s aid,
                      entry_approval = Some aid, entry_arguments = args\<rparr>], executable))
             | Inr False \<Rightarrow> Inr (db, entries, executable @ [(s, args)]))))"

fun prepare_steps ::
  "needs_approval \<Rightarrow> nat \<Rightarrow> nat \<Rightarrow> results \<Rightarrow> execution_step list \<Rightarrow> wave_state \<Rightarrow> py_error + wave_state" where
  "prepare_steps needs xid user results [] w = Inr w"
| "prepare_steps needs xid user results (s # ss) w =
     (case prepare_step needs xid user results s w of
        Inl e \<Rightarrow> Inl e | Inr w' \<Rightarrow> prepare_steps needs xid user results ss w')"

text \<open>\<open>asyncio.gather(..., return_exceptions=True)\<close> and the entries made of its results.\<close>

fun gather_calls ::
  "dispatcher \<Rightarrow> agent_call list \<Rightarrow> (execution_step \<times> json) list \<Rightarrow> agent_call list \<times> wave_entry list" where
  "gather_calls run calls [] = (calls, [])"
| "gather_calls run calls ((s, args) # rest) =
     (let r = run (length calls) (service s) (operation s) args;
          calls' = (case r of
             Called _ \<Rightarrow> calls @ [\<lparr>call_service = service s, call_operation = operation s, call_arguments = args\<rparr>]
           | Rejected _ \<Rightarrow> calls);
          entry = \<lparr>entry_step = s, entry_result = step_result_of s r, entry_approval = None,
            entry_arguments = args\<rparr> in
      case gather_calls run calls' rest of (calls'', entries) \<Rightarrow> (calls'', entry # entries))"

definition new_step_row :: "nat \<Rightarrow> wave_entry \<Rightarrow> step_row" where
  "new_step_row xid e =
     \<lparr>row_execution = xid, row_step = step_id (entry_step e),
      row_service = service_value (service (entry_step e)), row_operation = operation (entry_step e),
      row_status = status_value (status (entry_result e)), row_arguments = entry_arguments e,
      row_result = Some (JObj (data (entry_result e))),
      row_error = (case error (entry_result e) of None \<Rightarrow> None | Some x \<Rightarrow> Some (error_dump x))\<rparr>"

text \<open>The body of \<open>for ... in wave_results\<close>; \<open>remaining.pop(step_id)\<close> raises without the key.\<close>

definition record_entry :: "nat \<Rightarrow> wave_entry \<Rightarrow> exec_state \<Rightarrow> py_error + exec_state" where
  "record_entry xid e st =
     (let sid = step_id (entry_step e) in
      if \<not> has_key (ex_remaining st) sid then Inl (KeyError sid)
      else Inr (st\<lparr>ex_results := dict_set sid (entry_result e) (ex_results st),
        ex_remaining := dict_pop sid (ex_remaining st),
        ex_approval_ids := ex_approval_ids st @ (case entry_approval e of None \<Rightarrow> [] | Some a \<Rightarrow> [a]),
        ex_db := add_step_row (new_step_row xid e) (ex_db st)\<rparr>))"

fun record_entries :: "nat \<Rightarrow> wave_entry list \<Rightarrow> exec_state \<Rightarrow> py_error + exec_state" where
  "record_entries xid [] st = Inr st"
| "record_entries xid (e # es) st =
     (case record_entry xid e st of Inl x \<Rightarrow> Inl x | Inr st' \<Rightarrow> record_entries xid es st')"

definition run_wave ::
  "needs_approval \<Rightarrow> dispatcher \<Rightarrow> nat \<Rightarrow> nat \<Rightarrow> exec_state \<Rightarrow> py_error + exec_state" where
  "run_wave needs run xid user st =
     (case prepare_steps needs xid user (ex_results st) (ready_steps st) (ex_db st, [], []) of
        Inl e \<Rightarrow> Inl e
      | Inr (db, entries, executable) \<Rightarrow>
          (case gather_calls run (ex_calls st) executable of (calls, called) \<Rightarrow>
             record_entries xid (entries @ called) (st\<lparr>ex_db := db, ex_calls := calls\<rparr>)))"

lemma length_dict_pop: "has_key d k \<Longrightarrow> length (dict_pop k d) < length d"
  by (auto simp: dict_pop_def has_key_def intro!: length_filter_less)

lemma record_entry_length:
  "record_entry xid e st = Inr st' \<Longrightarrow> length (ex_remaining st') < length (ex_remaining st)"
  by (auto simp: record_entry_def Let_def length_dict_pop split: if_splits)

lemma record_entries_length:
  "record_entries xid es st = Inr st' \<Longrightarrow>
     length (ex_remaining st') + length es \<le> length (ex_remaining st)"
  by (induction es arbitrary: st) (fastforce split: sum.splits dest: record_entry_length)+

lemma gather_calls_length:
  "gather_calls run calls xs = (calls', es) \<Longrightarrow> length es = length xs"
  by (induction run calls xs arbitrary: calls' es rule: gather_calls.induct)
    (auto simp: Let_def split: prod.splits)

lemma prepare_step_length:
  "prepare_step needs xid user results s (db, es, xs) = Inr (db', es', xs') \<Longrightarrow>
     length es' + length xs' = Suc (length es + length xs)"
  by (auto simp: prepare_step_def Let_def split: if_splits sum.splits bool.splits)

lemma prepare_steps_length:
  "prepare_steps needs xid user results ss (db, es, xs) = Inr (db', es', xs') \<Longrightarrow>
     length es' + length xs' = length ss + length es + length xs"
  by (induction ss arbitrary: db es xs) (fastforce split: sum.splits dest: prepare_step_length)+

lemma run_wave_length:
  assumes "run_wave needs run xid user st = Inr st'" and "ready_steps st \<noteq> []"
  shows "length (ex_remaining st') < length (ex_remaining st)"
proof -
  from assms(1) have "length (ex_remaining st') + length (ready_steps st) \<le> length (ex_remaining st)"
    by (auto simp: run_wave_def split: sum.splits prod.splits
        dest!: prepare_steps_length gather_calls_length record_entries_length)
  moreover from assms(2) have "0 < length (ready_steps st)" by simp
  ultimately show ?thesis by linarith
qed

section \<open>The loop\<close>

function run_waves ::
  "needs_approval \<Rightarrow> dispatcher \<Rightarrow> nat \<Rightarrow> nat \<Rightarrow> exec_state \<Rightarrow> py_error + exec_state" where
  "run_waves needs run xid user st =
     (if ex_remaining st = [] then Inr st
      else if ready_steps st = [] then Inl (RuntimeError ''Execution plan has no runnable steps'')
      else (case run_wave needs run xid user st of
         Inl e \<Rightarrow> Inl e
       | Inr st' \<Rightarrow> run_waves needs run xid user st'))"
  by pat_completeness auto

termination
  by (relation "measure (\<lambda>(needs, run, xid, user, st). length (ex_remaining st))")
    (auto dest: run_wave_length)

declare run_waves.simps [simp del]

section \<open>\<open>DAGExecutor.execute\<close>\<close>

record execution_outcome =
  out_execution_id :: nat
  out_results :: "step_result list"
  out_pending_approval_ids :: "nat list"

definition final_status :: "step_result list \<Rightarrow> execution_status" where
  "final_status rs =
     (if FAILED \<in> set (map status rs) then FAILED
      else if AWAITING_APPROVAL \<in> set (map status rs) then AWAITING_APPROVAL
      else COMPLETED)"

definition result_of_step :: "results \<Rightarrow> execution_step \<Rightarrow> py_error + step_result" where
  "result_of_step results s =
     (case dict_get results (step_id s) of None \<Rightarrow> Inl (KeyError (step_id s)) | Some r \<Rightarrow> Inr r)"

definition new_execution :: "nat \<Rightarrow> nat \<Rightarrow> nat \<Rightarrow> intent \<Rightarrow> execution_plan \<Rightarrow> execution_row" where
  "new_execution xid user conversation i p =
     \<lparr>exec_id = xid, exec_user = user, exec_conversation = conversation,
      exec_status = status_value RUNNING, exec_intent = intent_dump i, exec_plan = plan_dump p\<rparr>"

definition initial_exec_state :: "database \<Rightarrow> agent_call list \<Rightarrow> execution_plan \<Rightarrow> exec_state" where
  "initial_exec_state db calls p =
     \<lparr>ex_db = db, ex_calls = calls, ex_remaining = dict_of [] (map (\<lambda>s. (step_id s, s)) (steps p)),
      ex_results = [], ex_approval_ids = []\<rparr>"

text \<open>
  The result is the outcome with the committed database and the call log. An exception leaves the
  database as it was, since nothing is committed.
\<close>

definition dag_execute ::
  "registry \<Rightarrow> nat \<Rightarrow> nat \<Rightarrow> intent \<Rightarrow> execution_plan \<Rightarrow> database \<Rightarrow> agent_call list \<Rightarrow>
     py_error + (execution_outcome \<times> database \<times> agent_call list)" where
  "dag_execute reg user conversation i p db calls =
     (case registry_validate_plan reg p of
        Inl e \<Rightarrow> Inl e
      | Inr _ \<Rightarrow>
          (let xid = next_id db;
               db1 = add_execution (new_execution xid user conversation i p) db in
           case run_waves (requires_approval reg) (registry_execute reg) xid user
                  (initial_exec_state db1 calls p) of
             Inl e \<Rightarrow> Inl e
           | Inr st \<Rightarrow>
               (case map_res (result_of_step (ex_results st)) (steps p) of
                  Inl e \<Rightarrow> Inl e
                | Inr rs \<Rightarrow>
                    Inr (\<lparr>out_execution_id = xid, out_results = rs,
                          out_pending_approval_ids = ex_approval_ids st\<rparr>,
                         set_execution_status xid (status_value (final_status rs)) (ex_db st),
                         ex_calls st))))"

end
