(* ===== verification/Executor_Refinement.thy ===== *)
theory Executor_Refinement
  imports Executor "HOL-Library.Multiset"
begin

text \<open>
  The abstract specification of the executor, and the proof that the wave loop implements it.

  The specification runs one ready step at a time, in any order that respects the dependencies:
  a step is skipped, fails on its references, is gated behind an approval, or is dispatched. Every
  run of the wave loop over an accepted plan is such a sequential run, so an invariant of the
  one-step relation holds of the concurrent executor.
\<close>

section \<open>Recording in closed form\<close>

abbreviation entry_id :: "wave_entry \<Rightarrow> string" where
  "entry_id e \<equiv> step_id (entry_step e)"

definition recorded :: "nat \<Rightarrow> wave_entry list \<Rightarrow> exec_state \<Rightarrow> exec_state" where
  "recorded xid es st = st\<lparr>
     ex_results := ex_results st @ map (\<lambda>e. (entry_id e, entry_result e)) es,
     ex_remaining := filter (\<lambda>p. fst p \<notin> set (map entry_id es)) (ex_remaining st),
     ex_approval_ids := ex_approval_ids st @ List.map_filter entry_approval es,
     ex_db := (ex_db st)\<lparr>step_rows := step_rows (ex_db st) @ map (new_step_row xid) es\<rparr>\<rparr>"

lemma recorded_Nil [simp]: "recorded xid [] st = st"
  by (simp add: recorded_def map_filter_def)

lemma recorded_append: "recorded xid (es @ fs) st = recorded xid fs (recorded xid es st)"
  by (simp add: recorded_def map_filter_def conj_commute cong: filter_cong)

lemma recorded_sel [simp]:
  "ex_results (recorded xid es st) = ex_results st @ map (\<lambda>e. (entry_id e, entry_result e)) es"
  "ex_remaining (recorded xid es st) = filter (\<lambda>p. fst p \<notin> set (map entry_id es)) (ex_remaining st)"
  "ex_approval_ids (recorded xid es st) = ex_approval_ids st @ List.map_filter entry_approval es"
  "ex_db (recorded xid es st) = (ex_db st)\<lparr>step_rows := step_rows (ex_db st) @ map (new_step_row xid) es\<rparr>"
  "ex_calls (recorded xid es st) = ex_calls st"
  by (simp_all add: recorded_def)

lemma record_entry_recorded:
  assumes "has_key (ex_remaining st) (entry_id e)" and "\<not> has_key (ex_results st) (entry_id e)"
  shows "record_entry xid e st = Inr (recorded xid [e] st)"
  using assms
  by (simp add: record_entry_def Let_def recorded_def dict_set_new dict_pop_def add_step_row_def
      map_filter_def split: option.split)

lemma record_entries_recorded:
  assumes "distinct (map entry_id es)"
    and "\<forall>e \<in> set es. has_key (ex_remaining st) (entry_id e) \<and> \<not> has_key (ex_results st) (entry_id e)"
  shows "record_entries xid es st = Inr (recorded xid es st)"
  using assms
proof (induction es arbitrary: st)
  case (Cons e es)
  have "record_entries xid es (recorded xid [e] st) = Inr (recorded xid es (recorded xid [e] st))"
    using Cons.prems by (intro Cons.IH) (auto simp: image_iff)
  with Cons.prems record_entry_recorded [of st e xid] recorded_append [of xid "[e]" es st]
  show ?case by simp
qed simp

section \<open>The specification\<close>

definition entry_of :: "execution_step \<Rightarrow> step_result \<Rightarrow> nat option \<Rightarrow> json \<Rightarrow> wave_entry" where
  "entry_of s r aid args =
     \<lparr>entry_step = s, entry_result = r, entry_approval = aid, entry_arguments = args\<rparr>"

lemma entry_of_sel [simp]:
  "entry_step (entry_of s r aid args) = s" "entry_result (entry_of s r aid args) = r"
  "entry_approval (entry_of s r aid args) = aid" "entry_arguments (entry_of s r aid args) = args"
  by (simp_all add: entry_of_def)

definition call_of :: "execution_step \<Rightarrow> json \<Rightarrow> agent_call" where
  "call_of s args =
     \<lparr>call_service = service s, call_operation = operation s, call_arguments = args\<rparr>"

definition log_call :: "execution_step \<Rightarrow> json \<Rightarrow> dispatch_outcome \<Rightarrow> agent_call list \<Rightarrow> agent_call list" where
  "log_call s args r calls = (case r of Called _ \<Rightarrow> calls @ [call_of s args] | Rejected _ \<Rightarrow> calls)"

inductive spec_step ::
  "needs_approval \<Rightarrow> dispatcher \<Rightarrow> nat \<Rightarrow> nat \<Rightarrow> exec_state \<Rightarrow> exec_state \<Rightarrow> bool"
  for needs run xid user where
  skip: "s \<in> set (ready_steps st) \<Longrightarrow> dependency_failed (ex_results st) s \<Longrightarrow>
     spec_step needs run xid user st
       (recorded xid [entry_of s (skipped_result s) None (JObj (arguments s))] st)"
| unresolved: "s \<in> set (ready_steps st) \<Longrightarrow> \<not> dependency_failed (ex_results st) s \<Longrightarrow>
     resolve_references (ex_results st) (JObj (arguments s)) = Inl e \<Longrightarrow>
     spec_step needs run xid user st
       (recorded xid [entry_of s (unresolved_result s e) None (JObj (arguments s))] st)"
| gate: "s \<in> set (ready_steps st) \<Longrightarrow> \<not> dependency_failed (ex_results st) s \<Longrightarrow>
     resolve_references (ex_results st) (JObj (arguments s)) = Inr args \<Longrightarrow>
     needs (service s) (operation s) = Inr True \<Longrightarrow> aid = next_id (ex_db st) \<Longrightarrow>
     spec_step needs run xid user st
       (recorded xid [entry_of s (awaiting_result s aid) (Some aid) args]
          (st\<lparr>ex_db := add_approval (new_approval aid xid user s args) (ex_db st)\<rparr>))"
| dispatch: "s \<in> set (ready_steps st) \<Longrightarrow> \<not> dependency_failed (ex_results st) s \<Longrightarrow>
     resolve_references (ex_results st) (JObj (arguments s)) = Inr args \<Longrightarrow>
     needs (service s) (operation s) = Inr False \<Longrightarrow>
     r = run (length (ex_calls st)) (service s) (operation s) args \<Longrightarrow>
     spec_step needs run xid user st
       (recorded xid [entry_of s (step_result_of s r) None args]
          (st\<lparr>ex_calls := log_call s args r (ex_calls st)\<rparr>))"

inductive_cases spec_stepE: "spec_step needs run xid user st st'"

section \<open>References and their support\<close>

text \<open>The step names a reference resolution may look up, as they are written.\<close>

fun raw_refs :: "json \<Rightarrow> string list" and raw_refs_list :: "json list \<Rightarrow> string list"
  and raw_refs_items :: "dict \<Rightarrow> string list" where
  "raw_refs (JObj d) =
     (case dict_get d ''$step'' of
        None \<Rightarrow> raw_refs_items d
      | Some (JStr sid) \<Rightarrow> [sid]
      | Some _ \<Rightarrow> [])"
| "raw_refs (JList xs) = raw_refs_list xs"
| "raw_refs _ = []"
| "raw_refs_list [] = []"
| "raw_refs_list (x # xs) = raw_refs x @ raw_refs_list xs"
| "raw_refs_items [] = []"
| "raw_refs_items ((k, v) # kvs) = raw_refs v @ raw_refs_items kvs"

lemma resolve_reference_cong:
  assumes "\<forall>sid. dict_get d ''$step'' = Some (JStr sid) \<longrightarrow> dict_get res sid = dict_get res' sid"
  shows "resolve_reference res d = resolve_reference res' d"
  using assms by (auto simp: resolve_reference_def split: option.split json.split)

lemma resolve_cong:
  "\<forall>x \<in> set (raw_refs v). dict_get res x = dict_get res' x \<Longrightarrow>
     resolve_references res v = resolve_references res' v"
  "\<forall>x \<in> set (raw_refs_list vs). dict_get res x = dict_get res' x \<Longrightarrow>
     resolve_list res vs = resolve_list res' vs"
  "\<forall>x \<in> set (raw_refs_items kvs). dict_get res x = dict_get res' x \<Longrightarrow>
     resolve_items res kvs = resolve_items res' kvs"
proof (induction v and vs and kvs rule: raw_refs_raw_refs_list_raw_refs_items.induct)
  case (1 d)
  show ?case
  proof (cases "dict_get d ''$step''")
    case None
    with 1 show ?thesis by (simp add: has_key_iff)
  next
    case (Some v)
    with 1 have "resolve_reference res d = resolve_reference res' d"
      by (intro resolve_reference_cong) auto
    with Some show ?thesis by (simp add: has_key_iff)
  qed
qed (simp_all cong: sum.case_cong)

text \<open>
  In an accepted plan a name written in a step's arguments is one of its dependencies, or names no
  step: ids are identifiers, so stripping a name that is an id leaves it unchanged.
\<close>

definition step_closed :: "string list \<Rightarrow> execution_step \<Rightarrow> bool" where
  "step_closed ids s \<longleftrightarrow> set (raw_refs (JObj (arguments s))) \<inter> set ids \<subseteq> set (depends_on s)"

lemma identifier_strip:
  assumes "identifier_pattern s"
  shows "strip_with unicode_space s = s"
proof (rule strip_with_id)
  have "\<not> unicode_space c" if "identifier_char c" for c
    using that by (auto simp: identifier_char_def is_ascii_alpha_def is_ascii_digit_def
        unicode_space_def Let_def code_point_def)
  with assms show "\<forall>c \<in> set s. \<not> unicode_space c"
    by (cases s) (auto simp: identifier_pattern_def identifier_char_def list_all_iff)
qed

lemma reference_model_validate_name:
  assumes "reference_model_validate d = Inr rid"
  obtains sid where "dict_get d ''$step'' = Some (JStr sid)" and "rid = strip_with unicode_space sid"
proof -
  from assms have "required_field validate_identifier (dict_get d ''$step'') = Inr rid"
    by (auto simp: reference_model_validate_def split: if_splits sum.splits option.splits json.splits)
  with that show ?thesis
    by (auto simp: required_field_def validate_identifier_def Let_def
        split: option.splits json.splits if_splits)
qed

lemma raw_refs_found:
  "\<forall>r \<in> set (find_step_references v). \<exists>rid \<in> D. r = Inr rid \<Longrightarrow>
     \<forall>x \<in> set (raw_refs v). strip_with unicode_space x \<in> D"
  "\<forall>r \<in> set (find_refs_list vs). \<exists>rid \<in> D. r = Inr rid \<Longrightarrow>
     \<forall>x \<in> set (raw_refs_list vs). strip_with unicode_space x \<in> D"
  "\<forall>r \<in> set (find_refs_items kvs). \<exists>rid \<in> D. r = Inr rid \<Longrightarrow>
     \<forall>x \<in> set (raw_refs_items kvs). strip_with unicode_space x \<in> D"
proof (induction v and vs and kvs rule: raw_refs_raw_refs_list_raw_refs_items.induct)
  case (1 d)
  show ?case
  proof (cases "dict_get d ''$step''")
    case None
    with 1 show ?thesis by (simp add: has_key_iff)
  next
    case (Some v)
    with 1 obtain rid where "rid \<in> D" and "reference_model_validate d = Inr rid"
      by (auto simp: has_key_iff)
    with Some show ?thesis by (auto elim: reference_model_validate_name)
  qed
qed (simp_all add: ball_Un)

lemma accepted_step_closed:
  assumes "\<forall>x \<in> set ids. identifier_pattern x" and "references_declared s"
  shows "step_closed ids s"
  using raw_refs_found(1) [of "JObj (arguments s)" "set (depends_on s)"] assms identifier_strip
  unfolding references_declared_def step_closed_def by fastforce

section \<open>Well-formed executor states\<close>

definition exec_wf :: "execution_step list \<Rightarrow> exec_state \<Rightarrow> bool" where
  "exec_wf ss st \<longleftrightarrow>
     distinct (map step_id ss) \<and> set (map fst (ex_results st)) \<subseteq> set (map step_id ss) \<and>
     distinct_keys (ex_results st) \<and>
     ex_remaining st =
       map (\<lambda>s. (step_id s, s)) (filter (\<lambda>s. \<not> has_key (ex_results st) (step_id s)) ss)"

lemma ready_steps_wf:
  assumes "exec_wf ss st"
  shows "s \<in> set (ready_steps st) \<longleftrightarrow>
     s \<in> set ss \<and> \<not> has_key (ex_results st) (step_id s) \<and>
     (\<forall>d \<in> set (depends_on s). has_key (ex_results st) d)"
  using assms by (auto simp: ready_steps_def exec_wf_def list_all_iff)

lemma distinct_ready:
  assumes "exec_wf ss st"
  shows "distinct (map step_id (ready_steps st))"
  using assms by (simp add: ready_steps_def exec_wf_def o_def distinct_map inj_on_def)

lemma has_key_remaining:
  assumes "exec_wf ss st" and "s \<in> set ss" and "\<not> has_key (ex_results st) (step_id s)"
  shows "has_key (ex_remaining st) (step_id s)"
  using assms by (auto simp: exec_wf_def has_key_def)

lemma exec_wf_recorded:
  assumes "exec_wf ss st" and "distinct (map entry_id es)"
    and "\<forall>e \<in> set es. entry_step e \<in> set ss \<and> \<not> has_key (ex_results st) (entry_id e)"
  shows "exec_wf ss (recorded xid es st)"
proof -
  let ?res = "ex_results (recorded xid es st)"
  have keys: "map fst ?res = map fst (ex_results st) @ map entry_id es" by simp
  have "set (map entry_id es) \<inter> set (map fst (ex_results st)) = {}"
    using assms(3) by (auto simp: has_key_def)
  with assms(1,2) have "distinct_keys ?res" unfolding keys by (auto simp: exec_wf_def)
  moreover have "set (map fst ?res) \<subseteq> set (map step_id ss)"
    using assms(1,3) unfolding keys by (auto simp: exec_wf_def)
  moreover have "ex_remaining (recorded xid es st) =
      map (\<lambda>s. (step_id s, s)) (filter (\<lambda>s. \<not> has_key ?res (step_id s)) ss)"
    using assms(1) by (auto simp: exec_wf_def filter_map intro!: filter_cong)
  ultimately show ?thesis using assms(1) by (simp add: exec_wf_def)
qed

section \<open>A wave is a sequence of specification steps\<close>

lemma refs_stable:
  assumes deps: "\<forall>d \<in> set (depends_on s). has_key res d" and "step_closed ids s"
    and "set (map fst new) \<subseteq> set ids"
  shows "resolve_references (res @ new) (JObj (arguments s)) = resolve_references res (JObj (arguments s))"
    and "dependency_failed (res @ new) s = dependency_failed res s"
proof -
  have same: "dict_get (res @ new) x = dict_get res x" if "has_key res x \<or> x \<notin> set ids" for x
  proof (cases "has_key res x")
    case False
    with that assms(3) have "\<not> has_key new x" by (auto simp: has_key_def)
    with False show ?thesis by (simp add: has_key_iff map_add_def)
  qed (auto simp: has_key_iff map_add_def)
  show "resolve_references (res @ new) (JObj (arguments s)) = resolve_references res (JObj (arguments s))"
    using assms(2) deps unfolding step_closed_def by (intro resolve_cong(1) ballI same) blast
  have "(case dict_get (res @ new) d of None \<Rightarrow> False | Some r \<Rightarrow> unavailable r) =
      (case dict_get res d of None \<Rightarrow> False | Some r \<Rightarrow> unavailable r)"
    if "d \<in> set (depends_on s)" for d
    using same [of d] deps that by simp
  then show "dependency_failed (res @ new) s = dependency_failed res s"
    unfolding dependency_failed_def list_ex_iff by blast
qed

lemma prepare_step_cases:
  assumes "prepare_step needs xid user res s (db, es, xs) = Inr w"
  obtains (entry) r args where "w = (db, es @ [entry_of s r None args], xs)"
      and "dependency_failed res s \<and> r = skipped_result s \<and> args = JObj (arguments s) \<or>
        \<not> dependency_failed res s \<and> args = JObj (arguments s) \<and>
        (\<exists>e. resolve_references res (JObj (arguments s)) = Inl e \<and> r = unresolved_result s e)"
    | (gated) args where "\<not> dependency_failed res s"
      and "resolve_references res (JObj (arguments s)) = Inr args"
      and "needs (service s) (operation s) = Inr True"
      and "w = (add_approval (new_approval (next_id db) xid user s args) db,
        es @ [entry_of s (awaiting_result s (next_id db)) (Some (next_id db)) args], xs)"
    | (execute) args where "\<not> dependency_failed res s"
      and "resolve_references res (JObj (arguments s)) = Inr args"
      and "needs (service s) (operation s) = Inr False"
      and "w = (db, es, xs @ [(s, args)])"
proof (cases "dependency_failed res s")
  case True
  with assms show ?thesis by (intro entry) (simp_all add: prepare_step_def entry_of_def)
next
  case False
  show ?thesis
  proof (cases "resolve_references res (JObj (arguments s))")
    case (Inl e)
    with False assms show ?thesis by (intro entry) (simp_all add: prepare_step_def entry_of_def)
  next
    case (Inr args)
    show ?thesis
    proof (cases "needs (service s) (operation s)")
      case (Inr b)
      with \<open>resolve_references _ _ = Inr args\<close> False assms show ?thesis
        by (cases b) (auto simp: prepare_step_def entry_of_def Let_def simp del: resolve_references.simps
            intro: gated execute)
    qed (use Inr False assms in \<open>simp add: prepare_step_def del: resolve_references.simps\<close>)
  qed
qed

text \<open>
  What holds while a wave that started in \<open>st0\<close> has processed some of its steps and reached \<open>st\<close>.
\<close>

definition within_wave :: "execution_step list \<Rightarrow> exec_state \<Rightarrow> exec_state \<Rightarrow> bool" where
  "within_wave ss st0 st \<longleftrightarrow> exec_wf ss st0 \<and> exec_wf ss st \<and>
     (\<exists>new. ex_results st = ex_results st0 @ new \<and> set (map fst new) \<subseteq> set (map step_id ss))"

lemma within_wave_refl: "exec_wf ss st \<Longrightarrow> within_wave ss st st"
  by (auto simp: within_wave_def)

lemma within_wave_ready:
  assumes "within_wave ss st0 st" and "s \<in> set (ready_steps st0)"
    and "\<not> has_key (ex_results st) (step_id s)"
  shows "s \<in> set (ready_steps st)"
  using assms ready_steps_wf [of ss st0 s] ready_steps_wf [of ss st s]
  by (auto simp: within_wave_def)

lemma within_wave_same:
  assumes "within_wave ss st0 st" and "s \<in> set (ready_steps st0)"
    and "step_closed (map step_id ss) s"
  shows "resolve_references (ex_results st) (JObj (arguments s)) =
         resolve_references (ex_results st0) (JObj (arguments s))"
    and "dependency_failed (ex_results st) s = dependency_failed (ex_results st0) s"
  using assms refs_stable [of s "ex_results st0" "map step_id ss"] ready_steps_wf [of ss st0 s]
  by (auto simp: within_wave_def)

lemma exec_wf_db: "exec_wf ss (st\<lparr>ex_db := db\<rparr>) = exec_wf ss st"
  "exec_wf ss (st\<lparr>ex_calls := calls\<rparr>) = exec_wf ss st"
  by (simp_all add: exec_wf_def)

lemma ready_steps_db: "ready_steps (st\<lparr>ex_db := db\<rparr>) = ready_steps st"
  "ready_steps (st\<lparr>ex_calls := calls\<rparr>) = ready_steps st"
  by (simp_all add: ready_steps_def)

lemma within_wave_recorded:
  assumes "within_wave ss st0 st" and "entry_step e \<in> set ss" and "\<not> has_key (ex_results st) (entry_id e)"
  shows "within_wave ss st0 (recorded xid [e] (st\<lparr>ex_db := db\<rparr>))"
    and "within_wave ss st0 (recorded xid [e] (st\<lparr>ex_calls := calls\<rparr>))"
  using assms exec_wf_recorded [of ss "st\<lparr>ex_db := db\<rparr>" "[e]" xid]
    exec_wf_recorded [of ss "st\<lparr>ex_calls := calls\<rparr>" "[e]" xid]
  by (auto simp: within_wave_def exec_wf_db)

lemma add_approval_step_rows:
  "(add_approval r db)\<lparr>step_rows := rows\<rparr> = add_approval r (db\<lparr>step_rows := rows\<rparr>)"
  by (cases db) (simp add: add_approval_def)

lemma prepare_seq:
  assumes "prepare_steps needs xid user (ex_results st0) todo (db, es0, xs0) = Inr (db', es1, xs1)"
    and "within_wave ss st0 st" and "ex_db st = db\<lparr>step_rows := rows\<rparr>"
    and "set todo \<subseteq> set (ready_steps st0)" and "distinct (map step_id todo)"
    and "\<forall>s \<in> set todo. \<not> has_key (ex_results st) (step_id s) \<and> step_closed (map step_id ss) s"
  shows "\<exists>es xs. es1 = es0 @ es \<and> xs1 = xs0 @ xs \<and>
     mset (map entry_step es) + mset (map fst xs) = mset todo \<and>
     (spec_step needs run xid user)\<^sup>*\<^sup>* st (recorded xid es (st\<lparr>ex_db := db'\<lparr>step_rows := rows\<rparr>\<rparr>)) \<and>
     (\<forall>(s, a) \<in> set xs. \<not> dependency_failed (ex_results st0) s \<and>
        resolve_references (ex_results st0) (JObj (arguments s)) = Inr a \<and>
        needs (service s) (operation s) = Inr False)"
  using assms
proof (induction todo arbitrary: st db es0 xs0 rows)
  case Nil
  then have eq: "st\<lparr>ex_db := db'\<lparr>step_rows := rows\<rparr>\<rparr> = st" by simp
  have "es1 = es0" "xs1 = xs0" using Nil by simp_all
  then show ?case
    by (intro exI [of _ "[]"]) (simp only: eq recorded_Nil, simp)
next
  case (Cons s todo)
  from Cons.prems(1) obtain w
    where w: "prepare_step needs xid user (ex_results st0) s (db, es0, xs0) = Inr w"
      and rest: "prepare_steps needs xid user (ex_results st0) todo w = Inr (db', es1, xs1)"
    by (auto split: sum.splits)
  have wf: "exec_wf ss st" using Cons.prems(2) by (simp add: within_wave_def)
  have ready: "s \<in> set (ready_steps st)"
    using Cons.prems(2,4,6) by (auto intro: within_wave_ready)
  then have s: "s \<in> set ss" "\<not> has_key (ex_results st) (step_id s)"
    by (auto simp: ready_steps_wf [OF wf])
  note same = within_wave_same [OF Cons.prems(2), of s]
  have fresh: "\<forall>t \<in> set todo. step_id t \<noteq> step_id s"
    using Cons.prems(5) by (simp add: image_iff) metis
  text \<open>A step that leaves an entry is a step of the specification.\<close>
  have step_entry: ?case
    if step: "spec_step needs run xid user st (recorded xid [e] (st\<lparr>ex_db := db1\<lparr>step_rows := rows\<rparr>\<rparr>))"
      and e: "entry_step e = s" and w: "w = (db1, es0 @ [e], xs0)" for e db1
  proof -
    let ?st = "recorded xid [e] (st\<lparr>ex_db := db1\<lparr>step_rows := rows\<rparr>\<rparr>)"
    let ?rows = "rows @ [new_step_row xid e]"
    have "\<exists>es xs. es1 = (es0 @ [e]) @ es \<and> xs1 = xs0 @ xs \<and>
       mset (map entry_step es) + mset (map fst xs) = mset todo \<and>
       (spec_step needs run xid user)\<^sup>*\<^sup>* ?st (recorded xid es (?st\<lparr>ex_db := db'\<lparr>step_rows := ?rows\<rparr>\<rparr>)) \<and>
       (\<forall>(s, a) \<in> set xs. \<not> dependency_failed (ex_results st0) s \<and>
          resolve_references (ex_results st0) (JObj (arguments s)) = Inr a \<and>
          needs (service s) (operation s) = Inr False)"
    proof (rule Cons.IH)
      show "within_wave ss st0 ?st" using Cons.prems(2) s e by (intro within_wave_recorded) simp_all
    qed (use rest w e Cons.prems fresh in auto)
    then obtain es xs where es: "es1 = es0 @ e # es" "xs1 = xs0 @ xs"
        "mset (map entry_step es) + mset (map fst xs) = mset todo"
      and run: "(spec_step needs run xid user)\<^sup>*\<^sup>* ?st (recorded xid es (?st\<lparr>ex_db := db'\<lparr>step_rows := ?rows\<rparr>\<rparr>))"
      and xs: "\<forall>(s, a) \<in> set xs. \<not> dependency_failed (ex_results st0) s \<and>
          resolve_references (ex_results st0) (JObj (arguments s)) = Inr a \<and>
          needs (service s) (operation s) = Inr False"
      by auto
    have "recorded xid es (?st\<lparr>ex_db := db'\<lparr>step_rows := ?rows\<rparr>\<rparr>) =
        recorded xid (e # es) (st\<lparr>ex_db := db'\<lparr>step_rows := rows\<rparr>\<rparr>)"
      by (simp add: recorded_def map_filter_def conj_commute cong: filter_cong)
    with step run have "(spec_step needs run xid user)\<^sup>*\<^sup>* st
        (recorded xid (e # es) (st\<lparr>ex_db := db'\<lparr>step_rows := rows\<rparr>\<rparr>))"
      by (metis converse_rtranclp_into_rtranclp)
    with es e xs show ?thesis by (intro exI [of _ "e # es"] exI [of _ xs]) auto
  qed
  from w show ?case
  proof (cases rule: prepare_step_cases)
    case (entry r args)
    with ready same Cons.prems(4,6)
    have "spec_step needs run xid user st (recorded xid [entry_of s r None args] st)"
      by (auto intro: spec_step.skip spec_step.unresolved)
    moreover have "st = st\<lparr>ex_db := db\<lparr>step_rows := rows\<rparr>\<rparr>" using Cons.prems(3) by simp
    ultimately show ?thesis using entry(1) by (intro step_entry) auto
  next
    case (gated args)
    let ?e = "entry_of s (awaiting_result s (next_id db)) (Some (next_id db)) args"
    have "spec_step needs run xid user st (recorded xid [?e]
        (st\<lparr>ex_db := add_approval (new_approval (next_id db) xid user s args) (ex_db st)\<rparr>))"
      using ready same gated Cons.prems(3,4,6) by (intro spec_step.gate) auto
    then show ?thesis
      using gated(4) Cons.prems(3)
      by (intro step_entry [of ?e]) (simp_all add: add_approval_step_rows)
  next
    case (execute args)
    have "\<exists>es xs. es1 = es0 @ es \<and> xs1 = (xs0 @ [(s, args)]) @ xs \<and>
       mset (map entry_step es) + mset (map fst xs) = mset todo \<and>
       (spec_step needs run xid user)\<^sup>*\<^sup>* st (recorded xid es (st\<lparr>ex_db := db'\<lparr>step_rows := rows\<rparr>\<rparr>)) \<and>
       (\<forall>(s, a) \<in> set xs. \<not> dependency_failed (ex_results st0) s \<and>
          resolve_references (ex_results st0) (JObj (arguments s)) = Inr a \<and>
          needs (service s) (operation s) = Inr False)"
      using rest execute(4) Cons.prems by (intro Cons.IH) auto
    then show ?thesis using execute(1-3) by (auto simp del: resolve_references.simps)
  qed
qed

lemma gather_seq:
  assumes "gather_calls run (ex_calls st) todo = (calls', es)"
    and "within_wave ss st0 st" and "distinct (map (\<lambda>x. step_id (fst x)) todo)"
    and "\<forall>(s, a) \<in> set todo. s \<in> set (ready_steps st0) \<and> \<not> has_key (ex_results st) (step_id s) \<and>
      step_closed (map step_id ss) s \<and> \<not> dependency_failed (ex_results st0) s \<and>
      resolve_references (ex_results st0) (JObj (arguments s)) = Inr a \<and>
      needs (service s) (operation s) = Inr False"
  shows "map entry_step es = map fst todo \<and>
     (spec_step needs run xid user)\<^sup>*\<^sup>* st (recorded xid es (st\<lparr>ex_calls := calls'\<rparr>))"
  using assms
proof (induction todo arbitrary: st es)
  case Nil
  then have eq: "st\<lparr>ex_calls := calls'\<rparr> = st" and "es = []" by auto
  then show ?case by (simp only: eq recorded_Nil) simp
next
  case (Cons x todo)
  obtain s a where x: "x = (s, a)" by (cases x)
  let ?r = "run (length (ex_calls st)) (service s) (operation s) a"
  let ?e = "entry_of s (step_result_of s ?r) None a"
  let ?st = "recorded xid [?e] (st\<lparr>ex_calls := log_call s a ?r (ex_calls st)\<rparr>)"
  obtain es' where es: "es = ?e # es'"
    and rest: "gather_calls run (ex_calls ?st) todo = (calls', es')"
    using Cons.prems(1)
    by (auto simp: x Let_def entry_of_def log_call_def call_of_def split: prod.splits dispatch_outcome.splits)
  have s: "s \<in> set (ready_steps st0)" "\<not> has_key (ex_results st) (step_id s)"
    and args: "step_closed (map step_id ss) s" "\<not> dependency_failed (ex_results st0) s"
      "resolve_references (ex_results st0) (JObj (arguments s)) = Inr a"
      "needs (service s) (operation s) = Inr False"
    using Cons.prems(4) by (simp_all add: x del: resolve_references.simps)
  have ready: "s \<in> set (ready_steps st)" using Cons.prems(2) s by (rule within_wave_ready)
  note same = within_wave_same [OF Cons.prems(2) s(1) args(1)]
  have step: "spec_step needs run xid user st ?st"
    using ready same args by (intro spec_step.dispatch) auto
  have "exec_wf ss st" using Cons.prems(2) by (simp add: within_wave_def)
  with ready have "s \<in> set ss" by (simp add: ready_steps_wf)
  with Cons.prems(2) s(2) have within: "within_wave ss st0 ?st"
    by (intro within_wave_recorded) simp_all
  have "\<forall>(t, a) \<in> set todo. step_id t \<noteq> step_id s" using Cons.prems(3) by (force simp: x)
  then have "map entry_step es' = map fst todo \<and>
     (spec_step needs run xid user)\<^sup>*\<^sup>* ?st (recorded xid es' (?st\<lparr>ex_calls := calls'\<rparr>))"
    using rest within Cons.prems(3,4)
    by (intro Cons.IH) (auto simp: x simp del: resolve_references.simps)
  moreover have "recorded xid es' (?st\<lparr>ex_calls := calls'\<rparr>) = recorded xid es (st\<lparr>ex_calls := calls'\<rparr>)"
    by (simp add: es recorded_def map_filter_def conj_commute cong: filter_cong)
  ultimately show ?case
    using step by (simp add: es x) (metis converse_rtranclp_into_rtranclp es)
qed

lemma prepare_step_db:
  assumes "prepare_step needs xid user res s (db, es, xs) = Inr (db', es', xs')"
  shows "step_rows db' = step_rows db \<and> executions db' = executions db \<and> audit_logs db' = audit_logs db"
  using assms by (rule prepare_step_cases) (auto simp: add_approval_def)

lemma prepare_steps_db:
  assumes "prepare_steps needs xid user res ss (db, es, xs) = Inr (db', es', xs')"
  shows "step_rows db' = step_rows db \<and> executions db' = executions db \<and> audit_logs db' = audit_logs db"
  using assms
  by (induction ss arbitrary: db es xs) (fastforce split: sum.splits dest: prepare_step_db)+

theorem run_wave_refines:
  assumes prep: "prepare_steps needs xid user (ex_results st) (ready_steps st) (ex_db st, [], []) = Inr (db, es, xs)"
    and wf: "exec_wf ss st" and closed: "\<forall>s \<in> set ss. step_closed (map step_id ss) s"
  obtains st' where "run_wave needs run xid user st = Inr st'" and "exec_wf ss st'"
    and "(spec_step needs run xid user)\<^sup>*\<^sup>* st st'"
proof -
  obtain calls called where gather: "gather_calls run (ex_calls st) xs = (calls, called)"
    by (cases "gather_calls run (ex_calls st) xs")
  have ready: "\<forall>s \<in> set (ready_steps st). s \<in> set ss \<and> \<not> has_key (ex_results st) (step_id s)"
    using ready_steps_wf [OF wf] by blast
  note dist = distinct_ready [OF wf]
  have "ex_db st = (ex_db st)\<lparr>step_rows := step_rows (ex_db st)\<rparr>" by simp
  from prepare_seq [OF prep within_wave_refl [OF wf] this subset_refl dist, of run] ready closed
  have parts: "mset (map entry_step es) + mset (map fst xs) = mset (ready_steps st)"
    and seq1: "(spec_step needs run xid user)\<^sup>*\<^sup>* st
        (recorded xid es (st\<lparr>ex_db := db\<lparr>step_rows := step_rows (ex_db st)\<rparr>\<rparr>))"
    and xs: "\<forall>(s, a) \<in> set xs. \<not> dependency_failed (ex_results st) s \<and>
        resolve_references (ex_results st) (JObj (arguments s)) = Inr a \<and>
        needs (service s) (operation s) = Inr False"
    by auto
  let ?st = "recorded xid es (st\<lparr>ex_db := db\<rparr>)"
  have db: "db\<lparr>step_rows := step_rows (ex_db st)\<rparr> = db" using prepare_steps_db [OF prep] by simp
  have "mset (map step_id (map entry_step es @ map fst xs)) = mset (map step_id (ready_steps st))"
    using parts by (metis mset_append mset_map)
  with dist have dist': "distinct (map step_id (map entry_step es @ map fst xs))"
    by (metis mset_eq_imp_distinct_iff)
  have in_ready: "\<forall>s \<in> set (map entry_step es) \<union> set (map fst xs). s \<in> set (ready_steps st)"
    using parts by (metis mset_append set_append set_mset_mset)
  have wf1: "exec_wf ss ?st"
    using wf dist' in_ready ready by (intro exec_wf_recorded) (auto simp: exec_wf_db o_def)
  then have within: "within_wave ss st ?st"
    using wf in_ready ready by (auto simp: within_wave_def)
  have todo: "s \<in> set (ready_steps st) \<and> \<not> has_key (ex_results ?st) (step_id s) \<and>
      step_closed (map step_id ss) s \<and> \<not> dependency_failed (ex_results st) s \<and>
      resolve_references (ex_results st) (JObj (arguments s)) = Inr a \<and>
      needs (service s) (operation s) = Inr False" if "(s, a) \<in> set xs" for s a
  proof -
    have "s \<in> set (ready_steps st)" using in_ready that by force
    moreover have "step_id s \<notin> entry_id ` set es" using dist' that by force
    ultimately show ?thesis using ready closed xs that by (auto simp del: resolve_references.simps)
  qed
  have "distinct (map (\<lambda>x. step_id (fst x)) xs)" using dist' by (simp add: o_def)
  moreover have "gather_calls run (ex_calls ?st) xs = (calls, called)" using gather by simp
  ultimately have seq2: "map entry_step called = map fst xs \<and>
     (spec_step needs run xid user)\<^sup>*\<^sup>* ?st (recorded xid called (?st\<lparr>ex_calls := calls\<rparr>))"
    using within todo by (intro gather_seq) blast+
  have ids: "map entry_id called = map (\<lambda>x. step_id (fst x)) xs"
    using seq2 by (metis (no_types, lifting) list.map_comp map_eq_conv o_def)
  have all_ready: "\<forall>e \<in> set (es @ called). entry_step e \<in> set (ready_steps st)"
    using in_ready seq2 by (metis Un_iff image_eqI list.set_map set_append)
  have all_dist: "distinct (map entry_id (es @ called))" using dist' ids by (simp add: o_def)
  let ?last = "recorded xid (es @ called) (st\<lparr>ex_db := db, ex_calls := calls\<rparr>)"
  have "recorded xid called (?st\<lparr>ex_calls := calls\<rparr>) = ?last"
    unfolding recorded_append by (simp add: recorded_def)
  moreover have "(spec_step needs run xid user)\<^sup>*\<^sup>* st ?st" using seq1 db by simp
  moreover have "run_wave needs run xid user st = Inr ?last"
    using ready has_key_remaining [OF wf] all_ready all_dist
    by (simp add: run_wave_def prep gather record_entries_recorded)
  moreover have "exec_wf ss ?last"
    using wf ready all_ready all_dist by (intro exec_wf_recorded) (auto simp: exec_wf_db)
  ultimately show ?thesis using seq2 that by (metis rtranclp_trans)
qed

end
