(* ===== verification/Executor_Correct.thy ===== *)
theory Executor_Correct
  imports Executor_Refinement
begin

text \<open>
  What the executor guarantees. The interface \<open>step_dispatch\<close> is what the loop needs of a registry;
  its lemmas are used through the interpretation on the code's registry. An accepted plan always
  runs to the end, and the final state is the replay of a trace: one decision per step.
\<close>

section \<open>Traces\<close>

datatype decision =
    Skip
  | Fail resolve_error
  | Gate nat json
  | Dispatch nat json dispatch_outcome

fun decision_result :: "execution_step \<Rightarrow> decision \<Rightarrow> step_result" where
  "decision_result s Skip = skipped_result s"
| "decision_result s (Fail e) = unresolved_result s e"
| "decision_result s (Gate aid args) = awaiting_result s aid"
| "decision_result s (Dispatch n args r) = step_result_of s r"

fun decision_entry :: "execution_step \<times> decision \<Rightarrow> wave_entry" where
  "decision_entry (s, Skip) = entry_of s (skipped_result s) None (JObj (arguments s))"
| "decision_entry (s, Fail e) = entry_of s (unresolved_result s e) None (JObj (arguments s))"
| "decision_entry (s, Gate aid args) = entry_of s (awaiting_result s aid) (Some aid) args"
| "decision_entry (s, Dispatch n args r) = entry_of s (step_result_of s r) None args"

fun decision_calls :: "execution_step \<times> decision \<Rightarrow> agent_call list" where
  "decision_calls (s, Dispatch n args r) = log_call s args r []"
| "decision_calls _ = []"

fun decision_approvals :: "nat \<Rightarrow> nat \<Rightarrow> execution_step \<times> decision \<Rightarrow> approval_row list" where
  "decision_approvals xid user (s, Gate aid args) = [new_approval aid xid user s args]"
| "decision_approvals xid user _ = []"

text \<open>The decision the code takes for a step, given the results it can refer to.\<close>

definition decided ::
  "needs_approval \<Rightarrow> dispatcher \<Rightarrow> results \<Rightarrow> execution_step \<Rightarrow> decision \<Rightarrow> bool" where
  "decided needs run res s d \<longleftrightarrow>
     (case d of
        Skip \<Rightarrow> dependency_failed res s
      | Fail e \<Rightarrow> \<not> dependency_failed res s \<and> resolve_references res (JObj (arguments s)) = Inl e
      | Gate aid args \<Rightarrow> \<not> dependency_failed res s \<and>
          resolve_references res (JObj (arguments s)) = Inr args \<and>
          needs (service s) (operation s) = Inr True
      | Dispatch n args r \<Rightarrow> \<not> dependency_failed res s \<and>
          resolve_references res (JObj (arguments s)) = Inr args \<and>
          needs (service s) (operation s) = Inr False \<and> r = run n (service s) (operation s) args)"

lemma decision_entry_sel [simp]:
  "entry_step (decision_entry (s, d)) = s"
  "entry_result (decision_entry (s, d)) = decision_result s d"
  by (cases d; simp)+

lemma decided_stable:
  assumes "decided needs run res s d" and "\<forall>x \<in> set (depends_on s). has_key res x"
    and "step_closed ids s" and "set (map fst new) \<subseteq> set ids"
  shows "decided needs run (res @ new) s d"
  using assms(1) refs_stable [OF assms(2-4)] unfolding decided_def by (simp only:)

type_synonym trace = "(execution_step \<times> decision) list"

definition replays :: "nat \<Rightarrow> nat \<Rightarrow> exec_state \<Rightarrow> trace \<Rightarrow> exec_state \<Rightarrow> bool" where
  "replays xid user st0 tr st \<longleftrightarrow>
     ex_results st = map (\<lambda>(s, d). (step_id s, decision_result s d)) tr \<and>
     ex_calls st = ex_calls st0 @ concat (map decision_calls tr) \<and>
     ex_approval_ids st = map appr_id (concat (map (decision_approvals xid user) tr)) \<and>
     approvals (ex_db st) = approvals (ex_db st0) @ concat (map (decision_approvals xid user) tr) \<and>
     step_rows (ex_db st) = step_rows (ex_db st0) @ map (\<lambda>x. new_step_row xid (decision_entry x)) tr \<and>
     executions (ex_db st) = executions (ex_db st0) \<and> audit_logs (ex_db st) = audit_logs (ex_db st0) \<and>
     ex_approval_ids st = [next_id (ex_db st0) ..< next_id (ex_db st)] \<and>
     next_id (ex_db st0) \<le> next_id (ex_db st)"

text \<open>
  A legal trace: every decision is the one the code takes, given the results of the whole trace,
  and a step comes after its dependencies.
\<close>

definition legal :: "needs_approval \<Rightarrow> dispatcher \<Rightarrow> execution_step list \<Rightarrow> trace \<Rightarrow> bool" where
  "legal needs run ss tr \<longleftrightarrow>
     set (map fst tr) \<subseteq> set ss \<and> distinct (map (\<lambda>x. step_id (fst x)) tr) \<and>
     (\<forall>(s, d) \<in> set tr.
        decided needs run (map (\<lambda>(s, d). (step_id s, decision_result s d)) tr) s d) \<and>
     (\<forall>i < length tr. set (depends_on (fst (tr ! i))) \<subseteq> set (map (\<lambda>x. step_id (fst x)) (take i tr)))"

lemma legal_snoc:
  assumes legal: "legal needs run ss tr" and s: "s \<in> set ss" "step_id s \<notin> (\<lambda>x. step_id (fst x)) ` set tr"
    and deps: "set (depends_on s) \<subseteq> set (map (\<lambda>x. step_id (fst x)) tr)"
    and d: "decided needs run (map (\<lambda>(s, d). (step_id s, decision_result s d)) tr) s d"
    and closed: "\<forall>s \<in> set ss. step_closed (map step_id ss) s"
  shows "legal needs run ss (tr @ [(s, d)])"
proof -
  let ?res = "map (\<lambda>(s, d). (step_id s, decision_result s d)) tr"
  have fst_res: "map fst ?res = map (\<lambda>x. step_id (fst x)) tr" by (simp add: o_def case_prod_beta)
  have stable: "decided needs run (?res @ [(step_id s, decision_result s d)]) t c"
    if "decided needs run ?res t c" "t \<in> set ss" "set (depends_on t) \<subseteq> set (map (\<lambda>x. step_id (fst x)) tr)" for t c
    using that closed s(1) fst_res
    by (intro decided_stable [of _ _ _ _ _ "map step_id ss"]) (auto simp: has_key_def)
  have old: "t \<in> set ss \<and> decided needs run ?res t c \<and>
      set (depends_on t) \<subseteq> set (map (\<lambda>x. step_id (fst x)) tr)" if tc: "(t, c) \<in> set tr" for t c
  proof -
    from tc obtain i where "i < length tr" "tr ! i = (t, c)" by (auto simp: in_set_conv_nth)
    with legal have "set (depends_on t) \<subseteq> set (map (\<lambda>x. step_id (fst x)) (take i tr))"
      by (fastforce simp: legal_def)
    then have "set (depends_on t) \<subseteq> set (map (\<lambda>x. step_id (fst x)) tr)"
      by (auto dest: in_set_takeD)
    with legal tc show ?thesis by (force simp: legal_def)
  qed
  have "\<forall>(t, c) \<in> set (tr @ [(s, d)]).
      decided needs run (?res @ [(step_id s, decision_result s d)]) t c"
    using old stable d s deps by auto
  moreover have "set (depends_on (fst ((tr @ [(s, d)]) ! i))) \<subseteq>
      set (map (\<lambda>x. step_id (fst x)) (take i (tr @ [(s, d)])))" if "i < length (tr @ [(s, d)])" for i
    using that legal deps unfolding legal_def by (cases "i < length tr") (auto simp: nth_append)
  ultimately show ?thesis using legal s unfolding legal_def by auto
qed

section \<open>Every run of the specification has a trace\<close>

lemma spec_step_trace:
  assumes step: "spec_step needs run xid user st st'" and wf: "exec_wf ss st"
    and tr: "replays xid user st0 tr st" "legal needs run ss tr"
    and closed: "\<forall>s \<in> set ss. step_closed (map step_id ss) s"
  shows "exec_wf ss st' \<and> (\<exists>x. replays xid user st0 (tr @ [x]) st' \<and> legal needs run ss (tr @ [x]))"
proof -
  have res: "ex_results st = map (\<lambda>(s, d). (step_id s, decision_result s d)) tr"
    using tr(1) by (simp add: replays_def)
  have snoc: "legal needs run ss (tr @ [(s, d)])"
    if "s \<in> set (ready_steps st)" "decided needs run (ex_results st) s d" for s d
    using that wf tr(2) closed res ready_steps_wf [OF wf, of s]
    by (intro legal_snoc) (auto simp: has_key_def image_iff case_prod_beta)
  have ready: "s \<in> set ss \<and> \<not> has_key (ex_results st) (step_id s)" if "s \<in> set (ready_steps st)" for s
    using that ready_steps_wf [OF wf] by blast
  from step show ?thesis
  proof (cases rule: spec_step.cases)
    case (skip s)
    then have "replays xid user st0 (tr @ [(s, Skip)]) st'"
      using tr(1) by (auto simp: replays_def map_filter_def)
    moreover have "exec_wf ss st'"
      unfolding skip(1) by (rule exec_wf_recorded [OF wf]) (use ready skip in auto)
    ultimately show ?thesis
      using snoc [of s Skip] skip by (auto simp: decided_def)
  next
    case (unresolved s e)
    then have "replays xid user st0 (tr @ [(s, Fail e)]) st'"
      using tr(1) by (auto simp: replays_def map_filter_def)
    moreover have "exec_wf ss st'"
      unfolding unresolved(1) by (rule exec_wf_recorded [OF wf]) (use ready unresolved in auto)
    ultimately show ?thesis
      using snoc [of s "Fail e"] unresolved by (auto simp: decided_def simp del: resolve_references.simps)
  next
    case (gate s args aid)
    then have "replays xid user st0 (tr @ [(s, Gate aid args)]) st'"
      using tr(1) by (auto simp: replays_def map_filter_def add_approval_def new_approval_def)
    moreover have "exec_wf ss st'"
      unfolding gate(1) by (rule exec_wf_recorded) (use wf ready gate in \<open>auto simp: exec_wf_db\<close>)
    ultimately show ?thesis
      using snoc [of s "Gate aid args"] gate by (auto simp: decided_def simp del: resolve_references.simps)
  next
    case (dispatch s args r)
    let ?d = "Dispatch (length (ex_calls st)) args r"
    have "replays xid user st0 (tr @ [(s, ?d)]) st'"
      using tr(1) dispatch(1) by (auto simp: replays_def map_filter_def log_call_def split: dispatch_outcome.split)
    moreover have "exec_wf ss st'"
      unfolding dispatch(1) by (rule exec_wf_recorded) (use wf ready dispatch in \<open>auto simp: exec_wf_db\<close>)
    ultimately show ?thesis
      using snoc [of s ?d] dispatch by (auto simp: decided_def simp del: resolve_references.simps)
  qed
qed

lemma spec_steps_trace:
  assumes "(spec_step needs run xid user)\<^sup>*\<^sup>* st st'" and "exec_wf ss st"
    and "replays xid user st0 tr st" and "legal needs run ss tr"
    and "\<forall>s \<in> set ss. step_closed (map step_id ss) s"
  shows "exec_wf ss st' \<and> (\<exists>tr'. replays xid user st0 tr' st' \<and> legal needs run ss tr')"
  using assms(1)
proof (induction rule: rtranclp_induct)
  case base
  with assms show ?case by blast
next
  case (step st1 st2)
  with spec_step_trace [OF step.hyps(2)] assms(5) show ?case by blast
qed

section \<open>The interface of a registry\<close>

text \<open>
  The registry decides for every operation it supports whether it needs approval, and an agent is
  invoked only for a supported operation.
\<close>

locale step_dispatch =
  fixes needs :: needs_approval and run :: dispatcher and supported :: "service \<Rightarrow> string \<Rightarrow> bool"
  assumes needs_total: "supported svc op \<Longrightarrow> \<exists>b. needs svc op = Inr b"
    and called_supported: "run n svc op args = Called r \<Longrightarrow> supported svc op"
begin

lemma prepare_step_total:
  assumes "supported (service s) (operation s)"
  shows "\<exists>w'. prepare_step needs xid user res s w = Inr w'"
proof -
  obtain b where "needs (service s) (operation s) = Inr b" using needs_total [OF assms] ..
  then show ?thesis
    by (cases w; cases b)
      (auto simp: prepare_step_def Let_def simp del: resolve_references.simps split: sum.split)
qed

lemma prepare_steps_total:
  assumes "\<forall>s \<in> set ss. supported (service s) (operation s)"
  shows "\<exists>w'. prepare_steps needs xid user res ss w = Inr w'"
  using assms
proof (induction ss arbitrary: w)
  case (Cons s ss)
  obtain w1 where "prepare_step needs xid user res s w = Inr w1"
    using prepare_step_total Cons.prems by (metis list.set_intros(1))
  with Cons show ?case by simp
next
  case Nil
  show ?case by (intro exI [of _ w]) simp
qed

lemma run_wave_total:
  assumes "exec_wf ss st" and "\<forall>s \<in> set ss. supported (service s) (operation s)"
    and "\<forall>s \<in> set ss. step_closed (map step_id ss) s"
  obtains st' where "run_wave needs run xid user st = Inr st'" and "exec_wf ss st'"
    and "(spec_step needs run xid user)\<^sup>*\<^sup>* st st'"
proof -
  have "\<forall>s \<in> set (ready_steps st). supported (service s) (operation s)"
    using assms(1,2) ready_steps_wf by blast
  from prepare_steps_total [OF this] obtain db es xs
    where "prepare_steps needs xid user (ex_results st) (ready_steps st) (ex_db st, [], []) = Inr (db, es, xs)"
    by (metis prod_cases3)
  from run_wave_refines [OF this assms(1,3)] that show ?thesis by metis
qed

lemma ready_exists:
  assumes "valid_plan p" and "exec_wf (steps p) st" and "ex_remaining st \<noteq> []"
  shows "ready_steps st \<noteq> []"
proof -
  from assms(2,3) obtain s where "s \<in> set (steps p)" "\<not> has_key (ex_results st) (step_id s)"
    by (auto simp: exec_wf_def filter_empty_conv)
  with assms(2) have "set (map fst (ex_results st)) \<subset> set (plan_ids p)"
    by (auto simp: exec_wf_def plan_ids_def has_key_def)
  from valid_plan_ready [OF assms(1) this] obtain t where "t \<in> set (steps p)"
    "step_id t \<notin> set (map fst (ex_results st))" "set (depends_on t) \<subseteq> set (map fst (ex_results st))" .
  then have "t \<in> set (ready_steps st)"
    using ready_steps_wf [OF assms(2)] by (auto simp: has_key_def)
  then show ?thesis by auto
qed

text \<open>An accepted plan runs to the end, and the run is one of the specification.\<close>

lemma run_waves_total:
  assumes "valid_plan p" and "exec_wf (steps p) st"
    and "\<forall>s \<in> set (steps p). supported (service s) (operation s)"
    and "\<forall>s \<in> set (steps p). step_closed (plan_ids p) s"
  shows "\<exists>st'. run_waves needs run xid user st = Inr st' \<and> ex_remaining st' = [] \<and>
     exec_wf (steps p) st' \<and> (spec_step needs run xid user)\<^sup>*\<^sup>* st st'"
  using assms(2)
proof (induction "length (ex_remaining st)" arbitrary: st rule: less_induct)
  case less
  show ?case
  proof (cases "ex_remaining st = []")
    case True
    with less.prems show ?thesis by (intro exI [of _ st]) (simp add: run_waves.simps)
  next
    case False
    then have ready: "ready_steps st \<noteq> []" using ready_exists assms(1) less.prems by blast
    from run_wave_total [OF less.prems assms(3)] assms(4) obtain st1
      where st1: "run_wave needs run xid user st = Inr st1" "exec_wf (steps p) st1"
        "(spec_step needs run xid user)\<^sup>*\<^sup>* st st1"
      unfolding plan_ids_def by metis
    from less.hyps [OF run_wave_length [OF st1(1) ready] st1(2)] obtain st2
      where "run_waves needs run xid user st1 = Inr st2" "ex_remaining st2 = []"
        "exec_wf (steps p) st2" "(spec_step needs run xid user)\<^sup>*\<^sup>* st1 st2" by blast
    with False ready st1 show ?thesis
      by (intro exI [of _ st2]) (simp add: run_waves.simps [of needs run xid user st] rtranclp_trans)
  qed
qed

end

interpretation dispatch: step_dispatch "requires_approval reg" "registry_execute reg"
  "\<lambda>svc op. validate_operation reg svc op = Inr ()" for reg
  by unfold_locales (auto simp: requires_approval_Inr registry_execute_Called)

section \<open>The whole execution\<close>

lemma dict_of_steps:
  assumes "distinct (map step_id ss)"
  shows "dict_of [] (map (\<lambda>s. (step_id s, s)) ss) = map (\<lambda>s. (step_id s, s)) ss"
  using assms dict_of_distinct [of "[]" "map (\<lambda>s. (step_id s, s)) ss"] by (simp add: o_def)

lemma initial_wf:
  assumes "valid_plan p"
  shows "exec_wf (steps p) (initial_exec_state db calls p)"
  using assms by (simp add: exec_wf_def initial_exec_state_def valid_plan_def plan_ids_def dict_of_steps)

lemma initial_replays: "replays xid user (initial_exec_state db calls p) [] (initial_exec_state db calls p)"
  by (simp add: replays_def initial_exec_state_def)

lemma accepted_identifiers:
  assumes "plan_model_validate v = Inr p"
  shows "\<forall>x \<in> set (plan_ids p). identifier_pattern x"
proof -
  from assms obtain xs where xs: "map_res step_model_validate xs = Inr (steps p)"
    by (auto simp: plan_model_validate_Inr)
  have "identifier_pattern (step_id s)" if "step_model_validate w = Inr s" for s w
  proof -
    from that obtain d where "w = JObj d" by (cases w) (auto simp: step_model_validate_def)
    with that obtain i where "validate_identifier i = Inr (step_id s)"
      by (auto simp: step_model_validate_def required_field_def sum_case_Inr_iff split: if_splits option.splits)
    then show ?thesis by (auto simp: validate_identifier_def Let_def split: json.splits if_splits)
  qed
  with xs show ?thesis by (auto simp: plan_ids_def elim: map_res_elemE)
qed

lemma accepted_closed:
  assumes "plan_model_validate v = Inr p"
  shows "valid_plan p" and "\<forall>s \<in> set (steps p). step_closed (plan_ids p) s"
proof -
  show "valid_plan p" using assms by (auto simp: plan_model_validate_Inr)
  with accepted_identifiers [OF assms] show "\<forall>s \<in> set (steps p). step_closed (plan_ids p) s"
    by (auto simp: valid_plan_def intro: accepted_step_closed)
qed

text \<open>
  The outcome of executing an accepted plan, as the replay of a legal trace that covers the plan.
\<close>

definition outcome_of_trace ::
  "nat \<Rightarrow> nat \<Rightarrow> nat \<Rightarrow> intent \<Rightarrow> execution_plan \<Rightarrow> database \<Rightarrow> agent_call list \<Rightarrow> trace \<Rightarrow>
     execution_outcome \<times> database \<times> agent_call list \<Rightarrow> bool" where
  "outcome_of_trace xid user conversation i p db calls tr res \<longleftrightarrow> (case res of (out, db', calls') \<Rightarrow>
     (\<exists>st. replays xid user (initial_exec_state
              (add_execution (new_execution xid user conversation i p) db) calls p) tr st \<and>
        out_execution_id out = xid \<and>
        list_all2 (\<lambda>s r. dict_get (ex_results st) (step_id s) = Some r) (steps p) (out_results out) \<and>
        out_pending_approval_ids out = ex_approval_ids st \<and>
        db' = set_execution_status xid (status_value (final_status (out_results out))) (ex_db st) \<and>
        calls' = ex_calls st))"

lemma dag_execute_trace:
  assumes p: "plan_model_validate v = Inr p" and reg: "registry_validate_plan reg p = Inr ()"
  shows "\<exists>res tr. dag_execute reg user conversation i p db calls = Inr res \<and>
     legal (requires_approval reg) (registry_execute reg) (steps p) tr \<and>
     set (map (\<lambda>x. step_id (fst x)) tr) = set (plan_ids p) \<and>
     outcome_of_trace (next_id db) user conversation i p db calls tr res"
proof -
  let ?needs = "requires_approval reg" and ?run = "registry_execute reg" and ?xid = "next_id db"
  let ?db = "add_execution (new_execution ?xid user conversation i p) db"
  let ?st = "initial_exec_state ?db calls p"
  note plan = accepted_closed [OF p]
  have ops: "\<forall>s \<in> set (steps p). validate_operation reg (service s) (operation s) = Inr ()"
    using reg by (simp add: registry_validate_plan_Inr)
  from dispatch.run_waves_total [OF plan(1) initial_wf [OF plan(1)] ops plan(2)]
  obtain st where run: "run_waves ?needs ?run ?xid user ?st = Inr st"
    and st: "ex_remaining st = []" "exec_wf (steps p) st"
      "(spec_step ?needs ?run ?xid user)\<^sup>*\<^sup>* ?st st" by metis
  have "legal ?needs ?run (steps p) []" by (simp add: legal_def)
  from spec_steps_trace [OF st(3) initial_wf [OF plan(1)] initial_replays this] plan(2)
  obtain tr where tr: "replays ?xid user ?st tr st" "legal ?needs ?run (steps p) tr"
    unfolding plan_ids_def by blast
  have keys: "has_key (ex_results st) (step_id s)" if "s \<in> set (steps p)" for s
    using st(1,2) that by (auto simp: exec_wf_def filter_empty_conv)
  let ?rs = "map (\<lambda>s. the (dict_get (ex_results st) (step_id s))) (steps p)"
  have rs: "map_res (result_of_step (ex_results st)) (steps p) = Inr ?rs"
    using keys by (intro map_res_total) (fastforce simp: result_of_step_def has_key_iff)
  have all2: "list_all2 (\<lambda>s r. dict_get (ex_results st) (step_id s) = Some r) (steps p) ?rs"
    using keys by (auto simp: list_all2_conv_all_nth has_key_iff)
  have "set (map (\<lambda>x. step_id (fst x)) tr) = set (map fst (ex_results st))"
    using tr(1) by (force simp: replays_def)
  also have "\<dots> = set (plan_ids p)"
    using st(2) keys by (auto simp: exec_wf_def plan_ids_def has_key_def)
  finally have cover: "set (map (\<lambda>x. step_id (fst x)) tr) = set (plan_ids p)" .
  have "dag_execute reg user conversation i p db calls = Inr
      (\<lparr>out_execution_id = ?xid, out_results = ?rs, out_pending_approval_ids = ex_approval_ids st\<rparr>,
       set_execution_status ?xid (status_value (final_status ?rs)) (ex_db st), ex_calls st)"
    using reg run rs by (simp add: dag_execute_def Let_def)
  moreover have "outcome_of_trace ?xid user conversation i p db calls tr
      (\<lparr>out_execution_id = ?xid, out_results = ?rs, out_pending_approval_ids = ex_approval_ids st\<rparr>,
       set_execution_status ?xid (status_value (final_status ?rs)) (ex_db st), ex_calls st)"
    using tr(1) all2 by (auto simp: outcome_of_trace_def)
  ultimately show ?thesis using tr(2) cover by blast
qed

end
