(* ===== verification/Executor_Properties.thy ===== *)
theory Executor_Properties
  imports Executor_Correct
begin

text \<open>
  The properties of \<open>DAGExecutor.execute\<close> on an accepted plan, read off the trace that
  \<open>dag_execute_trace\<close> provides, with a sample run as their witness.
\<close>

section \<open>From a trace to the outcome\<close>

lemma dag_execute_Inr:
  assumes p: "plan_model_validate v = Inr p"
    and run: "dag_execute reg user conversation i p db calls = Inr (out, db', calls')"
  obtains tr where "legal (requires_approval reg) (registry_execute reg) (steps p) tr"
    and "set (map (\<lambda>x. step_id (fst x)) tr) = set (plan_ids p)"
    and "outcome_of_trace (next_id db) user conversation i p db calls tr (out, db', calls')"
    and "registry_validate_plan reg p = Inr ()"
proof -
  have reg: "registry_validate_plan reg p = Inr ()"
    using run by (cases "registry_validate_plan reg p") (auto simp: dag_execute_def)
  from dag_execute_trace [OF p reg, of user conversation i db calls] run that reg
  show ?thesis by auto
qed

text \<open>The results of the outcome as a dict over the plan's step ids.\<close>

definition outcome_results :: "execution_plan \<Rightarrow> execution_outcome \<Rightarrow> results" where
  "outcome_results p out = zip (plan_ids p) (out_results out)"

lemma outcome_of_traceD:
  assumes "outcome_of_trace xid user conversation i p db calls tr (out, db', calls')"
  shows "calls' = calls @ concat (map decision_calls tr)"
    and "approvals db' = approvals db @ concat (map (decision_approvals xid user) tr)"
    and "step_rows db' = step_rows db @ map (\<lambda>x. new_step_row xid (decision_entry x)) tr"
    and "out_pending_approval_ids out = map appr_id (concat (map (decision_approvals xid user) tr))"
    and "out_pending_approval_ids out = [Suc (next_id db) ..< next_id db']" "Suc (next_id db) \<le> next_id db'"
    and "executions db' = map (\<lambda>r. if exec_id r = xid then r\<lparr>exec_status := status_value (final_status (out_results out))\<rparr> else r)
      (executions db @ [new_execution xid user conversation i p])"
    and "out_execution_id out = xid" and "audit_logs db' = audit_logs db"
    and "list_all2 (\<lambda>s r. dict_get (map (\<lambda>(s, d). (step_id s, decision_result s d)) tr) (step_id s) = Some r)
      (steps p) (out_results out)"
  using assms
  by (auto simp: outcome_of_trace_def replays_def initial_exec_state_def set_execution_status_def
      add_execution_def)

lemma outcome_results_get:
  assumes out: "outcome_of_trace xid user conversation i p db calls tr (out, db', calls')"
    and legal: "legal needs run (steps p) tr"
    and cover: "set (map (\<lambda>x. step_id (fst x)) tr) = set (plan_ids p)" and "distinct (plan_ids p)"
  shows "dict_get (outcome_results p out) x =
         dict_get (map (\<lambda>(s, d). (step_id s, decision_result s d)) tr) x"
proof -
  let ?res = "map (\<lambda>(s, d). (step_id s, decision_result s d)) tr"
  note all2 = outcome_of_traceD(10) [OF out]
  have len: "length (plan_ids p) = length (out_results out)"
    using all2 by (simp add: plan_ids_def list_all2_lengthD)
  show ?thesis
  proof (cases "x \<in> set (plan_ids p)")
    case True
    then obtain k where k: "k < length (plan_ids p)" "plan_ids p ! k = x" by (auto simp: in_set_conv_nth)
    then have "dict_get ?res x = Some (out_results out ! k)"
      using all2 by (auto simp: list_all2_conv_all_nth plan_ids_def)
    moreover have "dict_get (outcome_results p out) x = Some (out_results out ! k)"
      using k len assms(4) unfolding outcome_results_def
      by (intro map_of_is_SomeI) (auto simp: set_zip)
    ultimately show ?thesis by simp
  next
    case False
    moreover have fst_res: "map fst ?res = map (\<lambda>x. step_id (fst x)) tr"
      by (simp add: o_def case_prod_beta)
    then have "fst ` set ?res = set (plan_ids p)" using cover by (metis set_map)
    with False have "dict_get ?res x = None" by (intro map_of_eq_None_iff [THEN iffD2]) blast
    moreover have "dict_get (outcome_results p out) x = None"
      using False by (auto simp: outcome_results_def map_of_eq_None_iff dest: set_zip_leftD)
    ultimately show ?thesis by simp
  qed
qed

lemma decided_cong:
  assumes "\<And>x. dict_get res x = dict_get res' x"
  shows "decided needs run res s d = decided needs run res' s d"
proof -
  have "resolve_references res (JObj (arguments s)) = resolve_references res' (JObj (arguments s))"
    using assms by (intro resolve_cong) blast
  moreover have "dependency_failed res s = dependency_failed res' s"
    using assms by (simp add: dependency_failed_def)
  ultimately show ?thesis unfolding decided_def by (simp only:)
qed

lemma trace_elem:
  assumes out: "outcome_of_trace xid user conversation i p db calls tr (out, db', calls')"
    and legal: "legal needs run (steps p) tr"
    and cover: "set (map (\<lambda>x. step_id (fst x)) tr) = set (plan_ids p)" and "distinct (plan_ids p)"
    and "(s, d) \<in> set tr"
  shows "s \<in> set (steps p)" and "decided needs run (outcome_results p out) s d"
    and "dict_get (outcome_results p out) (step_id s) = Some (decision_result s d)"
proof -
  let ?res = "map (\<lambda>(s, d). (step_id s, decision_result s d)) tr"
  note get = outcome_results_get [OF assms(1-4)]
  show "s \<in> set (steps p)" using legal assms(5) by (force simp: legal_def)
  have "decided needs run ?res s d" using legal assms(5) by (auto simp: legal_def)
  then show "decided needs run (outcome_results p out) s d"
    by (simp only: decided_cong [OF get])
  have "distinct_keys ?res" using legal by (simp add: legal_def o_def case_prod_beta)
  moreover have "(step_id s, decision_result s d) \<in> set ?res"
    unfolding set_map by (rule image_eqI [OF _ assms(5)]) simp
  ultimately show "dict_get (outcome_results p out) (step_id s) = Some (decision_result s d)"
    unfolding get by (rule map_of_is_SomeI)
qed

lemma trace_of_step:
  assumes legal: "legal needs run (steps p) tr"
    and cover: "set (map (\<lambda>x. step_id (fst x)) tr) = set (plan_ids p)" and "distinct (plan_ids p)"
    and "s \<in> set (steps p)"
  obtains d where "(s, d) \<in> set tr"
proof -
  have "step_id s \<in> set (map (\<lambda>x. step_id (fst x)) tr)"
    using cover assms(4) by (simp add: plan_ids_def)
  then obtain t d where td: "(t, d) \<in> set tr" "step_id t = step_id s" by auto
  moreover have "t \<in> set (steps p)" using legal td(1) by (force simp: legal_def)
  ultimately have "t = s"
    using assms(3,4) unfolding plan_ids_def by (metis distinct_map inj_onD)
  with td that show ?thesis by blast
qed

lemma decision_result_id: "result_step_id (decision_result s d) = step_id s"
  by (cases d) (auto simp: skipped_result_def unresolved_result_def awaiting_result_def
      step_result_of_def split: dispatch_outcome.split agent_outcome.split)

lemma valid_plan_distinct: "valid_plan p \<Longrightarrow> distinct (plan_ids p)"
  by (simp add: valid_plan_def)

section \<open>A sample run\<close>

text \<open>A mail search, and an email to send whose subject is that of the first mail found.\<close>

definition sample_mail_plan :: execution_plan where
  "sample_mail_plan = \<lparr>steps =
     [\<lparr>step_id = ''send'', service = GMAIL, operation = ''send_email'',
       arguments = [(''to'', JStr ''ann@example.com''),
         (''subject'', JObj [(''$step'', JStr ''find''),
           (''path'', JList [JStr ''emails'', JStr ''first'', JStr ''subject''])]),
         (''body'', JStr ''done'')],
       depends_on = [''find'']\<rparr>,
      \<lparr>step_id = ''find'', service = GMAIL, operation = ''search_emails'',
       arguments = [(''keywords'', JStr ''budget'')], depends_on = []\<rparr>]\<rparr>"

definition sample_intent :: intent where
  "sample_intent = \<lparr>intent_name = ''reply'', required_services = [GMAIL], extracted_entities = [],
     requires_clarification = False, clarification_question = None\<rparr>"

definition sample_agents :: "service \<Rightarrow> nat \<Rightarrow> string \<Rightarrow> dict \<Rightarrow> agent_outcome" where
  "sample_agents svc n op args = Returned \<lparr>agent_status = COMPLETED,
     agent_data = [(''emails'', JList [JObj [(''subject'', JStr ''Q3'')]])],
     source_ids = [], agent_error = None\<rparr>"

lemma sample_mail_plan_accepted:
  "plan_model_validate (plan_dump sample_mail_plan) = Inr sample_mail_plan"
  by code_simp

lemma sample_mail_plan_registered:
  "registry_validate_plan (build_agent_registry sample_agents) sample_mail_plan = Inr ()"
  by code_simp

definition sample_outcome :: execution_outcome where
  "sample_outcome = \<lparr>out_execution_id = 0,
     out_results =
       [\<lparr>result_step_id = ''send'', status = AWAITING_APPROVAL,
         data = [(''approval_id'', JStr ''00000000-0000-0000-0000-000000000001'')], error = None\<rparr>,
        \<lparr>result_step_id = ''find'', status = COMPLETED,
         data = [(''emails'', JList [JObj [(''subject'', JStr ''Q3'')]])], error = None\<rparr>],
     out_pending_approval_ids = [1]\<rparr>"

definition sample_arguments :: dict where
  "sample_arguments =
     [(''to'', JStr ''ann@example.com''), (''subject'', JStr ''Q3''), (''body'', JStr ''done'')]"

definition sample_database :: database where
  "sample_database = \<lparr>
     executions = [\<lparr>exec_id = 0, exec_user = 7, exec_conversation = 8,
       exec_status = ''awaiting_approval'', exec_intent = intent_dump sample_intent,
       exec_plan = plan_dump sample_mail_plan\<rparr>],
     step_rows =
       [\<lparr>row_execution = 0, row_step = ''find'', row_service = ''gmail'',
         row_operation = ''search_emails'', row_status = ''completed'',
         row_arguments = JObj [(''keywords'', JStr ''budget'')],
         row_result = Some (JObj [(''emails'', JList [JObj [(''subject'', JStr ''Q3'')]])]), row_error = None\<rparr>,
        \<lparr>row_execution = 0, row_step = ''send'', row_service = ''gmail'',
         row_operation = ''send_email'', row_status = ''awaiting_approval'',
         row_arguments = JObj sample_arguments,
         row_result = Some (JObj [(''approval_id'', JStr ''00000000-0000-0000-0000-000000000001'')]),
         row_error = None\<rparr>],
     approvals =
       [\<lparr>appr_id = 1, appr_execution = 0, appr_step = ''send'', appr_user = 7,
         appr_status = ''awaiting_approval'',
         proposed_action = [(''service'', JStr ''gmail''), (''operation'', JStr ''send_email''),
           (''arguments'', JObj sample_arguments)]\<rparr>],
     audit_logs = [], next_id = 2\<rparr>"

definition sample_calls :: "agent_call list" where
  "sample_calls = [\<lparr>call_service = GMAIL, call_operation = ''search_emails'',
     call_arguments = JObj [(''keywords'', JStr ''budget'')]\<rparr>]"

lemma sample_run:
  "dag_execute (build_agent_registry sample_agents) 7 8 sample_intent sample_mail_plan empty_database [] =
   Inr (sample_outcome, sample_database, sample_calls)"
  by code_simp

section \<open>Properties\<close>

text \<open>
  C4. An accepted plan whose steps pass the registry's validation is always executed to the end:
  the loop never finds itself without a runnable step, no lookup raises, and there is exactly one
  result per step, in the plan's order.
\<close>

theorem dag_execute_completes:
  assumes "plan_model_validate v = Inr p" and "registry_validate_plan reg p = Inr ()"
  shows "\<exists>out db' calls'. dag_execute reg user conversation i p db calls = Inr (out, db', calls') \<and>
     map result_step_id (out_results out) = plan_ids p"
proof -
  from dag_execute_trace [OF assms] obtain out db' calls' tr
    where run: "dag_execute reg user conversation i p db calls = Inr (out, db', calls')"
      and out: "outcome_of_trace (next_id db) user conversation i p db calls tr (out, db', calls')"
    by (metis prod_cases3)
  have "r = decision_result t d \<Longrightarrow> step_id t = step_id s \<Longrightarrow> result_step_id r = step_id s" for r s t d
    by (simp add: decision_result_id)
  with outcome_of_traceD(10) [OF out]
  have "list_all2 (\<lambda>s r. result_step_id r = step_id s) (steps p) (out_results out)"
    by (elim list_all2_mono) (auto dest!: map_of_SomeD simp: decision_result_id)
  then have "map result_step_id (out_results out) = plan_ids p"
    by (auto simp: plan_ids_def list_all2_conv_all_nth intro!: nth_equalityI)
  with run show ?thesis by blast
qed

theorem dag_execute_completes_witness:
  "\<exists>out db' calls'.
     dag_execute (build_agent_registry sample_agents) 7 8 sample_intent sample_mail_plan empty_database [] =
       Inr (out, db', calls') \<and> map result_step_id (out_results out) = [''send'', ''find'']"
  using dag_execute_completes [OF sample_mail_plan_accepted sample_mail_plan_registered]
  by (simp add: plan_ids_def sample_mail_plan_def)

text \<open>
  While a plan is executed, no agent is invoked for an operation that needs the user's
  approval: every call that reaches an agent is a read or \<open>draft_email\<close>, whatever the plan, the
  agents and the database are.
\<close>

theorem execution_needs_no_approval:
  assumes "plan_model_validate v = Inr p"
    and "dag_execute (build_agent_registry b) user conversation i p db calls = Inr (out, db', calls')"
  shows "\<exists>new. calls' = calls @ new \<and>
     (\<forall>c \<in> set new. (call_service c, call_operation c) \<in> set immediate_operations)"
proof -
  let ?reg = "build_agent_registry b"
  from dag_execute_Inr [OF assms] obtain tr
    where legal: "legal (requires_approval ?reg) (registry_execute ?reg) (steps p) tr"
      and out: "outcome_of_trace (next_id db) user conversation i p db calls tr (out, db', calls')" .
  have "(call_service c, call_operation c) \<in> set immediate_operations"
    if x: "x \<in> set tr" and c: "c \<in> set (decision_calls x)" for x c
  proof -
    from c obtain s n args r where x': "x = (s, Dispatch n args r)" and call: "c = call_of s args"
      by (cases x rule: decision_calls.cases) (auto simp: log_call_def split: dispatch_outcome.splits)
    with x legal have "requires_approval ?reg (service s) (operation s) = Inr False"
      by (fastforce simp: legal_def decided_def)
    with call show ?thesis by (simp add: built_immediate call_of_def)
  qed
  with outcome_of_traceD(1) [OF out] show ?thesis by auto
qed

theorem execution_needs_no_approval_witness:
  "\<exists>new. sample_calls = [] @ new \<and>
     (\<forall>c \<in> set new. (call_service c, call_operation c) \<in> set immediate_operations)"
  by (rule execution_needs_no_approval [OF sample_mail_plan_accepted sample_run])

text \<open>
  C5. The wave executor implements the per-step specification: each result is the one the code
  decides for its step when the results of the other steps are given - skipped when a dependency
  did not complete, failed when a reference does not resolve, awaiting approval when the
  operation is gated, and the agent's answer to the resolved arguments otherwise.
\<close>

theorem executor_refines_decisions:
  assumes "plan_model_validate v = Inr p"
    and "dag_execute reg user conversation i p db calls = Inr (out, db', calls')"
    and "s \<in> set (steps p)"
  shows "\<exists>d. decided (requires_approval reg) (registry_execute reg) (outcome_results p out) s d \<and>
     dict_get (outcome_results p out) (step_id s) = Some (decision_result s d)"
proof -
  from dag_execute_Inr [OF assms(1,2)] obtain tr
    where legal: "legal (requires_approval reg) (registry_execute reg) (steps p) tr"
      and cover: "set (map (\<lambda>x. step_id (fst x)) tr) = set (plan_ids p)"
      and out: "outcome_of_trace (next_id db) user conversation i p db calls tr (out, db', calls')" .
  have dist: "distinct (plan_ids p)" using accepted_closed(1) [OF assms(1)] by (rule valid_plan_distinct)
  obtain d where "(s, d) \<in> set tr" using trace_of_step [OF legal cover dist assms(3)] .
  with trace_elem [OF out legal cover dist] show ?thesis by blast
qed

theorem executor_refines_decisions_witness:
  "\<exists>d. decided (requires_approval (build_agent_registry sample_agents))
       (registry_execute (build_agent_registry sample_agents))
       (outcome_results sample_mail_plan sample_outcome) (steps sample_mail_plan ! 0) d \<and>
     dict_get (outcome_results sample_mail_plan sample_outcome) (step_id (steps sample_mail_plan ! 0)) =
       Some (decision_result (steps sample_mail_plan ! 0) d)"
  by (rule executor_refines_decisions [OF sample_mail_plan_accepted sample_run])
    (simp add: sample_mail_plan_def)

text \<open>The steps whose calls reached an agent, with the arguments dispatched, in call order.\<close>

fun reached :: "execution_step \<times> decision \<Rightarrow> (execution_step \<times> json) list" where
  "reached (s, Dispatch n args (Called r)) = [(s, args)]"
| "reached _ = []"

lemma decision_calls_reached: "decision_calls x = map (\<lambda>(s, args). call_of s args) (reached x)"
  by (cases x rule: reached.cases) (simp_all add: log_call_def)

lemma reached_filter: "map fst (concat (map reached tr)) = map fst (filter (\<lambda>x. reached x \<noteq> []) tr)"
proof (induction tr)
  case (Cons x tr)
  have "reached x = [] \<or> (\<exists>a. reached x = [(fst x, a)])" by (cases x rule: reached.cases) auto
  with Cons show ?case by auto
qed simp

lemma reached_distinct:
  assumes "distinct (map (\<lambda>x. step_id (fst x)) tr)"
  shows "distinct (map (\<lambda>y. step_id (fst y)) (concat (map reached tr)))"
proof -
  have "map (\<lambda>y. step_id (fst y)) (concat (map reached tr)) =
      map step_id (map fst (concat (map reached tr)))" by simp
  also have "\<dots> = map (\<lambda>x. step_id (fst x)) (filter (\<lambda>x. reached x \<noteq> []) tr)"
    unfolding reached_filter by simp
  finally show ?thesis using distinct_map_filter [OF assms] by simp
qed

text \<open>No step of the list depends on a later step of the list.\<close>

definition dependency_order :: "execution_step list \<Rightarrow> bool" where
  "dependency_order = sorted_wrt (\<lambda>s t. step_id t \<notin> set (depends_on s))"

lemma dependency_order_concat:
  assumes "dependency_order (map fst tr)"
  shows "dependency_order (map fst (concat (map reached tr)))"
  using assms unfolding reached_filter dependency_order_def sorted_wrt_map by (rule sorted_wrt_filter)

lemma legal_order:
  assumes "legal needs run ss tr"
  shows "dependency_order (map fst tr)"
  unfolding dependency_order_def sorted_wrt_iff_nth_less
proof (intro allI impI)
  fix i j assume ij: "i < j" "j < length (map fst tr)"
  then have "set (depends_on (fst (tr ! i))) \<subseteq> set (map (\<lambda>x. step_id (fst x)) (take i tr))"
    using assms by (simp add: legal_def)
  moreover have "step_id (fst (tr ! j)) \<notin> set (map (\<lambda>x. step_id (fst x)) (take i tr))"
  proof
    assume "step_id (fst (tr ! j)) \<in> set (map (\<lambda>x. step_id (fst x)) (take i tr))"
    then obtain k where "k < i" "step_id (fst (tr ! k)) = step_id (fst (tr ! j))"
      using ij by (auto simp: in_set_conv_nth)
    moreover have "distinct (map (\<lambda>x. step_id (fst x)) tr)" using assms by (simp add: legal_def)
    ultimately show False using ij by (auto simp: distinct_conv_nth)
  qed
  ultimately show "step_id (map fst tr ! j) \<notin> set (depends_on (map fst tr ! i))"
    using ij by auto
qed

text \<open>
  C6. Each call that reaches an agent belongs to a different step of the plan, carries arguments
  that pass the strict validation of its operation, and no step is called before a step it
  depends on.
\<close>

theorem calls_once_validated_in_order:
  assumes "plan_model_validate v = Inr p"
    and "dag_execute reg user conversation i p db calls = Inr (out, db', calls')"
  shows "\<exists>cs. calls' = calls @ map (\<lambda>(s, args). call_of s args) cs \<and>
     distinct (map (\<lambda>y. step_id (fst y)) cs) \<and> dependency_order (map fst cs) \<and>
     (\<forall>(s, args) \<in> set cs. s \<in> set (steps p) \<and>
        (\<exists>d. args = JObj d \<and> validate_operation_arguments (service s) (operation s) d False = Inr ()))"
proof -
  from dag_execute_Inr [OF assms] obtain tr
    where legal: "legal (requires_approval reg) (registry_execute reg) (steps p) tr"
      and out: "outcome_of_trace (next_id db) user conversation i p db calls tr (out, db', calls')" .
  let ?cs = "concat (map reached tr)"
  have "calls' = calls @ map (\<lambda>(s, args). call_of s args) ?cs"
    using outcome_of_traceD(1) [OF out] by (simp add: decision_calls_reached map_concat o_def cong: map_cong)
  moreover have "distinct (map (\<lambda>y. step_id (fst y)) ?cs)"
    using legal by (intro reached_distinct) (simp add: legal_def)
  moreover have "dependency_order (map fst ?cs)" by (intro dependency_order_concat legal_order [OF legal])
  moreover have "s \<in> set (steps p) \<and>
      (\<exists>d. args = JObj d \<and> validate_operation_arguments (service s) (operation s) d False = Inr ())"
    if y: "(s, args) \<in> set ?cs" for s args
  proof -
    from y obtain x where x: "x \<in> set tr" "(s, args) \<in> set (reached x)" by auto
    then obtain n r where "x = (s, Dispatch n args (Called r))"
      by (cases x rule: reached.cases) auto
    with x legal have "s \<in> set (steps p)" "registry_execute reg n (service s) (operation s) args = Called r"
      by (force simp: legal_def decided_def)+
    then show ?thesis by (auto simp: registry_execute_Called)
  qed
  ultimately show ?thesis by blast
qed

theorem calls_once_validated_in_order_witness:
  "\<exists>cs. sample_calls = [] @ map (\<lambda>(s, args). call_of s args) cs \<and>
     distinct (map (\<lambda>y. step_id (fst y)) cs) \<and> dependency_order (map fst cs) \<and>
     (\<forall>(s, args) \<in> set cs. s \<in> set (steps sample_mail_plan) \<and>
        (\<exists>d. args = JObj d \<and> validate_operation_arguments (service s) (operation s) d False = Inr ()))"
  by (rule calls_once_validated_in_order [OF sample_mail_plan_accepted sample_run])

text \<open>The gated steps of a trace: the approval id, the step and its resolved arguments.\<close>

fun gated :: "execution_step \<times> decision \<Rightarrow> (nat \<times> execution_step \<times> json) list" where
  "gated (s, Gate aid args) = [(aid, s, args)]"
| "gated _ = []"

lemma decision_approvals_gated:
  "decision_approvals xid user x = map (\<lambda>(a, s, args). new_approval a xid user s args) (gated x)"
  by (cases x rule: gated.cases) simp_all

lemma gated_ids: "map appr_id (map (\<lambda>(a, s, args). new_approval a xid user s args) gs) = map fst gs"
  by (simp add: new_approval_def case_prod_beta o_def)

lemma gated_filter:
  "map (\<lambda>g. fst (snd g)) (concat (map gated tr)) = map fst (filter (\<lambda>x. gated x \<noteq> []) tr)"
proof (induction tr)
  case (Cons x tr)
  have "gated x = [] \<or> (\<exists>a b. gated x = [(a, fst x, b)])" by (cases x rule: gated.cases) auto
  with Cons show ?case by auto
qed simp

lemma gated_distinct:
  assumes "distinct (map (\<lambda>x. step_id (fst x)) tr)"
  shows "distinct (map (\<lambda>(a, s, args). step_id s) (concat (map gated tr)))"
proof -
  have "map (\<lambda>(a, s, args). step_id s) (concat (map gated tr)) =
      map step_id (map (\<lambda>g. fst (snd g)) (concat (map gated tr)))" by (simp add: case_prod_beta)
  also have "\<dots> = map (\<lambda>x. step_id (fst x)) (filter (\<lambda>x. gated x \<noteq> []) tr)"
    unfolding gated_filter by simp
  finally show ?thesis using distinct_map_filter [OF assms] by simp
qed

lemma outcome_gates:
  assumes "plan_model_validate v = Inr p"
    and "dag_execute reg user conversation i p db calls = Inr (out, db', calls')"
  shows "\<exists>gs. approvals db' = approvals db @ map (\<lambda>(a, s, args). new_approval a (next_id db) user s args) gs \<and>
     map fst gs = out_pending_approval_ids out \<and>
     out_pending_approval_ids out = [Suc (next_id db) ..< next_id db'] \<and>
     distinct (map (\<lambda>(a, s, args). step_id s) gs) \<and>
     (\<forall>s \<in> set (steps p). \<forall>args. (\<exists>a. (a, s, args) \<in> set gs) \<longleftrightarrow>
        (service s, operation s) \<in> set approval_required_operations \<and>
        resolve_references (outcome_results p out) (JObj (arguments s)) = Inr args \<and>
        \<not> dependency_failed (outcome_results p out) s) \<and>
     (\<forall>(a, s, args) \<in> set gs. s \<in> set (steps p) \<and> (service s, operation s) \<in> set approval_required_operations \<and>
        resolve_references (outcome_results p out) (JObj (arguments s)) = Inr args \<and>
        dict_get (outcome_results p out) (step_id s) = Some (awaiting_result s a) \<and>
        (\<exists>row \<in> set (step_rows db'). row_execution row = next_id db \<and> row_step row = step_id s \<and>
           row_status row = ''awaiting_approval'' \<and> row_arguments row = args))"
proof -
  from dag_execute_Inr [OF assms] obtain tr
    where legal: "legal (requires_approval reg) (registry_execute reg) (steps p) tr"
      and cover: "set (map (\<lambda>x. step_id (fst x)) tr) = set (plan_ids p)"
      and out: "outcome_of_trace (next_id db) user conversation i p db calls tr (out, db', calls')" .
  have dist: "distinct (plan_ids p)" using accepted_closed(1) [OF assms(1)] by (rule valid_plan_distinct)
  let ?gs = "concat (map gated tr)"
  have app: "concat (map (decision_approvals (next_id db) user) tr) =
      map (\<lambda>(a, s, args). new_approval a (next_id db) user s args) ?gs"
    by (simp add: decision_approvals_gated map_concat o_def cong: map_cong)
  have each: "s \<in> set (steps p) \<and> (service s, operation s) \<in> set approval_required_operations \<and>
        resolve_references (outcome_results p out) (JObj (arguments s)) = Inr args \<and>
        dict_get (outcome_results p out) (step_id s) = Some (awaiting_result s a) \<and>
        (\<exists>row \<in> set (step_rows db'). row_execution row = next_id db \<and> row_step row = step_id s \<and>
           row_status row = ''awaiting_approval'' \<and> row_arguments row = args)"
    if g: "(a, s, args) \<in> set ?gs" for a s args
  proof -
    from g obtain x where x: "x \<in> set tr" "(a, s, args) \<in> set (gated x)" by auto
    then have x': "(s, Gate a args) \<in> set tr" by (cases x rule: gated.cases) auto
    note el = trace_elem [OF out legal cover dist x']
    have "new_step_row (next_id db) (decision_entry (s, Gate a args)) \<in> set (step_rows db')"
      using outcome_of_traceD(3) [OF out] x' by (metis (no_types, lifting) Un_iff image_eqI list.set_map set_append)
    then have "\<exists>row \<in> set (step_rows db'). row_execution row = next_id db \<and> row_step row = step_id s \<and>
           row_status row = ''awaiting_approval'' \<and> row_arguments row = args"
      by (intro bexI) (simp_all add: new_step_row_def awaiting_result_def)
    with el show ?thesis by (simp add: decided_def requires_approval_Inr del: resolve_references.simps)
  qed
  have iff: "(\<exists>a. (a, s, args) \<in> set ?gs) \<longleftrightarrow>
      (service s, operation s) \<in> set approval_required_operations \<and>
      resolve_references (outcome_results p out) (JObj (arguments s)) = Inr args \<and>
      \<not> dependency_failed (outcome_results p out) s" if s: "s \<in> set (steps p)" for s args
  proof
    assume "\<exists>a. (a, s, args) \<in> set ?gs"
    then obtain a x where x: "x \<in> set tr" "(a, s, args) \<in> set (gated x)" by auto
    then have "(s, Gate a args) \<in> set tr" by (cases x rule: gated.cases) auto
    from trace_elem(2) [OF out legal cover dist this]
    show "(service s, operation s) \<in> set approval_required_operations \<and>
      resolve_references (outcome_results p out) (JObj (arguments s)) = Inr args \<and>
      \<not> dependency_failed (outcome_results p out) s"
      by (simp add: decided_def requires_approval_Inr del: resolve_references.simps)
  next
    assume R: "(service s, operation s) \<in> set approval_required_operations \<and>
      resolve_references (outcome_results p out) (JObj (arguments s)) = Inr args \<and>
      \<not> dependency_failed (outcome_results p out) s"
    obtain d where d: "(s, d) \<in> set tr" using trace_of_step [OF legal cover dist s] .
    from trace_elem(2) [OF out legal cover dist d] R obtain a where "d = Gate a args"
      by (cases d) (auto simp: decided_def requires_approval_Inr simp del: resolve_references.simps)
    with d show "\<exists>a. (a, s, args) \<in> set ?gs" by force
  qed
  show ?thesis
  proof (intro exI conjI)
    show "approvals db' = approvals db @ map (\<lambda>(a, s, args). new_approval a (next_id db) user s args) ?gs"
      using outcome_of_traceD(2) [OF out] app by simp
    show "map fst ?gs = out_pending_approval_ids out"
      using outcome_of_traceD(4) [OF out] unfolding app gated_ids by simp
    show "out_pending_approval_ids out = [Suc (next_id db) ..< next_id db']"
      by (rule outcome_of_traceD(5) [OF out])
    show "distinct (map (\<lambda>(a, s, args). step_id s) ?gs)"
      using legal by (intro gated_distinct) (simp add: legal_def)
  qed (use each iff in blast)+
qed

lemma outcome_execution_id:
  assumes "plan_model_validate v = Inr p"
    and "dag_execute reg user conversation i p db calls = Inr (out, db', calls')"
  shows "out_execution_id out = next_id db"
proof -
  from dag_execute_Inr [OF assms] obtain tr
    where "outcome_of_trace (next_id db) user conversation i p db calls tr (out, db', calls')" .
  then show ?thesis by (rule outcome_of_traceD(8))
qed

lemma dependency_failed_iff:
  "dependency_failed results s \<longleftrightarrow>
     (\<exists>x \<in> set (depends_on s). \<exists>r. dict_get results x = Some r \<and> status r \<in> {FAILED, SKIPPED, AWAITING_APPROVAL})"
  by (auto simp: dependency_failed_def list_ex_iff unavailable_def split: option.splits)

text \<open>
  C7. A step gets an approval exactly when its operation is gated, its references resolve and none of
  the steps it depends on failed, was skipped or awaits an approval itself. It gets one, which
  stores the execution, the user, and the service, the operation and the resolved arguments of the
  step, is awaiting the user's decision, and whose id is fresh and reported in the outcome; the
  step's own row is stored as awaiting approval. No other approval is added or changed.
\<close>

theorem gated_steps_await_approval:
  assumes "plan_model_validate v = Inr p"
    and "dag_execute reg user conversation i p db calls = Inr (out, db', calls')"
  shows "\<exists>gs. approvals db' = approvals db @ map (\<lambda>(a, s, args).
         \<lparr>appr_id = a, appr_execution = out_execution_id out, appr_step = step_id s, appr_user = user,
          appr_status = ''awaiting_approval'',
          proposed_action = [(''service'', JStr (service_value (service s))), (''operation'', JStr (operation s)),
            (''arguments'', args)]\<rparr>) gs \<and>
     map fst gs = out_pending_approval_ids out \<and>
     out_pending_approval_ids out = [Suc (next_id db) ..< next_id db'] \<and>
     distinct (map (\<lambda>(a, s, args). step_id s) gs) \<and>
     (\<forall>s \<in> set (steps p). \<forall>args. (\<exists>a. (a, s, args) \<in> set gs) \<longleftrightarrow>
        (service s, operation s) \<in> set approval_required_operations \<and>
        resolve_references (outcome_results p out) (JObj (arguments s)) = Inr args \<and>
        (\<forall>x \<in> set (depends_on s). \<forall>r. dict_get (outcome_results p out) x = Some r \<longrightarrow>
           status r \<notin> {FAILED, SKIPPED, AWAITING_APPROVAL})) \<and>
     (\<forall>(a, s, args) \<in> set gs. s \<in> set (steps p) \<and> (service s, operation s) \<in> set approval_required_operations \<and>
        resolve_references (outcome_results p out) (JObj (arguments s)) = Inr args \<and>
        dict_get (outcome_results p out) (step_id s) = Some (awaiting_result s a) \<and>
        (\<exists>row \<in> set (step_rows db'). row_execution row = next_id db \<and> row_step row = step_id s \<and>
           row_status row = ''awaiting_approval'' \<and> row_arguments row = args))"
proof -
  have "out_execution_id out = next_id db" by (rule outcome_execution_id [OF assms])
  with outcome_gates [OF assms] show ?thesis
    unfolding dependency_failed_iff new_approval_def by (simp del: resolve_references.simps)
qed

theorem gated_steps_await_approval_witness:
  "\<exists>gs. approvals sample_database = approvals empty_database @ map (\<lambda>(a, s, args).
         \<lparr>appr_id = a, appr_execution = out_execution_id sample_outcome, appr_step = step_id s, appr_user = 7,
          appr_status = ''awaiting_approval'',
          proposed_action = [(''service'', JStr (service_value (service s))), (''operation'', JStr (operation s)),
            (''arguments'', args)]\<rparr>) gs \<and>
     map fst gs = out_pending_approval_ids sample_outcome \<and>
     out_pending_approval_ids sample_outcome = [Suc (next_id empty_database) ..< next_id sample_database] \<and>
     distinct (map (\<lambda>(a, s, args). step_id s) gs) \<and>
     (\<forall>s \<in> set (steps sample_mail_plan). \<forall>args. (\<exists>a. (a, s, args) \<in> set gs) \<longleftrightarrow>
        (service s, operation s) \<in> set approval_required_operations \<and>
        resolve_references (outcome_results sample_mail_plan sample_outcome) (JObj (arguments s)) = Inr args \<and>
        (\<forall>x \<in> set (depends_on s). \<forall>r. dict_get (outcome_results sample_mail_plan sample_outcome) x = Some r \<longrightarrow>
           status r \<notin> {FAILED, SKIPPED, AWAITING_APPROVAL})) \<and>
     (\<forall>(a, s, args) \<in> set gs. s \<in> set (steps sample_mail_plan) \<and> (service s, operation s) \<in> set approval_required_operations \<and>
        resolve_references (outcome_results sample_mail_plan sample_outcome) (JObj (arguments s)) = Inr args \<and>
        dict_get (outcome_results sample_mail_plan sample_outcome) (step_id s) = Some (awaiting_result s a) \<and>
        (\<exists>row \<in> set (step_rows sample_database). row_execution row = next_id empty_database \<and> row_step row = step_id s \<and>
           row_status row = ''awaiting_approval'' \<and> row_arguments row = args))"
  by (rule gated_steps_await_approval [OF sample_mail_plan_accepted sample_run])

lemma outcome_rows:
  assumes "plan_model_validate v = Inr p"
    and "dag_execute reg user conversation i p db calls = Inr (out, db', calls')"
  shows "\<exists>rows. step_rows db' = step_rows db @ rows \<and> distinct (map row_step rows) \<and>
     set (map row_step rows) = set (plan_ids p) \<and>
     (\<forall>row \<in> set rows. row_execution row = out_execution_id out \<and>
        (\<exists>r. dict_get (outcome_results p out) (row_step row) = Some r \<and>
           row_status row = status_value (status r) \<and> row_result row = Some (JObj (data r)))) \<and>
     audit_logs db' = audit_logs db"
proof -
  from dag_execute_Inr [OF assms] obtain tr
    where legal: "legal (requires_approval reg) (registry_execute reg) (steps p) tr"
      and cover: "set (map (\<lambda>x. step_id (fst x)) tr) = set (plan_ids p)"
      and out: "outcome_of_trace (next_id db) user conversation i p db calls tr (out, db', calls')" .
  have dist: "distinct (plan_ids p)" using accepted_closed(1) [OF assms(1)] by (rule valid_plan_distinct)
  let ?row = "\<lambda>x. new_step_row (next_id db) (decision_entry x)"
  have sel: "row_step (?row x) = step_id (fst x)" "row_execution (?row x) = next_id db"
    "row_status (?row x) = status_value (status (decision_result (fst x) (snd x)))"
    "row_result (?row x) = Some (JObj (data (decision_result (fst x) (snd x))))" for x
    by (cases x; simp add: new_step_row_def)+
  have ids: "map row_step (map ?row tr) = map (\<lambda>x. step_id (fst x)) tr" by (simp add: sel o_def)
  have "\<exists>r. dict_get (outcome_results p out) (row_step row) = Some r \<and>
           row_status row = status_value (status r) \<and> row_result row = Some (JObj (data r))"
    if row: "row \<in> set (map ?row tr)" for row
  proof -
    from row obtain s d where x: "(s, d) \<in> set tr" "row = ?row (s, d)" by auto
    with trace_elem(3) [OF out legal cover dist x(1)] show ?thesis by (simp add: sel)
  qed
  moreover have "distinct (map (\<lambda>x. step_id (fst x)) tr)" using legal by (simp add: legal_def)
  ultimately show ?thesis
    using outcome_of_traceD(3,8,9) [OF out] cover ids
    by (intro exI [of _ "map ?row tr"]) (auto simp: sel simp del: map_map)
qed

text \<open>
  One step row is stored per step of the plan, with the status and the data of its result;
  earlier rows, executions of others and the audit log are left as they are.
\<close>

theorem step_rows_match_results:
  assumes "plan_model_validate v = Inr p"
    and "dag_execute reg user conversation i p db calls = Inr (out, db', calls')"
  shows "\<exists>rows. step_rows db' = step_rows db @ rows \<and> distinct (map row_step rows) \<and>
     set (map row_step rows) = set (plan_ids p) \<and>
     (\<forall>row \<in> set rows. row_execution row = out_execution_id out \<and>
        (\<exists>r. dict_get (outcome_results p out) (row_step row) = Some r \<and>
           row_status row = status_value (status r) \<and> row_result row = Some (JObj (data r)))) \<and>
     audit_logs db' = audit_logs db"
  using assms by (rule outcome_rows)

theorem step_rows_match_results_witness:
  "\<exists>rows. step_rows sample_database = step_rows empty_database @ rows \<and> distinct (map row_step rows) \<and>
     set (map row_step rows) = set (plan_ids sample_mail_plan) \<and>
     (\<forall>row \<in> set rows. row_execution row = out_execution_id sample_outcome \<and>
        (\<exists>r. dict_get (outcome_results sample_mail_plan sample_outcome) (row_step row) = Some r \<and>
           row_status row = status_value (status r) \<and> row_result row = Some (JObj (data r)))) \<and>
     audit_logs sample_database = audit_logs empty_database"
  by (rule step_rows_match_results [OF sample_mail_plan_accepted sample_run])

text \<open>The agents answer with \<open>completed\<close> or \<open>failed\<close>, as \<open>app/agents\<close> do.\<close>

definition two_valued_agents :: "registry \<Rightarrow> bool" where
  "two_valued_agents reg \<longleftrightarrow> (\<forall>svc agent n op args a.
     reg_agents reg svc = Some agent \<longrightarrow> agent_execute agent n op args = Returned a \<longrightarrow>
     agent_status a \<in> {COMPLETED, FAILED})"

lemma completed_step:
  assumes "decided (requires_approval reg) (registry_execute reg) res s d"
    and "\<forall>x \<in> set (depends_on s). \<exists>r. dict_get res x = Some r \<and> status r = COMPLETED"
    and "status (decision_result s d) \<noteq> FAILED" "status (decision_result s d) \<noteq> AWAITING_APPROVAL"
    and agents: "two_valued_agents reg"
  shows "status (decision_result s d) = COMPLETED"
proof (cases d)
  case Skip
  with assms(1) obtain x r where "x \<in> set (depends_on s)" "dict_get res x = Some r" "unavailable r"
    by (auto simp: decided_def dependency_failed_def list_ex_iff split: option.splits)
  with assms(2) show ?thesis by (auto simp: unavailable_def)
next
  case (Fail e)
  with assms(3) show ?thesis by (simp add: unresolved_result_def)
next
  case (Gate aid args)
  with assms(4) show ?thesis by (simp add: awaiting_result_def)
next
  case (Dispatch n args r)
  show ?thesis
  proof (cases r)
    case (Rejected e)
    with Dispatch assms(3) show ?thesis by (simp add: step_result_of_def)
  next
    case (Called a)
    with Dispatch assms(1) have "registry_execute reg n (service s) (operation s) args = Called a"
      by (simp add: decided_def)
    then obtain agent d' where agent: "reg_agents reg (service s) = Some agent"
      "a = agent_execute agent n (operation s) d'"
      by (auto simp: registry_execute_Called)
    show ?thesis
    proof (cases a)
      case (Returned x)
      with agent agents have "agent_status x \<in> {COMPLETED, FAILED}"
        unfolding two_valued_agents_def by metis
      with Returned Called Dispatch assms(3) show ?thesis by (auto simp: step_result_of_def)
    next
      case Raised
      with Called Dispatch assms(3) show ?thesis by (simp add: step_result_of_def)
    qed
  qed
qed

text \<open>
  When agents answer with \<open>completed\<close> or \<open>failed\<close> only, an execution ends with status \<open>completed\<close>
  exactly when every step of the plan has completed.
\<close>

lemma completed_iff_all_completed:
  assumes "plan_model_validate v = Inr p"
    and "dag_execute reg user conversation i p db calls = Inr (out, db', calls')"
    and "two_valued_agents reg"
  shows "final_status (out_results out) = COMPLETED \<longleftrightarrow> (\<forall>r \<in> set (out_results out). status r = COMPLETED)"
proof
  assume "\<forall>r \<in> set (out_results out). status r = COMPLETED"
  then show "final_status (out_results out) = COMPLETED" by (auto simp: final_status_def)
next
  assume fin: "final_status (out_results out) = COMPLETED"
  from dag_execute_Inr [OF assms(1,2)] obtain tr
    where legal: "legal (requires_approval reg) (registry_execute reg) (steps p) tr"
      and cover: "set (map (\<lambda>x. step_id (fst x)) tr) = set (plan_ids p)"
      and out: "outcome_of_trace (next_id db) user conversation i p db calls tr (out, db', calls')" .
  let ?res = "outcome_results p out"
  have valid: "valid_plan p" by (rule accepted_closed(1) [OF assms(1)])
  note dist = valid_plan_distinct [OF valid]
  note all2 = outcome_of_traceD(10) [OF out]
  have results: "r \<in> set (out_results out) \<longleftrightarrow> (\<exists>s \<in> set (steps p). dict_get ?res (step_id s) = Some r)" for r
    using all2 unfolding outcome_results_get [OF out legal cover dist]
    by (force simp: list_all2_conv_all_nth in_set_conv_nth)
  have "\<forall>s \<in> set (steps p). step_id s = x \<longrightarrow> (\<forall>r. dict_get ?res x = Some r \<longrightarrow> status r = COMPLETED)" for x
  proof (induction x rule: wf_induct_rule [OF valid_plan_wf [OF valid]])
    case (1 x)
    show ?case
    proof (intro ballI impI allI)
      fix s r assume s: "s \<in> set (steps p)" "step_id s = x" and r: "dict_get ?res x = Some r"
      obtain d where d: "(s, d) \<in> set tr" using trace_of_step [OF legal cover dist s(1)] .
      note el = trace_elem [OF out legal cover dist d]
      have "r = decision_result s d" using el(3) r s(2) by simp
      moreover have "\<exists>q. dict_get ?res y = Some q \<and> status q = COMPLETED" if y: "y \<in> set (depends_on s)" for y
      proof -
        have "(y, x) \<in> plan_deps p" using s y by (auto simp: plan_deps_def)
        moreover obtain t where t: "t \<in> set (steps p)" "step_id t = y"
          using valid s(1) y by (auto simp: valid_plan_def plan_ids_def)
        moreover obtain c where "(t, c) \<in> set tr" using trace_of_step [OF legal cover dist t(1)] .
        ultimately show ?thesis using 1 trace_elem(3) [OF out legal cover dist] by blast
      qed
      moreover from results r s have "status r \<in> status ` set (out_results out)" by blast
      with fin have "status r \<noteq> FAILED" "status r \<noteq> AWAITING_APPROVAL"
        by (auto simp: final_status_def split: if_splits)
      ultimately show "status r = COMPLETED"
        using completed_step [OF el(2) _ _ _ assms(3)] by blast
    qed
  qed
  with results show "\<forall>r \<in> set (out_results out). status r = COMPLETED" by blast
qed

section \<open>References\<close>

text \<open>
  What a path means: \<open>leads v path keys w\<close> holds when the path leads from \<open>v\<close> to \<open>w\<close> through the
  fields and indices \<open>keys\<close>. In a list, \<open>first\<close> and \<open>next\<close> stand for the first element and a string of
  decimal digits for an index; \<open>int\<close> reads at most 4300 of them.
\<close>

inductive leads :: "json \<Rightarrow> json list \<Rightarrow> json list \<Rightarrow> json \<Rightarrow> bool" where
  here: "leads v [] [] v"
| field: "dict_get d k = Some v \<Longrightarrow> leads v path keys w \<Longrightarrow> leads (JObj d) (JStr k # path) (JStr k # keys) w"
| index: "n < length xs \<Longrightarrow> leads (xs ! n) path keys w \<Longrightarrow>
    leads (JList xs) (JInt (int n) # path) (JInt (int n) # keys) w"
| first: "s = ''first'' \<or> s = ''next'' \<Longrightarrow> leads x path keys w \<Longrightarrow>
    leads (JList (x # xs)) (JStr s # path) (JInt 0 # keys) w"
| digits: "s \<noteq> [] \<Longrightarrow> list_all is_ascii_digit s \<Longrightarrow> length s \<le> 4300 \<Longrightarrow> digits_value s < length xs \<Longrightarrow>
    leads (xs ! digits_value s) path keys w \<Longrightarrow>
    leads (JList xs) (JStr s # path) (JInt (int (digits_value s)) # keys) w"

inductive_simps leads_Nil: "leads v [] keys w"

text \<open>The key an error reports for a segment at a value.\<close>

definition key_named :: "json \<Rightarrow> json \<Rightarrow> json \<Rightarrow> bool" where
  "key_named v seg key \<longleftrightarrow>
     (case (v, seg) of
        (JList xs, JStr s) \<Rightarrow>
          (if s = ''first'' \<or> s = ''next'' then key = JInt 0
           else if s \<noteq> [] \<and> list_all is_ascii_digit s then key = JInt (int (digits_value s))
           else key = JStr s)
      | _ \<Rightarrow> key = seg)"

text \<open>Why a value has nothing under a key.\<close>

definition stuck :: "json \<Rightarrow> json \<Rightarrow> string \<Rightarrow> bool" where
  "stuck v key code \<longleftrightarrow>
     (case (v, key) of
        (JObj d, JStr k) \<Rightarrow> dict_get d k = None \<and> code = ''reference_field_missing''
      | (JList xs, JInt i) \<Rightarrow> \<not> (0 \<le> i \<and> i < int (length xs)) \<and> code = ''reference_element_missing''
      | _ \<Rightarrow> code = ''reference_shape_mismatch'')"

lemma follow_segment_iff:
  "follow_segment sid tr v key = Inr w \<longleftrightarrow>
     (\<exists>d k. v = JObj d \<and> key = JStr k \<and> dict_get d k = Some w) \<or>
     (\<exists>xs n. v = JList xs \<and> key = JInt (int n) \<and> n < length xs \<and> w = xs ! n)"
  "follow_segment sid tr v key = Inl e \<longleftrightarrow> (\<exists>code. e = ReferenceError code sid (tr @ [key]) \<and> stuck v key code)"
proof -
  have "0 \<le> i \<and> i < int (length xs) \<longleftrightarrow> (\<exists>n. i = int n \<and> n < length xs)" for i and xs :: "json list"
    by (cases i) auto
  then show "follow_segment sid tr v key = Inr w \<longleftrightarrow>
     (\<exists>d k. v = JObj d \<and> key = JStr k \<and> dict_get d k = Some w) \<or>
     (\<exists>xs n. v = JList xs \<and> key = JInt (int n) \<and> n < length xs \<and> w = xs ! n)"
    by (auto simp: follow_segment_def split: json.splits option.splits if_splits)
  show "follow_segment sid tr v key = Inl e \<longleftrightarrow> (\<exists>code. e = ReferenceError code sid (tr @ [key]) \<and> stuck v key code)"
    by (auto simp: follow_segment_def stuck_def split: json.splits option.splits if_splits)
qed

lemma superscript_no_digit: "list_all is_ascii_digit s \<Longrightarrow> s \<noteq> [] \<Longrightarrow> py_isdigit s"
  by (simp add: py_isdigit_def list_all_iff)

lemma normalized_named: "normalized_segment v seg = Inr key \<Longrightarrow> key_named v seg key"
  by (auto simp: normalized_segment_def key_named_def py_int_of_digits_def py_isdigit_def list_all_iff
      split: json.splits if_splits option.splits)

lemma leads_Cons:
  "leads v (seg # path) keys w \<longleftrightarrow>
     (\<exists>key u ks. normalized_segment v seg = Inr key \<and> follow_segment sid tr v key = Inr u \<and>
        keys = key # ks \<and> leads u path ks w)"
proof
  assume "leads v (seg # path) keys w"
  then show "\<exists>key u ks. normalized_segment v seg = Inr key \<and> follow_segment sid tr v key = Inr u \<and>
        keys = key # ks \<and> leads u path ks w"
  proof (cases rule: leads.cases)
    case (digits s xs ks)
    have "\<not> list_all is_ascii_digit ''first''" "\<not> list_all is_ascii_digit ''next''" by code_simp+
    with digits(5) have "s \<noteq> ''first''" "s \<noteq> ''next''" by blast+
    with digits superscript_no_digit [OF digits(5,4)] show ?thesis
      by (auto simp: normalized_segment_def py_int_of_digits_def follow_segment_def)
  qed (auto simp: normalized_segment_def follow_segment_def)
next
  assume "\<exists>key u ks. normalized_segment v seg = Inr key \<and> follow_segment sid tr v key = Inr u \<and>
        keys = key # ks \<and> leads u path ks w"
  then obtain key u ks where key: "normalized_segment v seg = Inr key" and u: "follow_segment sid tr v key = Inr u"
    and keys: "keys = key # ks" and rest: "leads u path ks w" by blast
  from u consider (obj) d k where "v = JObj d" "key = JStr k" "dict_get d k = Some u"
    | (list) xs n where "v = JList xs" "key = JInt (int n)" "n < length xs" "u = xs ! n"
    unfolding follow_segment_iff by blast
  then show "leads v (seg # path) keys w"
  proof cases
    case obj
    with key keys rest leads.field show ?thesis by (simp add: normalized_segment_def)
  next
    case list
    consider "seg = JInt (int n)" | s where "seg = JStr s" "s = ''first'' \<or> s = ''next''" "n = 0"
      | s where "seg = JStr s" "s \<noteq> []" "list_all is_ascii_digit s" "length s \<le> 4300" "n = digits_value s"
      using key list by (auto simp: normalized_segment_def py_int_of_digits_def py_isdigit_def
          split: json.splits if_splits option.splits)
    then show ?thesis
    proof cases
      case 1
      with list keys rest leads.index show ?thesis by simp
    next
      case 2
      with list obtain x xs' where "xs = x # xs'" by (cases xs) auto
      with 2 list keys rest leads.first show ?thesis by simp
    next
      case 3
      with list keys rest leads.digits show ?thesis by simp
    qed
  qed
qed

lemma traverse_leads: "traverse sid tr v path = Inr w \<longleftrightarrow> (\<exists>keys. leads v path keys w)"
proof (induction path arbitrary: tr v)
  case Nil
  show ?case by (auto simp: leads_Nil)
next
  case (Cons seg path)
  show ?case unfolding leads_Cons [of _ _ _ _ _ sid tr]
    using Cons.IH by (auto split: sum.splits)
qed

lemma traverse_error:
  "traverse sid tr v path = Inl (ReferenceError code sid' p) \<Longrightarrow>
     sid' = sid \<and> (\<exists>pre seg rest keys u key. path = pre @ seg # rest \<and> leads v pre keys u \<and>
       key_named u seg key \<and> stuck u key code \<and> p = tr @ keys @ [key])"
proof (induction path arbitrary: tr v)
  case (Cons seg path)
  from Cons.prems obtain key where key: "normalized_segment v seg = Inr key"
    by (auto simp: normalized_segment_def split: sum.splits json.splits if_splits option.splits)
  show ?case
  proof (cases "follow_segment sid tr v key")
    case (Inl e)
    with Cons.prems key have e: "e = ReferenceError code sid' p" by simp
    from Inl e have "sid' = sid" "p = tr @ [key]" "stuck v key code" unfolding follow_segment_iff by auto
    with normalized_named [OF key] leads.here show ?thesis
      by (intro conjI exI [of _ "[]"] exI [of _ seg] exI [of _ path] exI [of _ v] exI [of _ key]) simp_all
  next
    case (Inr u)
    with Cons.prems key have "traverse sid (tr @ [key]) u path = Inl (ReferenceError code sid' p)" by simp
    from Cons.IH [OF this] obtain pre seg' rest keys w key' where sid': "sid' = sid"
      and path: "path = pre @ seg' # rest" and to: "leads u pre keys w"
      and at: "key_named w seg' key'" "stuck w key' code" "p = (tr @ [key]) @ keys @ [key']" by blast
    from to key Inr have "leads v (seg # pre) (key # keys) w" unfolding leads_Cons [of _ _ _ _ _ sid tr] by blast
    with sid' path at show ?thesis
      by (intro conjI exI [of _ "seg # pre"] exI [of _ seg'] exI [of _ rest] exI [of _ "key # keys"] exI [of _ w] exI [of _ key']) simp_all
  qed
qed simp

lemma traverse_unresolvable:
  "traverse sid tr v path = Inl Unresolvable \<Longrightarrow>
     \<exists>pre s rest keys xs. path = pre @ JStr s # rest \<and> leads v pre keys (JList xs) \<and>
       py_isdigit s \<and> \<not> (list_all is_ascii_digit s \<and> length s \<le> 4300)"
proof (induction path arbitrary: tr v)
  case (Cons seg path)
  show ?case
  proof (cases "normalized_segment v seg")
    case (Inl e)
    then obtain xs s where "v = JList xs" "seg = JStr s" "py_isdigit s" "\<not> (list_all is_ascii_digit s \<and> length s \<le> 4300)"
      by (auto simp: normalized_segment_def py_int_of_digits_def split: json.splits if_splits option.splits)
    with leads.here show ?thesis by (intro exI [of _ "[]"] exI [of _ s] exI [of _ path] exI [of _ xs]) simp
  next
    case (Inr key)
    then obtain u where u: "follow_segment sid tr v key = Inr u" and "traverse sid (tr @ [key]) u path = Inl Unresolvable"
      using Cons.prems follow_segment_iff(2) [of sid tr v key Unresolvable] by (auto split: sum.splits)
    from Cons.IH [OF this(2)] obtain pre s rest keys xs where path: "path = pre @ JStr s # rest"
      and to: "leads u pre keys (JList xs)" and s: "py_isdigit s" "\<not> (list_all is_ascii_digit s \<and> length s \<le> 4300)" by blast
    from to Inr u have "leads v (seg # pre) (key # keys) (JList xs)" unfolding leads_Cons [of _ _ _ _ _ sid tr] by blast
    with path s show ?thesis
      by (intro exI [of _ "seg # pre"] exI [of _ s] exI [of _ rest] exI [of _ "key # keys"] exI [of _ xs]) simp
  qed
qed simp

text \<open>
  C22. Resolving a reference follows its path through the data of the step it names. It returns a value
  exactly when the path leads to it. An error about the data names the first place where the path
  leaves it: a proper beginning of the path leads to a value, and the reported path is the keys
  of this beginning with the key of the next segment, under which the value has nothing, for the
  reason given. The only other error is a segment at a list that Python takes for digits but \<open>int\<close>
  refuses.
\<close>

theorem reference_follows_path:
  assumes "dict_get d ''$step'' = Some (JStr sid)" and "dict_get_or d ''path'' (JList []) = JList path"
    and "dict_get results sid = Some r"
  shows "(\<forall>w. resolve_reference results d = Inr w \<longleftrightarrow> (\<exists>keys. leads (JObj (data r)) path keys w)) \<and>
    (\<forall>code s p. resolve_reference results d = Inl (ReferenceError code s p) \<longrightarrow>
      s = sid \<and> (\<exists>pre seg rest keys u key. path = pre @ seg # rest \<and> leads (JObj (data r)) pre keys u \<and>
        key_named u seg key \<and> stuck u key code \<and> p = keys @ [key])) \<and>
    (resolve_reference results d = Inl Unresolvable \<longrightarrow>
      (\<exists>pre s rest keys xs. path = pre @ JStr s # rest \<and> leads (JObj (data r)) pre keys (JList xs) \<and>
        py_isdigit s \<and> \<not> (list_all is_ascii_digit s \<and> length s \<le> 4300)))"
proof -
  have "resolve_reference results d = traverse sid [] (JObj (data r)) path"
    using assms by (simp add: resolve_reference_def)
  with traverse_leads [of sid "[]"] traverse_error [of sid "[]" "JObj (data r)" path]
    traverse_unresolvable [of sid "[]" "JObj (data r)" path] show ?thesis by auto
qed

theorem reference_follows_path_witness:
  "resolve_reference
     [(''find'', \<lparr>result_step_id = ''find'', status = COMPLETED,
        data = [(''emails'', JList [JObj [(''subject'', JStr ''Q3'')]])], error = None\<rparr>)]
     [(''$step'', JStr ''find''), (''path'', JList [JStr ''emails'', JStr ''1'', JStr ''subject''])] =
     Inl (ReferenceError ''reference_element_missing'' ''find'' [JStr ''emails'', JInt 1]) \<and>
   (\<exists>pre seg rest keys u key. [JStr ''emails'', JStr ''1'', JStr ''subject''] = pre @ seg # rest \<and>
      leads (JObj [(''emails'', JList [JObj [(''subject'', JStr ''Q3'')]])]) pre keys u \<and>
      key_named u seg key \<and> stuck u key ''reference_element_missing'' \<and> [JStr ''emails'', JInt 1] = keys @ [key])"
proof -
  let ?r = "\<lparr>result_step_id = ''find'', status = COMPLETED,
     data = [(''emails'', JList [JObj [(''subject'', JStr ''Q3'')]])], error = None\<rparr>"
  let ?d = "[(''$step'', JStr ''find''), (''path'', JList [JStr ''emails'', JStr ''1'', JStr ''subject''])]"
  have eval: "resolve_reference [(''find'', ?r)] ?d =
      Inl (ReferenceError ''reference_element_missing'' ''find'' [JStr ''emails'', JInt 1])"
    by code_simp
  have "\<exists>pre seg rest keys u key. [JStr ''emails'', JStr ''1'', JStr ''subject''] = pre @ seg # rest \<and>
      leads (JObj (data ?r)) pre keys u \<and> key_named u seg key \<and> stuck u key ''reference_element_missing'' \<and>
      [JStr ''emails'', JInt 1] = keys @ [key]"
    using reference_follows_path [of ?d "''find''" "[JStr ''emails'', JStr ''1'', JStr ''subject'']" "[(''find'', ?r)]" ?r]
    eval by (simp add: dict_get_or_def)
  with eval show ?thesis by simp
qed

definition spaced_reference_plan :: execution_plan where
  "spaced_reference_plan = \<lparr>steps =
     [\<lparr>step_id = ''find'', service = GMAIL, operation = ''search_emails'',
       arguments = [(''keywords'', JStr ''budget'')], depends_on = []\<rparr>,
      \<lparr>step_id = ''again'', service = GMAIL, operation = ''search_emails'',
       arguments = [(''keywords'', JObj [(''$step'', JStr '' find''),
         (''path'', JList [JStr ''emails'', JInt 0, JStr ''subject''])])],
       depends_on = [''find'']\<rparr>]\<rparr>"

text \<open>
  Plan validation strips the name in a reference, the executor does not: a plan whose
  reference is written with a space around the step name is accepted, and its step then fails as
  if the step it names had not run.
\<close>

theorem spaced_reference_fails:
  "plan_model_validate (plan_dump spaced_reference_plan) = Inr spaced_reference_plan \<and>
   (case dag_execute (build_agent_registry sample_agents) 7 8 sample_intent spaced_reference_plan empty_database [] of
      Inl e \<Rightarrow> False
    | Inr (out, db', calls') \<Rightarrow> map (\<lambda>r. (status r, map_option err_code (error r))) (out_results out) =
        [(COMPLETED, None), (FAILED, Some ''reference_step_missing'')])"
  by code_simp

end
