(* ===== verification/Approvals.thy ===== *)
theory Approvals
  imports Executor_Properties
begin

text \<open>
  The approval endpoints of \<open>app/api/routes/approvals.py\<close>.

  A handler takes the committed database and the call log. An exception makes the session roll
  back, so the database stays as it was; the calls already made stay in the log. The handlers of
  one approval exclude each other by the row lock \<open>with_for_update\<close>, so a handler is one step.
\<close>

section \<open>Responses\<close>

datatype http_error = HTTPError nat string | Unhandled py_error

record approval_response =
  resp_approval_id :: nat
  resp_status :: string
  resp_result :: "dict option"

type_synonym 'a handled = "(http_error + 'a) \<times> database \<times> agent_call list"

section \<open>Queries\<close>

definition pending_approval :: "database \<Rightarrow> nat \<Rightarrow> nat \<Rightarrow> http_error + approval_row" where
  "pending_approval db aid user =
     (case find (\<lambda>a. appr_id a = aid \<and> appr_user a = user) (approvals db) of
        None \<Rightarrow> Inl (HTTPError 404 ''Approval not found'')
      | Some a \<Rightarrow>
          if appr_status a \<noteq> status_value AWAITING_APPROVAL
          then Inl (HTTPError 409 ''Approval is no longer pending'')
          else Inr a)"

definition execution_step_of :: "database \<Rightarrow> approval_row \<Rightarrow> http_error + step_row" where
  "execution_step_of db a =
     (case find (\<lambda>r. row_execution r = appr_execution a \<and> row_step r = appr_step a) (step_rows db) of
        None \<Rightarrow> Inl (HTTPError 409 ''Approval step not found'')
      | Some r \<Rightarrow> Inr r)"

text \<open>\<open>_refresh_execution_status\<close>; the set of statuses of the execution's steps is read back.\<close>

definition refreshed_status :: "string list \<Rightarrow> string" where
  "refreshed_status ss =
     (if status_value FAILED \<in> set ss then status_value FAILED
      else if status_value AWAITING_APPROVAL \<in> set ss then status_value AWAITING_APPROVAL
      else status_value COMPLETED)"

definition step_statuses :: "database \<Rightarrow> nat \<Rightarrow> string list" where
  "step_statuses db x = map row_status (filter (\<lambda>r. row_execution r = x) (step_rows db))"

definition refresh_execution_status :: "nat \<Rightarrow> database \<Rightarrow> database" where
  "refresh_execution_status x db = set_execution_status x (refreshed_status (step_statuses db x)) db"

section \<open>Approving\<close>

text \<open>The stored action, or the \<open>KeyError\<close>, \<open>TypeError\<close> or \<open>ValueError\<close> that reading it raises.\<close>

definition stored_action :: "dict \<Rightarrow> (service \<times> string \<times> dict) option" where
  "stored_action action =
     (case (dict_get action ''service'', dict_get action ''operation'', dict_get action ''arguments'') of
        (Some (JStr s), Some (JStr op), Some (JObj args)) \<Rightarrow>
          (case service_of s of None \<Rightarrow> None | Some svc \<Rightarrow> Some (svc, op, args))
      | _ \<Rightarrow> None)"

definition record_execution :: "nat \<Rightarrow> approval_row \<Rightarrow> agent_result \<Rightarrow> database \<Rightarrow> database" where
  "record_execution user a r db =
     (let outcome = (if agent_status r = COMPLETED then ''approved'' else ''failed'') in
      refresh_execution_status (appr_execution a)
        (add_audit_log
           \<lparr>audit_user = user, audit_execution = appr_execution a, audit_action = ''action_approval_executed'',
            audit_details = [(''approval_id'', JStr (uuid_str (appr_id a))), (''step_id'', JStr (appr_step a)),
              (''status'', JStr outcome)]\<rparr>
           (set_approval_status (appr_id a) outcome
              (update_step_row (appr_execution a) (appr_step a)
                 (\<lambda>row. row\<lparr>row_status := status_value (agent_status r),
                    row_result := Some (JObj (agent_data r)),
                    row_error := (case agent_error r of None \<Rightarrow> None | Some e \<Rightarrow> Some (error_dump e))\<rparr>)
                 db))))"

definition approve_action ::
  "registry \<Rightarrow> nat \<Rightarrow> nat \<Rightarrow> database \<Rightarrow> agent_call list \<Rightarrow> approval_response handled" where
  "approve_action reg aid user db calls =
     (case pending_approval db aid user of
        Inl e \<Rightarrow> (Inl e, db, calls)
      | Inr a \<Rightarrow>
          (case stored_action (proposed_action a) of
             None \<Rightarrow> (Inl (HTTPError 409 ''Stored action is invalid''), db, calls)
           | Some (svc, op, args) \<Rightarrow>
               (case validate_operation reg svc op of
                  Inl e \<Rightarrow> (Inl (Unhandled e), db, calls)
                | Inr _ \<Rightarrow>
                    (let failed = Inl (HTTPError 502 ''The approved action could not be executed'') in
                     case registry_execute reg (length calls) svc op (JObj args) of
                       Rejected _ \<Rightarrow> (failed, db, calls)
                     | Called outcome \<Rightarrow>
                         (let calls' = calls @
                            [\<lparr>call_service = svc, call_operation = op, call_arguments = JObj args\<rparr>] in
                          case outcome of
                            Raised \<Rightarrow> (failed, db, calls')
                          | Returned r \<Rightarrow>
                              (case execution_step_of db a of
                                 Inl e \<Rightarrow> (Inl e, db, calls')
                               | Inr _ \<Rightarrow>
                                   (Inr \<lparr>resp_approval_id = appr_id a,
                                      resp_status = (if agent_status r = COMPLETED then ''approved'' else ''failed''),
                                      resp_result = Some (agent_data r)\<rparr>,
                                    record_execution user a r db, calls')))))))"

section \<open>Rejecting\<close>

definition record_rejection :: "nat \<Rightarrow> approval_row \<Rightarrow> database \<Rightarrow> database" where
  "record_rejection user a db =
     add_audit_log
       \<lparr>audit_user = user, audit_execution = appr_execution a, audit_action = ''action_approval_rejected'',
        audit_details = [(''approval_id'', JStr (uuid_str (appr_id a))), (''step_id'', JStr (appr_step a))]\<rparr>
       (set_execution_status (appr_execution a) (status_value FAILED)
          (update_step_row (appr_execution a) (appr_step a)
             (\<lambda>row. row\<lparr>row_status := status_value SKIPPED,
                row_error := Some (JObj [(''code'', JStr ''approval_rejected''),
                  (''message'', JStr ''The user rejected this action'')])\<rparr>)
             (set_approval_status (appr_id a) ''rejected'' db)))"

definition reject_action ::
  "nat \<Rightarrow> nat \<Rightarrow> database \<Rightarrow> agent_call list \<Rightarrow> approval_response handled" where
  "reject_action aid user db calls =
     (case pending_approval db aid user of
        Inl e \<Rightarrow> (Inl e, db, calls)
      | Inr a \<Rightarrow>
          (case execution_step_of db a of
             Inl e \<Rightarrow> (Inl e, db, calls)
           | Inr _ \<Rightarrow>
               (Inr \<lparr>resp_approval_id = appr_id a, resp_status = ''rejected'', resp_result = None\<rparr>,
                record_rejection user a db, calls)))"

section \<open>The invariant of the stored actions\<close>

text \<open>
  Every approval was made for a gated operation, with arguments that are a dict, and belongs to a
  stored step of a stored execution of the same user; while it awaits a decision, so does its step.
\<close>

definition approval_linked :: "database \<Rightarrow> approval_row \<Rightarrow> bool" where
  "approval_linked db a \<longleftrightarrow>
     (\<exists>svc op args. stored_action (proposed_action a) = Some (svc, op, args) \<and>
        (svc, op) \<in> set approval_required_operations) \<and>
     (\<exists>x \<in> set (executions db). exec_id x = appr_execution a \<and> exec_user x = appr_user a) \<and>
     (\<exists>r \<in> set (step_rows db). step_key r = approval_key a \<and>
        (appr_status a = status_value AWAITING_APPROVAL \<longrightarrow> row_status r = status_value AWAITING_APPROVAL))"

definition approvals_ok :: "database \<Rightarrow> bool" where
  "approvals_ok db \<longleftrightarrow> unique_keys db \<and> fresh_ids db \<and> (\<forall>a \<in> set (approvals db). approval_linked db a)"

lemma approvals_ok_empty: "approvals_ok empty_database"
  by (simp add: approvals_ok_def unique_keys_def fresh_ids_def empty_database_def)

section \<open>Laws\<close>

lemma pending_approval_Inr:
  assumes "pending_approval db aid user = Inr a"
  shows "a \<in> set (approvals db)" and "appr_id a = aid" and "appr_user a = user"
    and "appr_status a = status_value AWAITING_APPROVAL"
  using assms by (auto simp: pending_approval_def find_Some_iff split: option.splits if_splits)

lemma unique_approval:
  assumes "unique_keys db" and "a \<in> set (approvals db)" and "b \<in> set (approvals db)"
    and "appr_id a = appr_id b"
  shows "a = b"
  using assms by (auto simp: unique_keys_def distinct_map inj_on_def)

lemma pending_approval_decided:
  assumes "unique_keys db" and "a \<in> set (approvals db)" and "appr_status a \<noteq> status_value AWAITING_APPROVAL"
  shows "pending_approval db (appr_id a) user = Inl (HTTPError 404 ''Approval not found'') \<or>
     pending_approval db (appr_id a) user = Inl (HTTPError 409 ''Approval is no longer pending'')"
proof (cases "find (\<lambda>b. appr_id b = appr_id a \<and> appr_user b = user) (approvals db)")
  case (Some b)
  then have "b \<in> set (approvals db)" "appr_id b = appr_id a" by (auto simp: find_Some_iff)
  then have "b = a" using unique_approval assms by blast
  with Some assms(3) show ?thesis by (simp add: pending_approval_def)
qed (simp add: pending_approval_def)


text \<open>The outcomes of a handler: a refusal that changes nothing but the log, or a decision.\<close>

lemma approve_action_cases:
  obtains (refused) e where "approve_action reg aid user db calls = (Inl e, db, calls)"
    | (called) e a svc op args where "approve_action reg aid user db calls =
          (Inl e, db, calls @ [\<lparr>call_service = svc, call_operation = op, call_arguments = JObj args\<rparr>])"
        and "pending_approval db aid user = Inr a" and "stored_action (proposed_action a) = Some (svc, op, args)"
        and "validate_operation_arguments svc op args False = Inr ()"
        and "\<And>r. execution_step_of db a = Inr r \<Longrightarrow>
          e = HTTPError 502 ''The approved action could not be executed''"
    | (executed) a svc op args r row where "approve_action reg aid user db calls =
          (Inr \<lparr>resp_approval_id = appr_id a,
             resp_status = (if agent_status r = COMPLETED then ''approved'' else ''failed''),
             resp_result = Some (agent_data r)\<rparr>,
           record_execution user a r db,
           calls @ [\<lparr>call_service = svc, call_operation = op, call_arguments = JObj args\<rparr>])"
        and "pending_approval db aid user = Inr a" and "stored_action (proposed_action a) = Some (svc, op, args)"
        and "validate_operation_arguments svc op args False = Inr ()" and "execution_step_of db a = Inr row"
proof (cases "pending_approval db aid user")
  case (Inl e)
  then show ?thesis by (intro refused) (simp add: approve_action_def)
next
  case (Inr a)
  show ?thesis
  proof (cases "stored_action (proposed_action a)")
    case None
    with Inr show ?thesis by (intro refused) (simp add: approve_action_def)
  next
    case (Some act)
    obtain svc op args where act: "act = (svc, op, args)" by (cases act)
    show ?thesis
    proof (cases "validate_operation reg svc op")
      case (Inl e)
      with Inr Some act show ?thesis by (intro refused) (simp add: approve_action_def)
    next
      case ok: (Inr u)
      show ?thesis
      proof (cases "registry_execute reg (length calls) svc op (JObj args)")
        case (Rejected e)
        with Inr Some act ok show ?thesis by (intro refused) (simp add: approve_action_def Let_def)
      next
        case (Called outcome)
        then have valid: "validate_operation_arguments svc op args False = Inr ()"
          by (auto simp: registry_execute_Called)
        show ?thesis
        proof (cases outcome)
          case Raised
          with Inr Some act ok Called valid show ?thesis
            by (intro called [of _ svc op args a]) (simp_all add: approve_action_def Let_def)
        next
          case (Returned r)
          show ?thesis
          proof (cases "execution_step_of db a")
            case (Inl e)
            with Inr Some act ok Called Returned valid show ?thesis
              by (intro called [of e svc op args a]) (simp_all add: approve_action_def Let_def)
          next
            case (Inr row)
            with \<open>pending_approval db aid user = Inr a\<close> Some act ok Called Returned valid show ?thesis
              by (intro executed [of a r svc op args row]) (simp_all add: approve_action_def Let_def)
          qed
        qed
      qed
    qed
  qed
qed

lemma reject_action_cases:
  obtains (refused) e where "reject_action aid user db calls = (Inl e, db, calls)"
    | (rejected) a row where "reject_action aid user db calls =
          (Inr \<lparr>resp_approval_id = appr_id a, resp_status = ''rejected'', resp_result = None\<rparr>,
           record_rejection user a db, calls)"
        and "pending_approval db aid user = Inr a" and "execution_step_of db a = Inr row"
proof (cases "pending_approval db aid user")
  case (Inr a)
  then show ?thesis
    by (cases "execution_step_of db a") (auto simp: reject_action_def intro: refused rejected)
qed (auto simp: reject_action_def intro: refused)

text \<open>
  The two updates have one shape: they change the status of one approval and the contents of one
  step row, and add to the audit log.
\<close>

lemma record_execution_sel:
  "map appr_id (approvals (record_execution user a r db)) = map appr_id (approvals db)"
  "approvals (record_execution user a r db) =
     map (\<lambda>b. if appr_id b = appr_id a
       then b\<lparr>appr_status := (if agent_status r = COMPLETED then ''approved'' else ''failed'')\<rparr> else b) (approvals db)"
  "map step_key (step_rows (record_execution user a r db)) = map step_key (step_rows db)"
  "map (\<lambda>x. (exec_id x, exec_user x)) (executions (record_execution user a r db)) =
     map (\<lambda>x. (exec_id x, exec_user x)) (executions db)"
  "next_id (record_execution user a r db) = next_id db"
  by (auto simp: record_execution_def Let_def refresh_execution_status_def db_update_defs step_key_def)

lemma record_rejection_sel:
  "approvals (record_rejection user a db) =
     map (\<lambda>b. if appr_id b = appr_id a then b\<lparr>appr_status := ''rejected''\<rparr> else b) (approvals db)"
  "map step_key (step_rows (record_rejection user a db)) = map step_key (step_rows db)"
  "map (\<lambda>x. (exec_id x, exec_user x)) (executions (record_rejection user a db)) =
     map (\<lambda>x. (exec_id x, exec_user x)) (executions db)"
  "next_id (record_rejection user a db) = next_id db"
  by (auto simp: record_rejection_def db_update_defs step_key_def)

lemma other_rows_kept:
  "r \<in> set (step_rows db) \<Longrightarrow> step_key r \<noteq> approval_key a \<Longrightarrow>
     r \<in> set (step_rows (record_execution user a q db)) \<and> r \<in> set (step_rows (record_rejection user a db))"
  by (force simp: record_execution_def record_rejection_def Let_def refresh_execution_status_def
      db_update_defs step_key_def approval_key_def)

lemma approvals_ok_decided:
  assumes ok: "approvals_ok db" and a: "a \<in> set (approvals db)"
    and new: "approvals db' = map (\<lambda>b. if appr_id b = appr_id a then b\<lparr>appr_status := st\<rparr> else b) (approvals db)"
    and st: "st \<noteq> status_value AWAITING_APPROVAL"
    and keys: "map step_key (step_rows db') = map step_key (step_rows db)"
    and rows: "\<And>r. r \<in> set (step_rows db) \<Longrightarrow> step_key r \<noteq> approval_key a \<Longrightarrow> r \<in> set (step_rows db')"
    and execs: "map (\<lambda>x. (exec_id x, exec_user x)) (executions db') = map (\<lambda>x. (exec_id x, exec_user x)) (executions db)"
    and "next_id db' = next_id db"
  shows "approvals_ok db'"
proof -
  let ?f = "\<lambda>b. if appr_id b = appr_id a then b\<lparr>appr_status := st\<rparr> else b"
  have uniq: "unique_keys db" and fresh: "fresh_ids db" using ok by (simp_all add: approvals_ok_def)
  have ids: "map appr_id (approvals db') = map appr_id (approvals db)"
    and akeys: "map approval_key (approvals db') = map approval_key (approvals db)"
    unfolding new by (simp_all add: approval_key_def o_def if_distrib cong: if_cong)
  have eids: "map exec_id (executions db') = map exec_id (executions db)"
    using arg_cong [OF execs, of "map fst"] by (simp add: o_def)
  have "unique_keys db'" using uniq ids akeys keys eids by (simp add: unique_keys_def)
  have "fresh_ids db'"
  proof -
    have "\<forall>r \<in> set (executions db'). exec_id r < next_id db'"
      using fresh eids assms(8) unfolding fresh_ids_def by (metis (mono_tags) imageE image_eqI list.set_map)
    moreover have "\<forall>r \<in> set (step_rows db'). row_execution r < next_id db'"
    proof
      fix r assume "r \<in> set (step_rows db')"
      then have "step_key r \<in> set (map step_key (step_rows db))" unfolding keys [symmetric] by simp
      with fresh assms(8) show "row_execution r < next_id db'" by (auto simp: fresh_ids_def step_key_def)
    qed
    moreover have "\<forall>r \<in> set (approvals db'). appr_id r < next_id db' \<and> appr_execution r < next_id db'"
      using fresh assms(8) by (auto simp: fresh_ids_def new)
    ultimately show ?thesis by (simp add: fresh_ids_def)
  qed
  have linked': "approval_linked db' (?f b)" if b: "b \<in> set (approvals db)" for b
  proof -
    have same: "proposed_action (?f b) = proposed_action b" "appr_execution (?f b) = appr_execution b"
      "appr_user (?f b) = appr_user b" "approval_key (?f b) = approval_key b"
      by (simp_all add: approval_key_def)
    from ok b have linked: "approval_linked db b" by (simp add: approvals_ok_def)
    then obtain r where r: "r \<in> set (step_rows db)" "step_key r = approval_key b"
      "appr_status b = status_value AWAITING_APPROVAL \<longrightarrow> row_status r = status_value AWAITING_APPROVAL"
      by (auto simp: approval_linked_def)
    have "\<exists>q \<in> set (step_rows db'). step_key q = approval_key b \<and>
        (appr_status (?f b) = status_value AWAITING_APPROVAL \<longrightarrow> row_status q = status_value AWAITING_APPROVAL)"
    proof (cases "appr_id b = appr_id a")
      case True
      from r(1,2) have "approval_key b \<in> set (map step_key (step_rows db'))" unfolding keys by force
      with True st show ?thesis by auto
    next
      case False
      then have "approval_key b \<noteq> approval_key a"
        using uniq a b by (auto simp: unique_keys_def distinct_map inj_on_def)
      with r rows have "r \<in> set (step_rows db')" by simp
      with r False show ?thesis by auto
    qed
    moreover have "\<exists>x \<in> set (executions db'). exec_id x = appr_execution b \<and> exec_user x = appr_user b"
    proof -
      from linked have "(appr_execution b, appr_user b) \<in> set (map (\<lambda>x. (exec_id x, exec_user x)) (executions db'))"
        unfolding execs by (force simp: approval_linked_def)
      then show ?thesis by auto
    qed
    ultimately show ?thesis using linked unfolding approval_linked_def same by simp
  qed
  have "\<forall>b \<in> set (map ?f (approvals db)). approval_linked db' b"
    unfolding set_map ball_simps(9) using linked' by blast
  with \<open>unique_keys db'\<close> \<open>fresh_ids db'\<close> show ?thesis unfolding approvals_ok_def new by blast
qed

lemma approve_ok:
  assumes "approvals_ok db"
  shows "approvals_ok (fst (snd (approve_action reg aid user db calls)))"
proof (rule approve_action_cases [of reg aid user db calls])
  fix a svc op args r row
  assume eq: "approve_action reg aid user db calls =
      (Inr \<lparr>resp_approval_id = appr_id a,
         resp_status = (if agent_status r = COMPLETED then ''approved'' else ''failed''),
         resp_result = Some (agent_data r)\<rparr>,
       record_execution user a r db,
       calls @ [\<lparr>call_service = svc, call_operation = op, call_arguments = JObj args\<rparr>])"
    and "pending_approval db aid user = Inr a"
  then have a: "a \<in> set (approvals db)" by (intro pending_approval_Inr(1))
  have "approvals_ok (record_execution user a r db)"
    by (rule approvals_ok_decided [OF assms a record_execution_sel(2)])
      (use other_rows_kept in \<open>auto simp: record_execution_sel\<close>)
  with eq show ?thesis by simp
qed (use assms in simp_all)

lemma reject_ok:
  assumes "approvals_ok db"
  shows "approvals_ok (fst (snd (reject_action aid user db calls)))"
proof (rule reject_action_cases [of aid user db calls])
  fix a row
  assume eq: "reject_action aid user db calls =
      (Inr \<lparr>resp_approval_id = appr_id a, resp_status = ''rejected'', resp_result = None\<rparr>,
       record_rejection user a db, calls)"
    and "pending_approval db aid user = Inr a"
  then have a: "a \<in> set (approvals db)" by (intro pending_approval_Inr(1))
  have "approvals_ok (record_rejection user a db)"
    by (rule approvals_ok_decided [OF assms a record_rejection_sel(1)])
      (use other_rows_kept in \<open>auto simp: record_rejection_sel\<close>)
  with eq show ?thesis by simp
qed (use assms in simp_all)

section \<open>The executor establishes the invariant\<close>

lemma resolve_items_dict:
  assumes "resolve_references res (JObj d) = Inr v" and "\<not> has_key d ''$step''"
  obtains d' where "v = JObj d'"
  using assms by (auto split: sum.splits)

lemma planned_arguments_no_reference:
  assumes "validate_operation_arguments svc op args True = Inr ()"
  shows "\<not> has_key args ''$step''"
proof
  assume "has_key args ''$step''"
  with assms obtain required optional where spec: "spec_argument_names svc op = Some (required, optional)"
    and "''$step'' \<in> set required \<union> set optional"
    by (auto simp: validate_operation_arguments_Inr has_key_def dict_keys_def)
  then show False
    by (cases svc) (auto simp: spec_argument_names_eq split: if_splits)
qed

lemma gated_action_stored:
  assumes "registry_validate_plan reg p = Inr ()" and "s \<in> set (steps p)"
    and "resolve_references res (JObj (arguments s)) = Inr args"
    and "(service s, operation s) \<in> set approval_required_operations"
  shows "\<exists>svc op d. stored_action (proposed_action (new_approval a xid user s args)) = Some (svc, op, d) \<and>
     (svc, op) \<in> set approval_required_operations"
proof -
  have "validate_operation_arguments (service s) (operation s) (arguments s) True = Inr ()"
    using assms(1,2) by (simp add: registry_validate_plan_Inr)
  from resolve_items_dict [OF assms(3) planned_arguments_no_reference [OF this]] obtain d
    where "args = JObj d" .
  with assms(4) show ?thesis by (simp add: new_approval_def stored_action_def)
qed

lemma executor_ok:
  assumes ok: "approvals_ok db" and p: "plan_model_validate v = Inr p"
    and run: "dag_execute reg user conversation i p db calls = Inr (out, db', calls')"
  shows "approvals_ok db'"
proof -
  let ?xid = "next_id db"
  from dag_execute_Inr [OF p run] obtain tr
    where out: "outcome_of_trace ?xid user conversation i p db calls tr (out, db', calls')"
      and reg: "registry_validate_plan reg p = Inr ()" .
  note D = outcome_of_traceD [OF out]
  have uniq: "unique_keys db" and fresh: "fresh_ids db" using ok by (simp_all add: approvals_ok_def)
  let ?app = "\<lambda>(a, s, args). new_approval a ?xid user s args"
  from outcome_gates [OF p run] obtain gs where apps: "approvals db' = approvals db @ map ?app gs"
    and ids: "map fst gs = [Suc ?xid ..< next_id db']" and steps: "distinct (map (\<lambda>(a, s, args). step_id s) gs)"
    and gate: "\<forall>(a, s, args) \<in> set gs. s \<in> set (steps p) \<and> (service s, operation s) \<in> set approval_required_operations \<and>
        resolve_references (outcome_results p out) (JObj (arguments s)) = Inr args \<and>
        dict_get (outcome_results p out) (step_id s) = Some (awaiting_result s a) \<and>
        (\<exists>row \<in> set (step_rows db'). row_execution row = ?xid \<and> row_step row = step_id s \<and>
           row_status row = ''awaiting_approval'' \<and> row_arguments row = args)" by force
  from outcome_rows [OF p run] obtain rows where rows: "step_rows db' = step_rows db @ rows"
    and dist: "distinct (map row_step rows)" and xid: "\<forall>r \<in> set rows. row_execution r = ?xid"
    using D(8) by auto
  have execs: "map (\<lambda>x. (exec_id x, exec_user x)) (executions db') =
      map (\<lambda>x. (exec_id x, exec_user x)) (executions db) @ [(?xid, user)]"
    by (simp add: D(7) new_execution_def)
  have eids: "map exec_id (executions db') = map exec_id (executions db) @ [?xid]"
    using arg_cong [OF execs, of "map fst"] by (simp add: o_def)
  have app_ids: "map appr_id (map ?app gs) = [Suc ?xid ..< next_id db']"
    unfolding ids [symmetric] by (simp add: new_approval_def case_prod_beta)
  have app_keys: "map approval_key (map ?app gs) = map (\<lambda>x. (?xid, x)) (map (\<lambda>(a, s, args). step_id s) gs)"
    by (simp add: new_approval_def approval_key_def case_prod_beta)
  have row_keys: "map step_key rows = map (\<lambda>x. (?xid, x)) (map row_step rows)"
    using xid by (simp add: step_key_def)
  have "unique_keys db'"
  proof -
    have "distinct (map exec_id (executions db'))"
      using uniq fresh unfolding eids by (auto simp: unique_keys_def fresh_ids_def)
    moreover have "distinct (map appr_id (approvals db'))"
      using uniq fresh unfolding apps map_append app_ids by (auto simp: unique_keys_def fresh_ids_def)
    moreover have "distinct (map approval_key (approvals db'))"
      using uniq fresh steps unfolding apps map_append app_keys
      by (auto simp: unique_keys_def fresh_ids_def distinct_map inj_on_def approval_key_def)
    moreover have "distinct (map step_key (step_rows db'))"
      using uniq fresh dist unfolding rows map_append row_keys
      by (auto simp: unique_keys_def fresh_ids_def distinct_map inj_on_def step_key_def)
    ultimately show ?thesis by (simp add: unique_keys_def)
  qed
  moreover have "fresh_ids db'"
  proof -
    have "\<forall>x \<in> set (map exec_id (executions db')). x < next_id db'"
      using fresh D(6) unfolding eids by (auto simp: fresh_ids_def)
    moreover have "\<forall>x \<in> set (map appr_id (approvals db')). x < next_id db'"
      using fresh D(6) unfolding apps map_append app_ids by (auto simp: fresh_ids_def)
    moreover have "\<forall>r \<in> set (approvals db'). appr_execution r < next_id db'"
      using fresh D(6) unfolding apps by (auto simp: fresh_ids_def new_approval_def)
    moreover have "\<forall>r \<in> set (step_rows db'). row_execution r < next_id db'"
      using fresh D(6) xid unfolding rows by (auto simp: fresh_ids_def)
    ultimately show ?thesis by (simp add: fresh_ids_def)
  qed
  moreover have "approval_linked db' a" if "a \<in> set (approvals db')" for a
  proof (cases "a \<in> set (approvals db)")
    case True
    with ok have old: "approval_linked db a" by (simp add: approvals_ok_def)
    then have "(appr_execution a, appr_user a) \<in> set (map (\<lambda>x. (exec_id x, exec_user x)) (executions db'))"
      unfolding execs by (force simp: approval_linked_def)
    then have "\<exists>x \<in> set (executions db'). exec_id x = appr_execution a \<and> exec_user x = appr_user a" by auto
    with old show ?thesis unfolding approval_linked_def rows by auto
  next
    case False
    with that obtain aid s args where g: "(aid, s, args) \<in> set gs" and a: "a = new_approval aid ?xid user s args"
      unfolding apps by auto
    from bspec [OF gate g, unfolded prod.case] have s: "s \<in> set (steps p)" "(service s, operation s) \<in> set approval_required_operations"
      "resolve_references (outcome_results p out) (JObj (arguments s)) = Inr args"
      and row: "\<exists>row \<in> set (step_rows db'). row_execution row = ?xid \<and> row_step row = step_id s \<and>
           row_status row = ''awaiting_approval'' \<and> row_arguments row = args" by (simp_all only:)
    have "(?xid, user) \<in> set (map (\<lambda>x. (exec_id x, exec_user x)) (executions db'))" unfolding execs by simp
    then have "\<exists>x \<in> set (executions db'). exec_id x = appr_execution a \<and> exec_user x = appr_user a"
      by (auto simp: a new_approval_def)
    moreover have "\<exists>r \<in> set (step_rows db'). step_key r = approval_key a \<and>
        (appr_status a = status_value AWAITING_APPROVAL \<longrightarrow> row_status r = status_value AWAITING_APPROVAL)"
      using row by (auto simp: a new_approval_def step_key_def approval_key_def)
    moreover have "\<exists>svc op d. stored_action (proposed_action a) = Some (svc, op, d) \<and>
        (svc, op) \<in> set approval_required_operations"
      unfolding a using reg s(1,3,2) by (rule gated_action_stored)
    ultimately show ?thesis unfolding approval_linked_def by blast
  qed
  ultimately show ?thesis unfolding approvals_ok_def by blast
qed

section \<open>Properties\<close>

text \<open>
  Approving makes at most one call, and the call is the stored action: the service, the
  operation and the arguments saved when the plan was executed, checked again by the strict
  validation. It is made only for an approval of the requesting user that is still pending.
\<close>

theorem approve_executes_stored_action:
  "snd (snd (approve_action reg aid user db calls)) = calls \<or>
   (\<exists>a svc op args. a \<in> set (approvals db) \<and> appr_id a = aid \<and> appr_user a = user \<and>
      appr_status a = ''awaiting_approval'' \<and>
      stored_action (proposed_action a) = Some (svc, op, args) \<and>
      validate_operation_arguments svc op args False = Inr () \<and>
      snd (snd (approve_action reg aid user db calls)) =
        calls @ [\<lparr>call_service = svc, call_operation = op, call_arguments = JObj args\<rparr>])"
proof (cases rule: approve_action_cases [of reg aid user db calls])
  case (called e a svc op args)
  with pending_approval_Inr [OF called(2)] show ?thesis by auto
next
  case (executed a svc op args r row)
  with pending_approval_Inr [OF executed(2)] show ?thesis by auto
qed simp

text \<open>
  A decision is final: once an approval has been approved, rejected or has failed, approving
  or rejecting it again, by anyone, is answered 404 or 409 and changes neither the database nor
  makes a call.
\<close>

theorem decided_approval_is_final:
  assumes "unique_keys db" and "a \<in> set (approvals db)" and "appr_status a \<noteq> ''awaiting_approval''"
  shows "\<exists>e \<in> {HTTPError 404 ''Approval not found'', HTTPError 409 ''Approval is no longer pending''}.
     approve_action reg (appr_id a) user db calls = (Inl e, db, calls) \<and>
     reject_action (appr_id a) user db calls = (Inl e, db, calls)"
  using pending_approval_decided [OF assms(1,2), of user] assms(3)
  by (auto simp: approve_action_def reject_action_def)

text \<open>The sample execution after its one approval has been approved.\<close>

definition sample_approved :: "approval_response handled" where
  "sample_approved = approve_action (build_agent_registry sample_agents) 1 7 sample_database sample_calls"

definition sample_approval :: approval_row where
  "sample_approval = \<lparr>appr_id = 1, appr_execution = 0, appr_step = ''send'', appr_user = 7,
     appr_status = ''approved'',
     proposed_action = [(''service'', JStr ''gmail''), (''operation'', JStr ''send_email''),
       (''arguments'', JObj sample_arguments)]\<rparr>"

lemma sample_approved_result:
  "fst sample_approved = Inr \<lparr>resp_approval_id = 1, resp_status = ''approved'',
     resp_result = Some [(''emails'', JList [JObj [(''subject'', JStr ''Q3'')]])]\<rparr>"
  "approvals (fst (snd sample_approved)) = [sample_approval]"
  "executions (fst (snd sample_approved)) = [\<lparr>exec_id = 0, exec_user = 7, exec_conversation = 8,
     exec_status = ''completed'', exec_intent = intent_dump sample_intent, exec_plan = plan_dump sample_mail_plan\<rparr>]"
  "snd (snd sample_approved) = sample_calls @ [\<lparr>call_service = GMAIL, call_operation = ''send_email'',
     call_arguments = JObj sample_arguments\<rparr>]"
  by code_simp+

lemma sample_database_ok: "approvals_ok sample_database"
  by (rule executor_ok [OF approvals_ok_empty sample_mail_plan_accepted sample_run])

theorem decided_approval_is_final_witness:
  "\<exists>e \<in> {HTTPError 404 ''Approval not found'', HTTPError 409 ''Approval is no longer pending''}.
     approve_action (build_agent_registry sample_agents) (appr_id sample_approval) 7 (fst (snd sample_approved)) [] =
       (Inl e, fst (snd sample_approved), []) \<and>
     reject_action (appr_id sample_approval) 7 (fst (snd sample_approved)) [] =
       (Inl e, fst (snd sample_approved), [])"
proof (rule decided_approval_is_final)
  have "approvals_ok (fst (snd sample_approved))"
    unfolding sample_approved_def by (rule approve_ok [OF sample_database_ok])
  then show "unique_keys (fst (snd sample_approved))" by (simp add: approvals_ok_def)
  show "sample_approval \<in> set (approvals (fst (snd sample_approved)))" by (simp add: sample_approved_result)
  show "appr_status sample_approval \<noteq> ''awaiting_approval''" by (simp add: sample_approval_def)
qed



definition raising_agents :: "service \<Rightarrow> nat \<Rightarrow> string \<Rightarrow> dict \<Rightarrow> agent_outcome" where
  "raising_agents svc n op args = Raised"

text \<open>
  When the agent raises after acting, approving is answered 502 and rolled back, so the
  approval stays pending: approving it again performs the same side effect a second time.
\<close>

theorem failed_approval_can_repeat:
  "(let reg = build_agent_registry raising_agents;
        (r1, db1, calls1) = approve_action reg 1 7 sample_database [];
        (r2, db2, calls2) = approve_action reg 1 7 db1 calls1;
        call = \<lparr>call_service = GMAIL, call_operation = ''send_email'', call_arguments = JObj sample_arguments\<rparr> in
    r1 = Inl (HTTPError 502 ''The approved action could not be executed'') \<and> r2 = r1 \<and>
    db2 = sample_database \<and> calls2 = [call, call])"
  by code_simp

definition two_actions_plan :: execution_plan where
  "two_actions_plan = \<lparr>steps =
     [\<lparr>step_id = ''first'', service = GMAIL, operation = ''send_email'',
       arguments = [(''draft_id'', JStr ''d1'')], depends_on = []\<rparr>,
      \<lparr>step_id = ''second'', service = GMAIL, operation = ''send_email'',
       arguments = [(''draft_id'', JStr ''d2'')], depends_on = []\<rparr>]\<rparr>"

definition two_actions_database :: database where
  "two_actions_database =
     (case dag_execute (build_agent_registry sample_agents) 7 8 sample_intent two_actions_plan empty_database [] of
        Inl e \<Rightarrow> empty_database | Inr (out, db, calls) \<Rightarrow> db)"

text \<open>
  The final status of an execution depends on the order in which its approvals are decided:
  when one of two actions is rejected and the other approved, the execution ends as \<open>completed\<close> if
  the rejection came first and as \<open>failed\<close> if it came last.
\<close>

theorem decision_order_matters:
  "(let reg = build_agent_registry sample_agents;
        rejected_first = fst (snd (approve_action reg 2 7 (fst (snd (reject_action 1 7 two_actions_database []))) []));
        rejected_last = fst (snd (reject_action 1 7 (fst (snd (approve_action reg 2 7 two_actions_database []))) [])) in
    map exec_status (executions rejected_first) = [''completed''] \<and>
    map exec_status (executions rejected_last) = [''failed''] \<and>
    map appr_status (approvals rejected_first) = [''rejected'', ''approved''] \<and>
    map appr_status (approvals rejected_last) = [''rejected'', ''approved''])"
  by code_simp

end
