(* ===== verification/Orchestration.thy ===== *)
theory Orchestration
  imports Approvals
begin

text \<open>
  The orchestration as a state machine: accepted plans are executed and the users approve or
  reject actions, in any order. The state is the database, the log of agent calls and the log of
  the decisions that were accepted. The properties hold of every sequence of requests from an
  empty database.
\<close>

section \<open>Events\<close>

datatype event =
    Execute nat nat intent json
  | Approve nat nat
  | Reject nat nat

record system_state =
  sys_db :: database
  sys_calls :: "agent_call list"
  sys_decisions :: "nat list"

definition accepted_decision :: "nat \<Rightarrow> 'a handled \<Rightarrow> system_state \<Rightarrow> system_state" where
  "accepted_decision aid h st =
     \<lparr>sys_db = fst (snd h), sys_calls = snd (snd h),
      sys_decisions = (case fst h of Inl _ \<Rightarrow> sys_decisions st | Inr _ \<Rightarrow> sys_decisions st @ [aid])\<rparr>"

text \<open>A plan that does not validate is never executed; an execution that raises commits nothing.\<close>

fun handle_event :: "registry \<Rightarrow> event \<Rightarrow> system_state \<Rightarrow> system_state" where
  "handle_event reg (Execute user conversation i v) st =
     (case plan_model_validate v of
        Inl _ \<Rightarrow> st
      | Inr p \<Rightarrow>
          (case dag_execute reg user conversation i p (sys_db st) (sys_calls st) of
             Inl _ \<Rightarrow> st
           | Inr (out, db, calls) \<Rightarrow> st\<lparr>sys_db := db, sys_calls := calls\<rparr>))"
| "handle_event reg (Approve aid user) st =
     accepted_decision aid (approve_action reg aid user (sys_db st) (sys_calls st)) st"
| "handle_event reg (Reject aid user) st =
     accepted_decision aid (reject_action aid user (sys_db st) (sys_calls st)) st"

fun run_events :: "registry \<Rightarrow> system_state \<Rightarrow> event list \<Rightarrow> system_state" where
  "run_events reg st [] = st"
| "run_events reg st (e # es) = run_events reg (handle_event reg e st) es"

definition initial_system :: system_state where
  "initial_system = \<lparr>sys_db = empty_database, sys_calls = [], sys_decisions = []\<rparr>"

section \<open>Invariants over histories\<close>

text \<open>A property of the history and the state that every event preserves holds of every run.\<close>

locale history_invariant =
  fixes step :: "'e \<Rightarrow> 's \<Rightarrow> 's" and inv :: "'e list \<Rightarrow> 's \<Rightarrow> bool"
  assumes step_inv: "inv es st \<Longrightarrow> inv (es @ [e]) (step e st)"
begin

lemma fold_inv: "inv es st \<Longrightarrow> inv (es @ fs) (fold step fs st)"
proof (induction fs arbitrary: es st)
  case (Cons f fs)
  from Cons.IH [OF step_inv [OF Cons.prems]] show ?case by simp
qed simp

lemma run_inv: "inv [] st \<Longrightarrow> inv es (fold step es st)"
  using fold_inv [of "[]"] by simp

end

lemma run_events_fold: "run_events reg st es = fold (handle_event reg) es st"
  by (induction es arbitrary: st) simp_all

section \<open>The database invariant\<close>

lemma handle_event_ok:
  assumes "approvals_ok (sys_db st)"
  shows "approvals_ok (sys_db (handle_event reg e st))"
proof (cases e)
  case (Execute user conversation i v)
  with assms show ?thesis
    by (auto split: sum.splits dest: executor_ok [OF assms])
next
  case (Approve aid user)
  with approve_ok [OF assms] show ?thesis by (simp add: accepted_decision_def)
next
  case (Reject aid user)
  with reject_ok [OF assms] show ?thesis by (simp add: accepted_decision_def)
qed

interpretation database_history: history_invariant "handle_event reg"
  "\<lambda>es st. approvals_ok (sys_db st)" for reg
  by unfold_locales (rule handle_event_ok)

section \<open>Authorised calls\<close>

definition gated_call :: "agent_call \<Rightarrow> bool" where
  "gated_call c \<longleftrightarrow> (call_service c, call_operation c) \<in> set approval_required_operations"

text \<open>Some approval of the database stores exactly this call, and its owner has approved it.\<close>

definition authorised :: "event list \<Rightarrow> database \<Rightarrow> agent_call \<Rightarrow> bool" where
  "authorised es db c \<longleftrightarrow>
     (\<exists>a \<in> set (approvals db). \<exists>args.
        stored_action (proposed_action a) = Some (call_service c, call_operation c, args) \<and>
        call_arguments c = JObj args \<and> Approve (appr_id a) (appr_user a) \<in> set es)"

definition calls_authorised :: "event list \<Rightarrow> system_state \<Rightarrow> bool" where
  "calls_authorised es st \<longleftrightarrow> (\<forall>c \<in> set (sys_calls st). gated_call c \<longrightarrow> authorised es (sys_db st) c)"

text \<open>An event keeps the approvals, up to their status.\<close>

definition approval_identity :: "approval_row \<Rightarrow> nat \<times> nat \<times> dict" where
  "approval_identity a = (appr_id a, appr_user a, proposed_action a)"

lemma authorised_mono:
  assumes "authorised es db c" and "approval_identity ` set (approvals db) \<subseteq> approval_identity ` set (approvals db')"
    and "set es \<subseteq> set es'"
  shows "authorised es' db' c"
proof -
  from assms(1) obtain a args where a: "a \<in> set (approvals db)"
    "stored_action (proposed_action a) = Some (call_service c, call_operation c, args)"
    "call_arguments c = JObj args" "Approve (appr_id a) (appr_user a) \<in> set es"
    by (auto simp: authorised_def)
  then have "approval_identity a \<in> approval_identity ` set (approvals db')" using assms(2) by blast
  then obtain a' where "a' \<in> set (approvals db')" "approval_identity a' = approval_identity a" by auto
  with a assms(3) show ?thesis
    unfolding authorised_def by (intro bexI [of _ a'] exI [of _ args]) (auto simp: approval_identity_def)
qed

lemma approval_identity_handlers:
  "approval_identity ` set (approvals (record_execution user a r db)) = approval_identity ` set (approvals db)"
  "approval_identity ` set (approvals (record_rejection user a db)) = approval_identity ` set (approvals db)"
proof -
  have same: "approval_identity (if P then b\<lparr>appr_status := s\<rparr> else b) = approval_identity b" for P b s
    by (simp add: approval_identity_def)
  show "approval_identity ` set (approvals (record_execution user a r db)) = approval_identity ` set (approvals db)"
    unfolding record_execution_sel(2) set_map image_image same ..
  show "approval_identity ` set (approvals (record_rejection user a db)) = approval_identity ` set (approvals db)"
    unfolding record_rejection_sel set_map image_image same ..
qed

lemma execution_calls:
  assumes p: "plan_model_validate v = Inr p"
    and run: "dag_execute reg user conversation i p db calls = Inr (out, db', calls')"
  obtains new where "calls' = calls @ new" and "\<forall>c \<in> set new. \<not> gated_call c"
    and "set (approvals db) \<subseteq> set (approvals db')"
proof -
  from dag_execute_Inr [OF p run] obtain tr
    where legal: "legal (requires_approval reg) (registry_execute reg) (steps p) tr"
      and out: "outcome_of_trace (next_id db) user conversation i p db calls tr (out, db', calls')" .
  have "\<not> gated_call c" if x: "x \<in> set tr" and c: "c \<in> set (decision_calls x)" for x c
  proof -
    from c obtain s n args r where x': "x = (s, Dispatch n args r)" and call: "c = call_of s args"
      by (cases x rule: decision_calls.cases) (auto simp: log_call_def split: dispatch_outcome.splits)
    with x legal have "requires_approval reg (service s) (operation s) = Inr False"
      by (fastforce simp: legal_def decided_def)
    with call show ?thesis by (simp add: requires_approval_Inr call_of_def gated_call_def)
  qed
  with outcome_of_traceD(1,2) [OF out] that show ?thesis by auto
qed

lemma handle_event_authorised:
  assumes "calls_authorised es st"
  shows "calls_authorised (es @ [e]) (handle_event reg e st)"
proof -
  have old: "authorised (es @ [e]) db' c"
    if "c \<in> set (sys_calls st)" "gated_call c"
      "approval_identity ` set (approvals (sys_db st)) \<subseteq> approval_identity ` set (approvals db')" for c db'
    using assms that by (auto simp: calls_authorised_def intro: authorised_mono)
  have same: "calls_authorised (es @ [e]) st" using old [of _ "sys_db st"] by (simp add: calls_authorised_def)
  show ?thesis
  proof (cases e)
    case (Execute user conversation i v)
    show ?thesis
    proof (cases "\<exists>p out db calls. plan_model_validate v = Inr p \<and>
        dag_execute reg user conversation i p (sys_db st) (sys_calls st) = Inr (out, db, calls)")
      case True
      then obtain p out db calls where p: "plan_model_validate v = Inr p"
        and run: "dag_execute reg user conversation i p (sys_db st) (sys_calls st) = Inr (out, db, calls)" by blast
      obtain new where "calls = sys_calls st @ new" "\<forall>c \<in> set new. \<not> gated_call c"
        "set (approvals (sys_db st)) \<subseteq> set (approvals db)" using execution_calls [OF p run] .
      with old [of _ db] show ?thesis
        by (auto simp: Execute p run calls_authorised_def)
    next
      case False
      then have "handle_event reg e st = st" by (auto simp: Execute split: sum.splits)
      with same show ?thesis by simp
    qed
  next
    case (Approve aid user)
    have new: "authorised (es @ [e]) db' \<lparr>call_service = svc, call_operation = op, call_arguments = JObj args\<rparr>"
      if "pending_approval (sys_db st) aid user = Inr a" "stored_action (proposed_action a) = Some (svc, op, args)"
        "approval_identity ` set (approvals (sys_db st)) \<subseteq> approval_identity ` set (approvals db')"
      for a svc op args db'
    proof (rule authorised_mono [OF _ that(3) subset_refl])
      show "authorised (es @ [e]) (sys_db st) \<lparr>call_service = svc, call_operation = op, call_arguments = JObj args\<rparr>"
        using pending_approval_Inr [OF that(1)] that(2) by (auto simp: authorised_def Approve)
    qed
    show ?thesis
    proof (cases rule: approve_action_cases [of reg aid user "sys_db st" "sys_calls st"])
      case (refused err)
      with same show ?thesis by (simp add: Approve accepted_decision_def calls_authorised_def)
    next
      case (called err a svc op args)
      with new [OF called(2,3), of "sys_db st"] old [of _ "sys_db st"] show ?thesis
        by (auto simp: Approve accepted_decision_def calls_authorised_def)
    next
      case (executed a svc op args r row)
      note ids = approval_identity_handlers(1) [of user a r "sys_db st"]
      with executed(1) new [OF executed(2,3), of "record_execution user a r (sys_db st)"]
        old [of _ "record_execution user a r (sys_db st)"] show ?thesis
        by (auto simp: Approve accepted_decision_def calls_authorised_def)
    qed
  next
    case (Reject aid user)
    show ?thesis
    proof (cases rule: reject_action_cases [of aid user "sys_db st" "sys_calls st"])
      case (refused err)
      with same show ?thesis by (simp add: Reject accepted_decision_def calls_authorised_def)
    next
      case (rejected a row)
      with approval_identity_handlers(2) [of user a "sys_db st"]
        old [of _ "record_rejection user a (sys_db st)"] show ?thesis
        by (auto simp: Reject accepted_decision_def calls_authorised_def)
    qed
  qed
qed

interpretation call_history: history_invariant "handle_event reg" calls_authorised for reg
  by unfold_locales (rule handle_event_authorised)

section \<open>One decision per approval\<close>

definition decisions_once :: "event list \<Rightarrow> system_state \<Rightarrow> bool" where
  "decisions_once es st \<longleftrightarrow> approvals_ok (sys_db st) \<and> distinct (sys_decisions st) \<and>
     (\<forall>aid \<in> set (sys_decisions st). \<exists>a \<in> set (approvals (sys_db st)).
        appr_id a = aid \<and> appr_status a \<noteq> status_value AWAITING_APPROVAL)"

definition decided_in :: "database \<Rightarrow> nat \<Rightarrow> bool" where
  "decided_in db aid \<longleftrightarrow>
     (\<exists>a \<in> set (approvals db). appr_id a = aid \<and> appr_status a \<noteq> status_value AWAITING_APPROVAL)"

lemma decided_in_status_update:
  assumes "approvals db' = map (\<lambda>b. if appr_id b = aid then b\<lparr>appr_status := s\<rparr> else b) (approvals db)"
    and "s \<noteq> status_value AWAITING_APPROVAL"
  shows "decided_in db x \<Longrightarrow> decided_in db' x"
    and "a \<in> set (approvals db) \<Longrightarrow> appr_id a = aid \<Longrightarrow> decided_in db' aid"
proof -
  assume "decided_in db x"
  then obtain b where b: "b \<in> set (approvals db)" "appr_id b = x" "appr_status b \<noteq> status_value AWAITING_APPROVAL"
    by (auto simp: decided_in_def)
  then have "(if appr_id b = aid then b\<lparr>appr_status := s\<rparr> else b) \<in> set (approvals db')"
    unfolding assms(1) by simp
  then show "decided_in db' x"
    unfolding decided_in_def by (rule bexI [rotated]) (use b assms(2) in auto)
next
  assume a: "a \<in> set (approvals db)" "appr_id a = aid"
  then have "a\<lparr>appr_status := s\<rparr> \<in> set (approvals db')" unfolding assms(1) by force
  then show "decided_in db' aid"
    unfolding decided_in_def by (rule bexI [rotated]) (use a assms(2) in auto)
qed

lemma decided_pending:
  assumes "approvals_ok db" and "decided_in db aid"
  shows "pending_approval db aid user \<noteq> Inr a"
proof
  assume "pending_approval db aid user = Inr a"
  note pend = pending_approval_Inr [OF this]
  from assms(2) obtain b where "b \<in> set (approvals db)" "appr_id b = aid"
    "appr_status b \<noteq> status_value AWAITING_APPROVAL" by (auto simp: decided_in_def)
  with pend assms(1) unique_approval [of db a b] show False by (simp add: approvals_ok_def)
qed

lemma decisions_once_decided:
  assumes "decisions_once es st" and "pending_approval (sys_db st) aid user = Inr a"
    and "approvals db' = map (\<lambda>b. if appr_id b = appr_id a then b\<lparr>appr_status := s\<rparr> else b) (approvals (sys_db st))"
    and "s \<noteq> status_value AWAITING_APPROVAL" and "approvals_ok db'"
  shows "decisions_once es' \<lparr>sys_db = db', sys_calls = calls', sys_decisions = sys_decisions st @ [aid]\<rparr>"
proof -
  note pend = pending_approval_Inr [OF assms(2)]
  have "aid \<notin> set (sys_decisions st)"
    using assms(1,2) decided_pending by (auto simp: decisions_once_def decided_in_def)
  moreover have "decided_in db' x" if "x \<in> set (sys_decisions st)" for x
    using assms(1) that decided_in_status_update(1) [OF assms(3,4)]
    by (auto simp: decisions_once_def decided_in_def)
  moreover have "decided_in db' aid"
    using decided_in_status_update(2) [OF assms(3,4) pend(1)] pend(2) by simp
  ultimately show ?thesis using assms(1,5) by (auto simp: decisions_once_def decided_in_def)
qed

lemma handle_event_once:
  assumes inv: "decisions_once es st"
  shows "decisions_once (es @ [e]) (handle_event reg e st)"
proof -
  have ok: "approvals_ok (sys_db st)" using inv by (simp add: decisions_once_def)
  note ok' = handle_event_ok [OF ok, of reg e]
  show ?thesis
  proof (cases e)
    case (Execute user conversation i v)
    show ?thesis
    proof (cases "\<exists>p out db calls. plan_model_validate v = Inr p \<and>
        dag_execute reg user conversation i p (sys_db st) (sys_calls st) = Inr (out, db, calls)")
      case True
      then obtain p out db calls where p: "plan_model_validate v = Inr p"
        and run: "dag_execute reg user conversation i p (sys_db st) (sys_calls st) = Inr (out, db, calls)" by blast
      have "set (approvals (sys_db st)) \<subseteq> set (approvals db)" by (rule execution_calls [OF p run])
      with inv ok' show ?thesis by (simp add: Execute p run decisions_once_def) blast
    next
      case False
      then have "handle_event reg e st = st" by (auto simp: Execute split: sum.splits)
      with inv show ?thesis by (simp add: decisions_once_def)
    qed
  next
    case (Approve aid user)
    show ?thesis
    proof (cases rule: approve_action_cases [of reg aid user "sys_db st" "sys_calls st"])
      case (executed a svc op args r row)
      from ok' executed(1) have "approvals_ok (record_execution user a r (sys_db st))"
        by (simp add: Approve accepted_decision_def)
      from decisions_once_decided [OF inv executed(2) record_execution_sel(2) _ this] executed(1)
      show ?thesis by (simp add: Approve accepted_decision_def)
    qed (use inv in \<open>simp_all add: Approve accepted_decision_def decisions_once_def\<close>)
  next
    case (Reject aid user)
    show ?thesis
    proof (cases rule: reject_action_cases [of aid user "sys_db st" "sys_calls st"])
      case (rejected a row)
      from ok' rejected(1) have "approvals_ok (record_rejection user a (sys_db st))"
        by (simp add: Reject accepted_decision_def)
      from decisions_once_decided [OF inv rejected(2) record_rejection_sel(1) _ this] rejected(1)
      show ?thesis by (simp add: Reject accepted_decision_def)
    qed (use inv in \<open>simp_all add: Reject accepted_decision_def decisions_once_def\<close>)
  qed
qed

interpretation decision_history: history_invariant "handle_event reg" decisions_once for reg
  by unfold_locales (rule handle_event_once)

section \<open>Properties\<close>

text \<open>
  C1. No side effect without consent: in any sequence of executions, approvals and rejections,
  every call an agent receives for an operation that needs approval is the stored action of some
  approval, with exactly the stored arguments, and the owner of that approval has approved it.
\<close>

theorem no_side_effect_without_consent:
  assumes "c \<in> set (sys_calls (run_events reg initial_system es))"
    and "(call_service c, call_operation c) \<in> set approval_required_operations"
  shows "\<exists>a \<in> set (approvals (sys_db (run_events reg initial_system es))). \<exists>args.
     stored_action (proposed_action a) = Some (call_service c, call_operation c, args) \<and>
     call_arguments c = JObj args \<and> Approve (appr_id a) (appr_user a) \<in> set es"
proof -
  have "calls_authorised [] initial_system" by (simp add: calls_authorised_def initial_system_def)
  from call_history.run_inv [OF this, where es = es and reg = reg] assms show ?thesis
    by (auto simp: run_events_fold calls_authorised_def gated_call_def authorised_def)
qed

definition sample_events :: "event list" where
  "sample_events = [Execute 7 8 sample_intent (plan_dump sample_mail_plan), Approve 1 9, Approve 1 7, Reject 1 7]"

lemma sample_events_run:
  "sys_calls (run_events (build_agent_registry sample_agents) initial_system sample_events) =
     sample_calls @ [\<lparr>call_service = GMAIL, call_operation = ''send_email'', call_arguments = JObj sample_arguments\<rparr>]"
  "sys_decisions (run_events (build_agent_registry sample_agents) initial_system sample_events) = [1]"
  by code_simp+

theorem no_side_effect_without_consent_witness:
  "\<exists>a \<in> set (approvals (sys_db (run_events (build_agent_registry sample_agents) initial_system sample_events))). \<exists>args.
     stored_action (proposed_action a) = Some (GMAIL, ''send_email'', args) \<and>
     JObj sample_arguments = JObj args \<and> Approve (appr_id a) (appr_user a) \<in> set sample_events"
  using no_side_effect_without_consent
    [of "\<lparr>call_service = GMAIL, call_operation = ''send_email'', call_arguments = JObj sample_arguments\<rparr>"
      "build_agent_registry sample_agents" sample_events]
  by (simp add: sample_events_run approval_required_operations_def)

text \<open>
  C3. At most one decision is ever accepted per approval, whoever sends the requests and in
  whatever order: the accepted decisions name pairwise different approvals.
\<close>

theorem one_decision_per_approval: "distinct (sys_decisions (run_events reg initial_system es))"
proof -
  have "decisions_once [] initial_system"
    by (simp add: decisions_once_def initial_system_def approvals_ok_empty)
  from decision_history.run_inv [OF this, where es = es and reg = reg] show ?thesis
    by (simp add: run_events_fold decisions_once_def)
qed

text \<open>
  C8. Every database the application reaches is consistent: ids and the keys of the unique
  constraints are unique, and each approval stores a gated action with its arguments and belongs
  to a step and an execution of the same user, which await the decision while it is pending.
\<close>

theorem reachable_database_consistent: "approvals_ok (sys_db (run_events reg initial_system es))"
  using database_history.run_inv [where st = initial_system and es = es and reg = reg]
  by (simp add: run_events_fold initial_system_def approvals_ok_empty)

end
