(* ===== verification/Token_Cipher.thy ===== *)
theory Token_Cipher
  imports Py_Text
begin

text \<open>
  \<open>app/auth/security.py\<close>: the cipher of the stored tokens. Fernet is a parameter: the cipher of a key,
  if the key is one.
\<close>

record token_cipher =
  tc_encrypt :: "string \<Rightarrow> string"
  tc_decrypt :: "string \<Rightarrow> string option"

text \<open>\<open>CredentialEncryptionError\<close> is a \<open>ValueError\<close>.\<close>

definition new_cipher :: "(string \<Rightarrow> token_cipher option) \<Rightarrow> string \<Rightarrow> py_error + token_cipher" where
  "new_cipher fernet encryption_key =
     (if encryption_key = [] then Inl (ValueError ''TOKEN_ENCRYPTION_KEY is not configured'')
      else (case fernet encryption_key of
              None \<Rightarrow> Inl (ValueError ''TOKEN_ENCRYPTION_KEY is invalid'')
            | Some c \<Rightarrow> Inr c))"

definition encrypt_token :: "token_cipher \<Rightarrow> string \<Rightarrow> py_error + string" where
  "encrypt_token c token =
     (if token = [] then Inl (ValueError ''Cannot encrypt an empty token'') else Inr (tc_encrypt c token))"

definition decrypt_token :: "token_cipher \<Rightarrow> string \<Rightarrow> py_error + string" where
  "decrypt_token c encrypted_token =
     (case tc_decrypt c encrypted_token of
        None \<Rightarrow> Inl (ValueError ''Stored credential cannot be decrypted'')
      | Some t \<Rightarrow> Inr t)"

text \<open>What Fernet promises of a key: a token encrypted with it is decrypted to itself.\<close>

definition cipher_law :: "token_cipher \<Rightarrow> bool" where
  "cipher_law c \<longleftrightarrow> (\<forall>t. tc_decrypt c (tc_encrypt c t) = Some t)"

lemma decrypt_encrypt:
  "cipher_law c \<Longrightarrow> encrypt_token c t = Inr e \<Longrightarrow> decrypt_token c e = Inr t"
  by (auto simp: cipher_law_def encrypt_token_def decrypt_token_def split: if_splits)

end
