(* ===== verification/Agents.thy ===== *)
theory Agents
  imports Gmail_Agent Drive_Agent Calendar_Agent Workspace_Agent Orchestration Token_Cipher
begin

text \<open>
  The four agents behind the registry, as \<open>build_agent_registry\<close> of \<open>app/orchestration/runtime.py\<close>
  composes them, and what this means for the requests that reach Google.

  A \<open>world\<close> gives everything the agents take from outside, for each call number: the Google
  services, the workspace index with the sync states and the search environment, the HTML unescaping
  and the clock. The threshold of staleness comes from the settings.
\<close>

section \<open>The agents in a world\<close>

record world =
  w_google :: "nat \<Rightarrow> google_api"
  w_search_env :: "nat \<Rightarrow> search_env"
  w_index :: "nat \<Rightarrow> index_db"
  w_sync :: "nat \<Rightarrow> sync_row list"
  w_user :: "nat \<Rightarrow> nat"
  w_unescape :: "string \<Rightarrow> string"
  w_now :: "nat \<Rightarrow> datetime"
  w_stale_after :: int

definition run_agent ::
  "world \<Rightarrow> service \<Rightarrow> nat \<Rightarrow> string \<Rightarrow> dict \<Rightarrow> google_request list \<times> agent_outcome" where
  "run_agent w svc n op args =
     (case svc of
        GMAIL \<Rightarrow> gmail_execute (w_google w n) op args []
      | GOOGLE_CALENDAR \<Rightarrow> calendar_execute (w_google w n) op args []
      | GOOGLE_DRIVE \<Rightarrow> drive_execute (w_google w n) op args []
      | WORKSPACE \<Rightarrow>
          workspace_execute (w_google w n)
            (search (w_search_env w n) (w_index w n) (w_sync w n) (w_user w n))
            (w_unescape w) (w_now w n) (w_stale_after w) op args [])"

definition agent_behaviour :: "world \<Rightarrow> service \<Rightarrow> nat \<Rightarrow> string \<Rightarrow> dict \<Rightarrow> agent_outcome" where
  "agent_behaviour w svc n op args = snd (run_agent w svc n op args)"

definition google_registry :: "world \<Rightarrow> registry" where
  "google_registry w = build_agent_registry (agent_behaviour w)"

text \<open>
  The cipher for the credentials is made first: a missing or invalid key raises. Approving an action
  builds the registry outside the \<open>try\<close> block, so there the exception leaves the handler.
\<close>

definition open_google_registry :: "(string \<Rightarrow> token_cipher option) \<Rightarrow> string \<Rightarrow> world \<Rightarrow> py_error + registry" where
  "open_google_registry fernet encryption_key w =
     (case new_cipher fernet encryption_key of Inl e \<Rightarrow> Inl e | Inr _ \<Rightarrow> Inr (google_registry w))"

definition approve_google_action ::
  "(string \<Rightarrow> token_cipher option) \<Rightarrow> string \<Rightarrow> world \<Rightarrow> nat \<Rightarrow> nat \<Rightarrow> database \<Rightarrow> agent_call list \<Rightarrow>
   approval_response handled" where
  "approve_google_action fernet encryption_key w aid user db calls =
     (case pending_approval db aid user of
        Inl e \<Rightarrow> (Inl e, db, calls)
      | Inr a \<Rightarrow>
          (case stored_action (proposed_action a) of
             None \<Rightarrow> (Inl (HTTPError 409 ''Stored action is invalid''), db, calls)
           | Some _ \<Rightarrow>
               (case open_google_registry fernet encryption_key w of
                  Inl e \<Rightarrow> (Inl (Unhandled e), db, calls)
                | Inr reg \<Rightarrow> approve_action reg aid user db calls)))"

text \<open>
  With a usable key the handler is \<open>approve_action\<close>; with an unusable one it changes nothing and calls no
  agent, so what is shown of \<open>approve_action\<close> holds of it.
\<close>

lemma approve_google_action_cases:
  shows "new_cipher fernet key = Inr c \<Longrightarrow>
      approve_google_action fernet key w aid user db calls = approve_action (google_registry w) aid user db calls"
    and "new_cipher fernet key = Inl e \<Longrightarrow>
      \<exists>e'. approve_google_action fernet key w aid user db calls = (Inl e', db, calls)"
  by (auto simp: approve_google_action_def open_google_registry_def approve_action_def split: sum.splits option.splits)

text \<open>The requests to Google that a call of the log causes.\<close>

definition call_requests :: "world \<Rightarrow> nat \<Rightarrow> agent_call \<Rightarrow> google_request list" where
  "call_requests w n c =
     (case call_arguments c of
        JObj args \<Rightarrow> fst (run_agent w (call_service c) n (call_operation c) args)
      | _ \<Rightarrow> [])"

section \<open>Statuses\<close>

lemma agent_run_status:
  assumes "\<And>h. map_of handlers op = Some h \<Longrightarrow> ends_completed (h args)"
    and "snd (agent_run api handlers op args hist) = Returned r"
  shows "agent_status r \<in> {COMPLETED, FAILED}"
  using assms safely_execute_status by (auto simp: agent_run_def split: option.splits)

lemma agent_behaviour_status:
  assumes "agent_behaviour w svc n op args = Returned r"
  shows "agent_status r \<in> {COMPLETED, FAILED}"
  using assms unfolding agent_behaviour_def run_agent_def
  by (cases svc)
    (auto simp: gmail_execute_def calendar_execute_def drive_execute_def workspace_execute_def
      dest!: agent_run_status [rotated] intro: gmail_ends calendar_ends drive_ends workspace_ends split: if_splits)

lemma google_agents_two_valued: "two_valued_agents (google_registry w)"
  unfolding two_valued_agents_def google_registry_def
proof (intro allI impI)
  fix svc agent n op args a
  assume "reg_agents (build_agent_registry (agent_behaviour w)) svc = Some agent"
    and "agent_execute agent n op args = Returned a"
  with built_agents [of "agent_behaviour w" svc] have "agent_behaviour w svc n op args = Returned a" by auto
  then show "agent_status a \<in> {COMPLETED, FAILED}" by (rule agent_behaviour_status)
qed

section \<open>Requests\<close>

text \<open>The mutating methods an operation may use.\<close>

definition operation_mutations :: "service \<Rightarrow> string \<Rightarrow> string list" where
  "operation_mutations svc op =
     (case svc of
        GMAIL \<Rightarrow> gmail_mutations op
      | GOOGLE_CALENDAR \<Rightarrow> calendar_mutations op
      | GOOGLE_DRIVE \<Rightarrow> drive_mutations op
      | WORKSPACE \<Rightarrow> [])"

lemma agent_run_sends:
  assumes "\<And>h. map_of handlers op = Some h \<Longrightarrow> sends (at_most_one methods) (h args)"
  shows "mutations (fst (agent_run api handlers op args [])) \<in> at_most_one methods"
proof (cases "map_of handlers op")
  case (Some h)
  from assms [OF Some] have "mutations (fst (h args [])) \<in> at_most_one methods"
    unfolding sends_def by (metis append_Nil)
  with Some show ?thesis by (simp add: agent_run_def safely_execute_log)
qed (simp add: agent_run_def)

lemma workspace_sends:
  "map_of [(''workspace_search'', workspace_search api find_items unescape now stale_after)] op = Some h \<Longrightarrow>
     sends (at_most_one []) (h args)"
  using workspace_search_reads by (auto split: if_splits)

lemma run_agent_mutations:
  "mutations (fst (run_agent w svc n op args)) \<in> at_most_one (operation_mutations svc op)"
  unfolding run_agent_def operation_mutations_def gmail_execute_def calendar_execute_def
    drive_execute_def workspace_execute_def
  by (cases svc; simp only: service.case)
    (rule agent_run_sends, erule gmail_sends calendar_sends drive_sends workspace_sends)+

lemma call_requests_mutations:
  "mutations (call_requests w n c) \<in> at_most_one (operation_mutations (call_service c) (call_operation c))"
  using run_agent_mutations by (cases "call_arguments c") (simp_all add: call_requests_def)

text \<open>Every mutating operation but drafting an email needs approval.\<close>

lemma mutating_operation_gated:
  assumes "k \<in> set (operation_mutations svc op)" and "k \<noteq> ''gmail.users.drafts.create''"
  shows "(svc, op) \<in> set approval_required_operations"
  using assms unfolding operation_mutations_def approval_required_operations_def
  by (cases svc) (simp_all add: gmail_mutations_def calendar_mutations_def drive_mutations_def split: if_splits)

text \<open>The mutating operations that run at once only draft an email.\<close>

lemma immediate_operation_mutations:
  assumes "(svc, op) \<in> set immediate_operations" and "k \<in> set (operation_mutations svc op)"
  shows "k = ''gmail.users.drafts.create''"
  using assms unfolding operation_mutations_def immediate_operations_def
  by (cases svc) (auto simp: gmail_mutations_def calendar_mutations_def drive_mutations_def split: if_splits)

section \<open>Properties\<close>

text \<open>
  C2. End to end: whatever plans are executed and whatever is approved or rejected, a request that
  changes anything at Google, other than creating a draft, is sent by an operation whose stored
  action, with exactly these arguments, an approval holds that its owner has approved. The
  operation sends no other such request, and uses only its own API methods.
\<close>

theorem google_changes_need_consent:
  assumes "final = run_events (google_registry w) initial_system es"
    and "n < length (sys_calls final)"
    and "r \<in> set (mutations (call_requests w n (sys_calls final ! n)))"
    and "api_method r \<noteq> ''gmail.users.drafts.create''"
  shows "authorised es (sys_db final) (sys_calls final ! n) \<and>
    mutations (call_requests w n (sys_calls final ! n)) = [r] \<and>
    api_method r \<in> set (operation_mutations (call_service (sys_calls final ! n)) (call_operation (sys_calls final ! n)))"
proof -
  let ?c = "sys_calls final ! n"
  from call_requests_mutations [of w n ?c] assms(3) have one: "mutations (call_requests w n ?c) = [r]"
    and uses: "api_method r \<in> set (operation_mutations (call_service ?c) (call_operation ?c))"
    by (cases "mutations (call_requests w n ?c)"; auto simp: at_most_one_def)+
  from mutating_operation_gated [OF uses assms(4)] have "gated_call ?c" by (simp add: gated_call_def)
  moreover have "calls_authorised es final"
    unfolding assms(1) run_events_fold
    by (rule call_history.run_inv) (simp add: calls_authorised_def initial_system_def)
  ultimately have "authorised es (sys_db final) ?c" using assms(2) by (simp add: calls_authorised_def)
  with one uses show ?thesis by blast
qed

definition sample_world :: world where
  "sample_world =
     \<lparr>w_google = \<lambda>_. answering [(''id'', JStr ''1''), (''messages'', JList [JObj [(''id'', JStr ''m1'')]])],
      w_search_env = \<lambda>_. sample_env, w_index = \<lambda>_. empty_index, w_sync = \<lambda>_. [], w_user = \<lambda>_. 7,
      w_unescape = id, w_now = \<lambda>_. sample_noon, w_stale_after = 3600000000\<rparr>"

definition sample_folder_plan :: execution_plan where
  "sample_folder_plan = \<lparr>steps =
     [\<lparr>step_id = ''folder'', service = GOOGLE_DRIVE, operation = ''create_folder'',
       arguments = [(''name'', JStr ''Reports'')], depends_on = []\<rparr>]\<rparr>"

definition sample_folder_events :: "event list" where
  "sample_folder_events = [Execute 7 8 sample_intent (plan_dump sample_folder_plan), Approve 1 7]"

lemma sample_folder_run:
  "sys_calls (run_events (google_registry sample_world) initial_system sample_folder_events) =
     [\<lparr>call_service = GOOGLE_DRIVE, call_operation = ''create_folder'', call_arguments = JObj [(''name'', JStr ''Reports'')]\<rparr>]"
  "map api_method (mutations (call_requests sample_world 0
     \<lparr>call_service = GOOGLE_DRIVE, call_operation = ''create_folder'', call_arguments = JObj [(''name'', JStr ''Reports'')]\<rparr>)) =
     [''drive.files.create'']"
  by code_simp+

lemma google_changes_need_consent_witness:
  "\<exists>r. authorised sample_folder_events
       (sys_db (run_events (google_registry sample_world) initial_system sample_folder_events))
       (sys_calls (run_events (google_registry sample_world) initial_system sample_folder_events) ! 0) \<and>
     api_method r = ''drive.files.create''"
proof -
  obtain r where r: "mutations (call_requests sample_world 0
      (sys_calls (run_events (google_registry sample_world) initial_system sample_folder_events) ! 0)) = [r]"
    "api_method r = ''drive.files.create''"
    using sample_folder_run(2) by (auto simp: sample_folder_run(1))
  have "authorised sample_folder_events
      (sys_db (run_events (google_registry sample_world) initial_system sample_folder_events))
      (sys_calls (run_events (google_registry sample_world) initial_system sample_folder_events) ! 0)"
    using google_changes_need_consent [OF refl, of 0 sample_world sample_folder_events r] r
    by (simp add: sample_folder_run(1))
  with r(2) show ?thesis by blast
qed

text \<open>
  With the application's own agents, an execution ends with status \<open>completed\<close> exactly when
  every step of the plan has completed: no step is silently skipped or lost in a completed
  execution.
\<close>

theorem completed_means_all_completed:
  assumes "plan_model_validate v = Inr p"
    and "dag_execute (google_registry w) user conversation i p db calls = Inr (out, db', calls')"
  shows "final_status (out_results out) = COMPLETED \<longleftrightarrow> (\<forall>r \<in> set (out_results out). status r = COMPLETED)"
  using assms google_agents_two_valued by (rule completed_iff_all_completed)

definition sample_draft_plan :: execution_plan where
  "sample_draft_plan = \<lparr>steps =
     [\<lparr>step_id = ''draft'', service = GMAIL, operation = ''draft_email'',
       arguments = [(''to'', JStr ''ann@example.com''), (''body'', JStr ''done''),
         (''subject'', JObj [(''$step'', JStr ''find''),
           (''path'', JList [JStr ''emails'', JStr ''first'', JStr ''id''])])],
       depends_on = [''find'']\<rparr>,
      \<lparr>step_id = ''find'', service = GMAIL, operation = ''search_emails'',
       arguments = [(''keywords'', JStr ''budget'')], depends_on = []\<rparr>]\<rparr>"

definition sample_draft_run :: "execution_outcome \<times> database \<times> agent_call list" where
  "sample_draft_run =
     (case dag_execute (google_registry sample_world) 7 8 sample_intent sample_draft_plan empty_database [] of
        Inl _ \<Rightarrow> undefined | Inr x \<Rightarrow> x)"

lemma sample_draft_runs:
  "plan_model_validate (plan_dump sample_draft_plan) = Inr sample_draft_plan"
  "isl (dag_execute (google_registry sample_world) 7 8 sample_intent sample_draft_plan empty_database []) = False"
  "map (\<lambda>r. (result_step_id r, status r)) (out_results (fst sample_draft_run)) = [(''draft'', COMPLETED), (''find'', COMPLETED)]"
  by code_simp+

lemma completed_means_all_completed_witness:
  "final_status (out_results (fst sample_draft_run)) = COMPLETED"
proof -
  have run: "dag_execute (google_registry sample_world) 7 8 sample_intent sample_draft_plan empty_database [] =
      Inr (fst sample_draft_run, fst (snd sample_draft_run), snd (snd sample_draft_run))"
    using sample_draft_runs(2) unfolding sample_draft_run_def by (auto split: sum.splits)
  have "status r = COMPLETED" if "r \<in> set (out_results (fst sample_draft_run))" for r
  proof -
    from that have "status r \<in> set (map status (out_results (fst sample_draft_run)))" by simp
    also have "map status (out_results (fst sample_draft_run)) = [COMPLETED, COMPLETED]"
      using arg_cong [OF sample_draft_runs(3), of "map snd"] by (simp add: comp_def)
    finally show ?thesis by simp
  qed
  with completed_means_all_completed [OF sample_draft_runs(1) run] show ?thesis by blast
qed

end
