(* ===== verification/Language_Model.thy ===== *)
theory Language_Model
  imports Py_Prelude
begin

text \<open>
  The language model as the program sees it: the three system prompts of \<open>app/llm/prompts.py\<close>
  and \<open>GroqProvider.generate_json\<close> of \<open>app/llm/provider.py\<close>.

  Parameters: \<open>completion\<close>, the chat completion of the \<open>openai\<close> client for a system message and a
  payload, which raises (\<open>Inl\<close>) or gives the message's content; \<open>json_loads\<close>, \<open>None\<close> where
  \<open>json.loads\<close> raises. Nothing is assumed of either. A client of the provider sees
  \<open>generate :: nat \<Rightarrow> string \<Rightarrow> json \<Rightarrow> py_error + dict\<close>, the number telling apart the calls of
  one request, so that the same prompt may be answered differently each time.
\<close>

definition newline :: string where
  "newline = [CHR 0x0A]"

section \<open>Prompts\<close>

definition intent_system_prompt :: string where
  "intent_system_prompt = py_join newline
     [''You classify Google Workspace requests. Return one JSON object matching:'',
      ''{\"intent_name\": string, \"required_services\": [\"gmail\"|\"google_calendar\"|\"google_drive\"|\"workspace\"],'',
      '' \"extracted_entities\": object, \"requires_clarification\": boolean,'',
      '' \"clarification_question\": string|null}.'',
      ''Use supplied conversation context for pronouns. For read-only discovery, semantic search, summarization,'',
      ''or meeting preparation, infer reasonable retrieval criteria from the available context instead of asking'',
      ''the user to define terms such as relevant, related, or useful. A read-only plan may first discover a'',
      ''Calendar event and use its title, attendees, description, and time as grounded Gmail/Drive search context.'',
      ''Request clarification when a write or destructive action lacks required information, a write target is'',
      ''genuinely ambiguous, a recipient cannot be identified safely, or proceeding could cause an unintended'',
      ''external side effect.'',
      ''Copy normalized ISO dates and times from the supplied temporal hints. Do not invent identifiers.'',
      ''Use the configured user timezone for wall-clock times.'']"

definition planner_system_prompt :: string where
  "planner_system_prompt = py_join newline
     [''Create a minimal execution plan using only the supplied operation catalog.'',
      ''Return {\"steps\": [...]}. Every step needs step_id, service, operation, arguments, and depends_on.'',
      ''Use independent steps when possible. A prior result may be referenced only as'',
      ''{\"$step\":\"step_id\",\"path\":[\"field\",0,\"nested_field\"]}, and that step must appear in depends_on.'',
      ''Calendar search returns {\"events\":[...]}. Reference the next event title with'',
      ''path [\"events\",0,\"title\"] and its attendees with path [\"events\",0,\"attendees\"].'',
      ''When Gmail and Drive both use the event, both depend directly on the Calendar'',
      ''step so they can run concurrently after Calendar completes.'',
      ''For semantic meeting preparation or requests for related/relevant material, use'',
      ''two workspace.workspace_search steps after Calendar discovery: one filtered with'',
      ''services [\"gmail\"] and one with services [\"google_drive\"]. Both should reference'',
      ''the selected event object with path [\"events\",0] as query context and depend only'',
      ''on the Calendar step, allowing them to run concurrently. Use native Gmail/Drive'',
      ''search only for exact native criteria or an explicitly selected fallback.'',
      ''Use integer JSON array indices. Do not reference fields absent from the catalog's result shape.'',
      ''Writes remain approval-gated. Never add response synthesis as a plan step and never invent operations.'']"

definition synthesis_system_prompt :: string where
  "synthesis_system_prompt = py_join newline
     [''Write a concise response grounded only in the supplied execution results.'',
      ''Clearly distinguish findings, completed actions, pending approvals, failures, and skipped work.'',
      ''Completed with an empty result means no matches. Failed means the search could not be completed.'',
      ''Skipped means it was not attempted. Never describe failed or skipped retrieval as finding no results.'',
      ''Never claim an action succeeded unless its recorded status is completed. Preserve the ordering supplied'',
      ''by tools. Summarize indexed Gmail and Drive findings as well as the selected meeting. State index staleness'',
      ''and native fallback only from their recorded flags. Never invent dates, counts, source matches, or native'',
      ''fallback execution. Limit attendee summaries and omit bulky raw bodies,'',
      ''descriptions, conference data, and pagination tokens unless needed to answer the question.'',
      ''Return JSON: {\"response\": string}.'']"

section \<open>Structured output\<close>

definition generate_json ::
  "(string \<Rightarrow> json \<Rightarrow> 'e + string option) \<Rightarrow> (string \<Rightarrow> json option) \<Rightarrow> string \<Rightarrow> json \<Rightarrow>
   py_error + dict" where
  "generate_json completion json_loads system_prompt payload =
     (case completion (system_prompt @ newline @ newline @ ''Return a valid JSON object.'') payload of
        Inl _ \<Rightarrow> Inl (LLMProviderError ''The language model request failed'')
      | Inr content \<Rightarrow>
          (case json_loads (case content of None \<Rightarrow> [] | Some c \<Rightarrow> c) of
             None \<Rightarrow> Inl (LLMProviderError ''The language model request failed'')
           | Some (JObj parsed) \<Rightarrow> Inr parsed
           | Some _ \<Rightarrow>
               Inl (LLMProviderError ''The language model returned invalid structured output'')))"

lemma generate_json_error:
  "generate_json completion json_loads p v = Inl e \<Longrightarrow> \<exists>m. e = LLMProviderError m"
  by (auto simp: generate_json_def split: sum.splits option.splits json.splits)

end
