(* ===== verification/Synthesis.thy ===== *)
theory Synthesis
  imports Compaction Language_Model
begin

text \<open>
  \<open>app/orchestration/synthesis.py\<close>: the text of the answer. \<open>grounded_response\<close> writes it from
  the recorded results alone; \<open>synthesize\<close> asks the language model, a parameter that answers a
  prompt and a payload with a dict or raises, and uses its text only when nothing failed, nothing
  was skipped and the text says something specific.

  \<open>fr\<close> prints a float, as in \<open>Py_Text\<close>.
\<close>

section \<open>Grounded statements\<close>

definition retrieval_status_suffix :: "dict \<Rightarrow> string" where
  "retrieval_status_suffix d =
     (let stale = flag d ''index_stale''; fallback = flag d ''native_fallback_performed'' in
      if stale \<and> fallback
      then '' The semantic index was stale, so native read-only fallback was used.''
      else if stale then '' The semantic index was stale; native fallback was not performed.''
      else if fallback then '' Native read-only fallback was used.''
      else [])"

definition workspace_search_label :: "dict \<Rightarrow> string" where
  "workspace_search_label d =
     (let services = py_get d ''searched_services'' in
      if services = JList [JStr ''gmail''] then ''Indexed Gmail search''
      else if services = JList [JStr ''google_drive''] then ''Indexed Drive search''
      else ''Indexed workspace search'')"

definition compact_finding :: "(rat \<Rightarrow> string) \<Rightarrow> dict \<Rightarrow> string" where
  "compact_finding fr item =
     (let title = py_str fr (py_or (py_get item ''title'') (JStr ''Untitled'')) in
      case py_get item ''snippet'' of
        JStr s \<Rightarrow>
          (if py_strip s \<noteq> [] then title @ [CHR '' '', em_dash, CHR '' ''] @ take 160 (py_strip s)
           else title)
      | _ \<Rightarrow> title)"

definition event_statement :: "(rat \<Rightarrow> string) \<Rightarrow> dict \<Rightarrow> string" where
  "event_statement fr event =
     (let title = py_get event ''title''; start = py_get event ''start'' in
      (if py_truthy title then ''The next calendar event is '' @ py_str fr title
       else ''A calendar event was found'') @
      (if py_truthy start then '' at '' @ py_str fr start else []) @ ''.'' @
      (case py_get event ''attendees'' of
         JList attendees \<Rightarrow>
           (if attendees = [] then []
            else
              (let shown = take 5 (map (py_str fr) (filter py_truthy attendees));
                   attendee_count =
                     dict_get_or event ''attendee_count'' (JInt (int (length attendees)))
               in '' Attendees: '' @ py_join '', '' shown @
                  (case int_of attendee_count of
                     Some n \<Rightarrow>
                       (if n > int (length shown)
                        then '', and '' @ string_of_int (n - int (length shown)) @ '' more''
                        else [])
                   | None \<Rightarrow> []) @ ''.''))
       | _ \<Rightarrow> []))"

definition matching_count :: "string \<Rightarrow> json list \<Rightarrow> string \<Rightarrow> string" where
  "matching_count label collection kind =
     label @ '' completed with '' @ string_of_int (int (length collection)) @ '' '' @ kind @ ''.''"

definition files_statement :: "(rat \<Rightarrow> string) \<Rightarrow> json list \<Rightarrow> string" where
  "files_statement fr collection =
     (let named = (\<lambda>item. py_or (py_get item ''name'') (py_get item ''title''));
          names = map (\<lambda>item. py_str fr (named item))
            (filter (\<lambda>item. py_truthy (named item)) (objects (take 5 collection)))
      in matching_count ''Drive search'' collection ''matching result(s)'' @
         (if names \<noteq> [] then '' In returned order: '' @ py_join '', '' names @ ''.'' else []))"

definition search_statement :: "(rat \<Rightarrow> string) \<Rightarrow> dict \<Rightarrow> json list \<Rightarrow> string" where
  "search_statement fr d collection =
     (let findings = map (compact_finding fr)
            (filter (\<lambda>item. py_truthy (py_get item ''title'')) (objects (take 5 collection)));
          result_kind = (if flag d ''native_fallback_performed'' then ''native fallback result(s)''
            else ''relevant result(s)'')
      in matching_count (workspace_search_label d) collection result_kind @
         (if findings \<noteq> [] then '' Matches: '' @ py_join ''; '' findings @ ''.'' else []) @
         retrieval_status_suffix d)"

definition collection_label :: "string \<Rightarrow> string" where
  "collection_label k =
     (if k = ''events'' then ''Calendar search''
      else if k = ''emails'' then ''Email search''
      else ''Drive search'')"

definition empty_statement :: "string \<Rightarrow> dict \<Rightarrow> string" where
  "empty_statement k d =
     (if k = ''results''
      then workspace_search_label d @ '' completed with no sufficiently relevant matches.'' @
           retrieval_status_suffix d
      else collection_label k @ '' completed with no matching results.'')"

definition collection_statement :: "(rat \<Rightarrow> string) \<Rightarrow> dict \<Rightarrow> string \<Rightarrow> json list \<Rightarrow> string" where
  "collection_statement fr d k collection =
     (case collection of
        [] \<Rightarrow> empty_statement k d
      | x # _ \<Rightarrow>
          (if k = ''events'' then
             (case x of JObj event \<Rightarrow> event_statement fr event
              | _ \<Rightarrow> matching_count (collection_label k) collection ''matching result(s)'')
           else if k = ''files'' then files_statement fr collection
           else if k = ''results'' then search_statement fr d collection
           else matching_count (collection_label k) collection ''matching result(s)''))"

definition completed_statements :: "(rat \<Rightarrow> string) \<Rightarrow> step_result list \<Rightarrow> string list" where
  "completed_statements fr results =
     List.map_filter
       (\<lambda>r. if status r = COMPLETED
            then map_option (\<lambda>(k, xs). collection_statement fr (data r) k xs)
              (primary_collection (data r))
            else None) results"

definition pending_statement :: "(rat \<Rightarrow> string) \<Rightarrow> step_result \<Rightarrow> string" where
  "pending_statement fr r =
     (let approval_id = py_get (data r) ''approval_id'' in
      ''Step '' @ result_step_id r @ '' is awaiting approval'' @
      (if py_truthy approval_id then '' (approval ID: '' @ py_str fr approval_id @ '')'' else []) @
      ''.'')"

definition ids_with :: "execution_status \<Rightarrow> step_result list \<Rightarrow> string list" where
  "ids_with st results = map result_step_id (filter (\<lambda>r. status r = st) results)"

definition listed :: "string \<Rightarrow> string list \<Rightarrow> string list" where
  "listed intro names = (if names \<noteq> [] then [intro @ py_join '', '' names @ ''.''] else [])"

definition grounded_statements :: "(rat \<Rightarrow> string) \<Rightarrow> step_result list \<Rightarrow> string list" where
  "grounded_statements fr results =
     completed_statements fr results @
     map (pending_statement fr) (filter (\<lambda>r. status r = AWAITING_APPROVAL) results) @
     listed ''The following searches failed, so their results could not be checked: ''
       (ids_with FAILED results) @
     listed ''The following searches were not attempted because a dependency was unavailable: ''
       (ids_with SKIPPED results)"

definition grounded_response :: "(rat \<Rightarrow> string) \<Rightarrow> step_result list \<Rightarrow> string" where
  "grounded_response fr results =
     (let text1 = py_join '' '' (grounded_statements fr results) in
      if text1 \<noteq> [] then text1 else ''The requested searches could not be completed.'')"

section \<open>Facts for the model, and the decision whose text to use\<close>

definition execution_fact :: "step_result \<Rightarrow> json" where
  "execution_fact r =
     (let d = data r; pc = primary_collection d in JObj
       [(''step_id'', JStr (result_step_id r)),
        (''status'', JStr (status_value (status r))),
        (''attempted'', JBool (status r \<noteq> SKIPPED)),
        (''collection'', (case pc of None \<Rightarrow> JNull | Some (k, _) \<Rightarrow> JStr k)),
        (''match_count'', (case pc of None \<Rightarrow> JNull | Some (_, xs) \<Rightarrow> JInt (int (length xs)))),
        (''completed_empty'',
          JBool (status r = COMPLETED \<and> (case pc of None \<Rightarrow> False | Some (_, xs) \<Rightarrow> xs = []))),
        (''error_code'', (case error r of None \<Rightarrow> JNull | Some e \<Rightarrow> JStr (err_code e))),
        (''searched_services'', dict_get_or d ''searched_services'' (JList [])),
        (''index_stale'', JBool (flag d ''index_stale'')),
        (''native_fallback_recommended'', JBool (flag d ''native_fallback_recommended'')),
        (''native_fallback_performed'', JBool (flag d ''native_fallback_performed''))])"

definition has_contextual_workspace_results :: "step_result list \<Rightarrow> bool" where
  "has_contextual_workspace_results results \<longleftrightarrow>
     (\<exists>r \<in> set results. list_under (data r) ''events'' \<noteq> None) \<and>
     (\<exists>r \<in> set results. list_under (data r) ''results'' \<noteq> None \<and>
        py_truthy (py_get (data r) ''searched_services''))"

definition looks_generic_response :: "string \<Rightarrow> bool" where
  "looks_generic_response response =
     list_all (\<lambda>phrase. py_in phrase (py_casefold response))
       [''completed'', ''step'', ''available service results'']"

text \<open>\<open>StepResult.model_dump(mode="json")\<close>.\<close>

definition result_dump :: "step_result \<Rightarrow> json" where
  "result_dump r = JObj
     [(''step_id'', JStr (result_step_id r)), (''status'', JStr (status_value (status r))),
      (''data'', JObj (data r)),
      (''error'', (case error r of None \<Rightarrow> JNull | Some e \<Rightarrow> error_dump e))]"

definition synthesis_payload :: "string \<Rightarrow> step_result list \<Rightarrow> json" where
  "synthesis_payload query results = JObj
     [(''query'', JStr query),
      (''execution_results'', JList (map result_dump results)),
      (''execution_facts'', JList (map execution_fact results))]"

text \<open>\<open>ResponseSynthesizer.synthesize\<close>.\<close>

definition synthesize ::
  "(rat \<Rightarrow> string) \<Rightarrow> (string \<Rightarrow> json \<Rightarrow> py_error + dict) \<Rightarrow> string \<Rightarrow> step_result list \<Rightarrow>
   py_error + string" where
  "synthesize fr generate query results =
     (if has_contextual_workspace_results results then Inr (grounded_response fr results)
      else
        (case generate synthesis_system_prompt (synthesis_payload query results) of
           Inl e \<Rightarrow> Inl e
         | Inr output \<Rightarrow>
             (case py_get output ''response'' of
                JStr response \<Rightarrow>
                  (if py_strip response = []
                   then Inl (LLMProviderError ''Response synthesizer returned invalid output'')
                   else if (\<exists>r \<in> set results. status r = FAILED \<or> status r = SKIPPED) \<or>
                     looks_generic_response (py_strip response)
                   then Inr (grounded_response fr results)
                   else Inr (py_strip response))
              | _ \<Rightarrow> Inl (LLMProviderError ''Response synthesizer returned invalid output''))))"

section \<open>Every result is reported\<close>

lemma grounded_response_nonempty: "grounded_response fr results \<noteq> []"
  by (simp add: grounded_response_def Let_def)

lemma completed_statement_in:
  assumes "r \<in> set results" "status r = COMPLETED" "primary_collection (data r) = Some (k, xs)"
  shows "collection_statement fr (data r) k xs \<in> set (grounded_statements fr results)"
  using assms by (force simp: grounded_statements_def completed_statements_def List.map_filter_def)

text \<open>
  What the statement of a completed search has to say: that nothing was found, or how much; of an
  event its title, start and first guests; of files and search results the first titles; and of the
  index that it was stale or that a native search took its place.
\<close>

definition search_name :: "dict \<Rightarrow> string \<Rightarrow> string" where
  "search_name d k =
     (if k = ''events'' then ''Calendar search''
      else if k = ''emails'' then ''Email search''
      else if k = ''files'' then ''Drive search''
      else if py_get d ''searched_services'' = JList [JStr ''gmail''] then ''Indexed Gmail search''
      else if py_get d ''searched_services'' = JList [JStr ''google_drive''] then ''Indexed Drive search''
      else ''Indexed workspace search'')"

definition event_told :: "(rat \<Rightarrow> string) \<Rightarrow> dict \<Rightarrow> string \<Rightarrow> bool" where
  "event_told fr e t \<longleftrightarrow>
     (py_truthy (py_get e ''title'') \<longrightarrow> prefix (''The next calendar event is '' @ py_str fr (py_get e ''title'')) t) \<and>
     (py_truthy (py_get e ''start'') \<longrightarrow> sublist ('' at '' @ py_str fr (py_get e ''start'') @ ''.'') t) \<and>
     (\<forall>as. py_get e ''attendees'' = JList as \<longrightarrow>
        (\<forall>x \<in> set (take 5 (filter py_truthy as)). sublist (py_str fr x) t))"

definition search_told :: "(rat \<Rightarrow> string) \<Rightarrow> dict \<Rightarrow> string \<Rightarrow> json list \<Rightarrow> string \<Rightarrow> bool" where
  "search_told fr d k xs t \<longleftrightarrow>
     (xs = [] \<and> k \<noteq> ''results'' \<longrightarrow> t = search_name d k @ '' completed with no matching results.'') \<and>
     (xs = [] \<and> k = ''results'' \<longrightarrow>
        prefix (search_name d k @ '' completed with no sufficiently relevant matches.'') t) \<and>
     (xs \<noteq> [] \<and> (k = ''events'' \<longrightarrow> \<not> is_dict (hd xs)) \<longrightarrow>
        prefix (search_name d k @ '' completed with '' @ string_of_int (int (length xs)) @ '' '') t) \<and>
     (k = ''events'' \<longrightarrow> (\<forall>e rest. xs = JObj e # rest \<longrightarrow> event_told fr e t)) \<and>
     (k = ''files'' \<longrightarrow> (\<forall>item \<in> set (objects (take 5 xs)).
        (let name = py_or (py_get item ''name'') (py_get item ''title'') in
         py_truthy name \<longrightarrow> sublist (py_str fr name) t))) \<and>
     (k = ''results'' \<longrightarrow> (\<forall>item \<in> set (objects (take 5 xs)).
        py_truthy (py_get item ''title'') \<longrightarrow> sublist (py_str fr (py_get item ''title'')) t)) \<and>
     (k = ''results'' \<and> flag d ''index_stale'' \<longrightarrow> sublist '' The semantic index was stale'' t) \<and>
     (k = ''results'' \<and> flag d ''native_fallback_performed'' \<longrightarrow> sublist ''ative'' t \<and> sublist ''fallback'' t)"

lemma sublistI1: "sublist x y \<Longrightarrow> sublist x (a @ y)"
  using sublist_middle [of x y a "[]"] by simp

lemma sublistI2: "sublist x y \<Longrightarrow> sublist x (y @ b)"
  using sublist_middle [of x y "[]" b] by simp

lemma map_shown: "x \<in> set xs \<Longrightarrow> map f xs \<noteq> []"
  by auto

lemma joined: "x \<in> set xs \<Longrightarrow> sublist (f x) (py_join sep (map f xs))"
  by (rule sublist_py_join) simp

lemma event_statement_told: "event_told fr e (event_statement fr e)"
proof -
  have "prefix (''The next calendar event is '' @ py_str fr (py_get e ''title'')) (event_statement fr e)"
    if "py_truthy (py_get e ''title'')"
    using that by (simp add: event_statement_def Let_def)
  moreover have "sublist ('' at '' @ py_str fr (py_get e ''start'') @ ''.'') (event_statement fr e)"
    if "py_truthy (py_get e ''start'')"
  proof -
    have "sublist ('' at '' @ py_str fr (py_get e ''start'') @ ''.'')
        (a @ ('' at '' @ py_str fr (py_get e ''start'') @ ''.'') @ b)" for a b
      by (rule sublist_middle) simp
    then show ?thesis using that by (simp add: event_statement_def Let_def)
  qed
  moreover have "sublist (py_str fr x) (event_statement fr e)"
    if as: "py_get e ''attendees'' = JList as" and x: "x \<in> set (take 5 (filter py_truthy as))" for as x
  proof -
    from x have "as \<noteq> []" by auto
    have "sublist (py_str fr x) (py_join '', '' (take 5 (map (py_str fr) (filter py_truthy as))))"
      unfolding take_map by (rule joined [OF x])
    then show ?thesis unfolding event_statement_def Let_def as json.case if_not_P [OF \<open>as \<noteq> []\<close>]
      by (intro sublistI1 [THEN sublistI1, THEN sublistI1, THEN sublistI1] sublistI2)
  qed
  ultimately show ?thesis by (simp add: event_told_def)
qed

lemma counted: "prefix (label @ '' completed with '' @ string_of_int (int (length xs)) @ '' '') (matching_count label xs kind @ rest)"
  unfolding matching_count_def append_assoc same_prefix_prefix by (rule prefixI) (rule refl)

lemma files_statement_told:
  "prefix (''Drive search'' @ '' completed with '' @ string_of_int (int (length xs)) @ '' '') (files_statement fr xs)"
  "item \<in> set (objects (take 5 xs)) \<Longrightarrow> name = py_or (py_get item ''name'') (py_get item ''title'') \<Longrightarrow> py_truthy name \<Longrightarrow>
   sublist (py_str fr name) (files_statement fr xs)"
proof -
  show "prefix (''Drive search'' @ '' completed with '' @ string_of_int (int (length xs)) @ '' '') (files_statement fr xs)"
    unfolding files_statement_def Let_def by (rule counted)
  let ?named = "\<lambda>item. py_or (py_get item ''name'') (py_get item ''title'')"
  let ?shown = "filter (\<lambda>item. py_truthy (?named item)) (objects (take 5 xs))"
  assume "item \<in> set (objects (take 5 xs))" "name = ?named item" "py_truthy name"
  then have item: "item \<in> set ?shown" by simp
  then have "map (\<lambda>item. py_str fr (?named item)) ?shown \<noteq> []" by (rule map_shown)
  moreover have "sublist (py_str fr (?named item)) (py_join '', '' (map (\<lambda>item. py_str fr (?named item)) ?shown))"
    by (rule joined [OF item])
  ultimately show "sublist (py_str fr name) (files_statement fr xs)"
    unfolding \<open>name = _\<close> files_statement_def Let_def
    by (simp only: if_True simp_thms) (rule sublistI1, rule sublistI1, rule sublistI2)
qed

lemma search_statement_told:
  "prefix (workspace_search_label d @ '' completed with '' @ string_of_int (int (length xs)) @ '' '') (search_statement fr d xs)"
  "item \<in> set (objects (take 5 xs)) \<Longrightarrow> py_truthy (py_get item ''title'') \<Longrightarrow>
   sublist (py_str fr (py_get item ''title'')) (search_statement fr d xs)"
  "sublist (retrieval_status_suffix d) (search_statement fr d xs)"
proof -
  show "prefix (workspace_search_label d @ '' completed with '' @ string_of_int (int (length xs)) @ '' '') (search_statement fr d xs)"
    unfolding search_statement_def Let_def by (rule counted)
  show "sublist (retrieval_status_suffix d) (search_statement fr d xs)"
    unfolding search_statement_def Let_def by (intro sublistI1 [THEN sublistI1]) simp
  let ?shown = "filter (\<lambda>item. py_truthy (py_get item ''title'')) (objects (take 5 xs))"
  assume title: "item \<in> set (objects (take 5 xs))" "py_truthy (py_get item ''title'')"
  then have item: "item \<in> set ?shown" by simp
  then have "map (compact_finding fr) ?shown \<noteq> []" by (rule map_shown)
  moreover have "sublist (compact_finding fr item) (py_join ''; '' (map (compact_finding fr) ?shown))"
    by (rule joined [OF item])
  moreover have "prefix (py_str fr (py_get item ''title'')) (compact_finding fr item)"
    using title(2) by (simp add: compact_finding_def Let_def py_or_def split: json.splits)
  ultimately have "sublist (py_str fr (py_get item ''title'')) (py_join ''; '' (map (compact_finding fr) ?shown))"
    "map (compact_finding fr) ?shown \<noteq> []" by (meson prefix_imp_sublist sublist_order.order_trans)+
  then show "sublist (py_str fr (py_get item ''title'')) (search_statement fr d xs)"
    unfolding search_statement_def Let_def
    by (simp only: if_True simp_thms) (rule sublistI1, rule sublistI2, rule sublistI1, rule sublistI2)
qed

lemma status_suffix_told:
  "flag d ''index_stale'' \<Longrightarrow> prefix '' The semantic index was stale'' (retrieval_status_suffix d)"
  "flag d ''native_fallback_performed'' \<Longrightarrow>
     sublist ''ative'' (retrieval_status_suffix d) \<and> sublist ''fallback'' (retrieval_status_suffix d)"
proof -
  have words: "prefix '' The semantic index was stale'' '' The semantic index was stale, so native read-only fallback was used.''"
    "prefix '' The semantic index was stale'' '' The semantic index was stale; native fallback was not performed.''"
    "sublist ''fallback'' '' The semantic index was stale, so native read-only fallback was used.''"
    "sublist ''ative'' '' The semantic index was stale, so native read-only fallback was used.''"
    "sublist ''ative'' '' Native read-only fallback was used.''"
    "sublist ''fallback'' '' Native read-only fallback was used.''" by code_simp+
  show "prefix '' The semantic index was stale'' (retrieval_status_suffix d)" if "flag d ''index_stale''"
    unfolding retrieval_status_suffix_def Let_def using that words(1,2) by (simp only: if_True split: if_split) simp
  show "sublist ''ative'' (retrieval_status_suffix d) \<and> sublist ''fallback'' (retrieval_status_suffix d)"
    if "flag d ''native_fallback_performed''"
    unfolding retrieval_status_suffix_def Let_def using that words(3-6)
    by (cases "flag d ''index_stale''") (simp_all only: simp_thms if_True if_False)
qed


lemma collection_statement_told:
  assumes "k \<in> set collection_names"
  shows "search_told fr d k xs (collection_statement fr d k xs)"
proof (cases xs)
  case Nil
  have "search_told fr d k [] (empty_statement k d)"
  proof (cases "k = ''results''")
    case True
    define suffix where "suffix = retrieval_status_suffix d"
    have "search_name d k = workspace_search_label d"
      using True by (simp add: search_name_def workspace_search_label_def Let_def)
    then have t: "empty_statement k d =
        (search_name d k @ '' completed with no sufficiently relevant matches.'') @ suffix"
      using True by (simp add: empty_statement_def suffix_def)
    have "sublist x (empty_statement k d)" if "sublist x suffix" for x
      unfolding t by (rule sublistI1 [OF that])
    moreover have "prefix (search_name d k @ '' completed with no sufficiently relevant matches.'') (empty_statement k d)"
      unfolding t by (rule prefixI) (rule refl)
    moreover note status_suffix_told [of d, folded suffix_def]
    ultimately show ?thesis using True
      by (simp add: search_told_def prefix_imp_sublist objects_def map_filter_simps del: append_Cons append.append_Cons)
  next
    case False
    with assms show ?thesis
      by (auto simp: search_told_def empty_statement_def collection_label_def search_name_def
          collection_names_def objects_def map_filter_simps)
  qed
  with Nil show ?thesis by (simp add: collection_statement_def)
next
  case (Cons x rest)
  consider "k = ''events''" | "k = ''emails''" | "k = ''files''" | "k = ''results''"
    using assms by (auto simp: collection_names_def)
  then show ?thesis
  proof cases
    case 1
    show ?thesis
    proof (cases "\<exists>e. x = JObj e")
      case True
      with 1 Cons show ?thesis by (auto simp: search_told_def collection_statement_def event_statement_told)
    next
      case False
      then have "collection_statement fr d k xs = matching_count ''Calendar search'' xs ''matching result(s)'' @ []"
        using 1 Cons by (cases x) (simp_all add: collection_statement_def collection_label_def)
      moreover have "search_name d k = ''Calendar search''" using 1 by (simp add: search_name_def)
      ultimately have "prefix (search_name d k @ '' completed with '' @ string_of_int (int (length xs)) @ '' '')
          (collection_statement fr d k xs)" by (simp only: counted)
      with 1 Cons False show ?thesis by (simp add: search_told_def)
    qed
  next
    case 2
    then have "collection_statement fr d k xs = matching_count ''Email search'' xs ''matching result(s)'' @ []"
      using Cons by (simp add: collection_statement_def collection_label_def)
    moreover have "search_name d k = ''Email search''" using 2 by (simp add: search_name_def)
    ultimately have "prefix (search_name d k @ '' completed with '' @ string_of_int (int (length xs)) @ '' '')
        (collection_statement fr d k xs)" by (simp only: counted)
    with 2 Cons show ?thesis by (simp add: search_told_def)
  next
    case 3
    then have "collection_statement fr d k xs = files_statement fr xs"
      using Cons by (simp add: collection_statement_def)
    moreover have "search_name d k = ''Drive search''" using 3 by (simp add: search_name_def)
    moreover note files_statement_told [where xs = xs and fr = fr]
    ultimately show ?thesis using 3 Cons by (simp add: search_told_def Let_def del: append_Cons)
  next
    case 4
    then have "collection_statement fr d k xs = search_statement fr d xs"
      using Cons by (simp add: collection_statement_def)
    moreover have "search_name d k = workspace_search_label d"
      using 4 by (simp add: search_name_def workspace_search_label_def Let_def)
    moreover have "sublist t (search_statement fr d xs)" if "sublist t (retrieval_status_suffix d)" for t
      using that search_statement_told(3) sublist_order.order_trans by blast
    moreover note search_statement_told(1,2) [where xs = xs and fr = fr and d = d] status_suffix_told [of d]
    ultimately show ?thesis using 4 Cons by (simp add: search_told_def prefix_imp_sublist)
  qed
qed

text \<open>The statements of a result, among the statements of all results, in the words the user reads.\<close>

definition names_with :: "execution_status \<Rightarrow> step_result list \<Rightarrow> string" where
  "names_with st results = py_join '', '' [result_step_id r. r \<leftarrow> results, status r = st]"

definition reported :: "(rat \<Rightarrow> string) \<Rightarrow> step_result list \<Rightarrow> string list \<Rightarrow> step_result \<Rightarrow> bool" where
  "reported fr results statements r =
     (case status r of
        COMPLETED \<Rightarrow>
          (case primary_collection (data r) of
             None \<Rightarrow> True
           | Some (k, xs) \<Rightarrow> \<exists>t \<in> set statements. search_told fr (data r) k xs t)
      | AWAITING_APPROVAL \<Rightarrow>
          (if py_truthy (py_get (data r) ''approval_id'')
           then ''Step '' @ result_step_id r @ '' is awaiting approval (approval ID: '' @
             py_str fr (py_get (data r) ''approval_id'') @ '').'' \<in> set statements
           else ''Step '' @ result_step_id r @ '' is awaiting approval.'' \<in> set statements)
      | FAILED \<Rightarrow> ''The following searches failed, so their results could not be checked: '' @
          names_with FAILED results @ ''.'' \<in> set statements
      | SKIPPED \<Rightarrow> ''The following searches were not attempted because a dependency was unavailable: '' @
          names_with SKIPPED results @ ''.'' \<in> set statements
      | _ \<Rightarrow> True)"

text \<open>How many statements there are to make.\<close>

definition statements_due :: "step_result list \<Rightarrow> nat" where
  "statements_due results =
     length (filter (\<lambda>r. status r = COMPLETED \<and> primary_collection (data r) \<noteq> None) results) +
     length (filter (\<lambda>r. status r = AWAITING_APPROVAL) results) +
     (if \<exists>r \<in> set results. status r = FAILED then 1 else 0) +
     (if \<exists>r \<in> set results. status r = SKIPPED then 1 else 0)"

lemma names_with_ids: "names_with st results = py_join '', '' (ids_with st results)"
proof -
  have "[result_step_id r. r \<leftarrow> results, status r = st] = ids_with st results"
    by (induction results) (simp_all add: ids_with_def)
  then show ?thesis by (simp only: names_with_def)
qed

lemma statements_nonempty: "[] \<notin> set (grounded_statements fr results)"
proof -
  have "collection_statement fr d k xs \<noteq> []" if "k \<in> set collection_names" for d k xs
    using collection_statement_told [OF that, of fr d xs] by (cases xs; cases "hd xs")
      (auto simp: search_told_def event_statement_def collection_statement_def Let_def matching_count_def
        empty_statement_def split: if_splits)
  then have "[] \<notin> set (completed_statements fr results)"
    by (auto simp: completed_statements_def List.map_filter_def split: if_splits)
      (metis primary_collection_Some)
  moreover have "[] \<notin> set (map (pending_statement fr) rs)" for rs
    by (induction rs) (simp_all add: pending_statement_def Let_def)
  moreover have "[] \<notin> set (listed intro names)" for intro names by (simp add: listed_def)
  ultimately show ?thesis by (simp only: grounded_statements_def set_append Un_iff simp_thms not_False_eq_True)
qed

lemma all_reported:
  assumes "r \<in> set results"
  shows "reported fr results (grounded_statements fr results) r"
proof -
  have listed: "intro @ names_with (status r) results @ ''.'' \<in> set (listed intro (ids_with (status r) results))" for intro
    using assms by (auto simp: listed_def names_with_ids ids_with_def filter_empty_conv)
  show ?thesis
  proof (cases "status r")
    case COMPLETED
    show ?thesis
    proof (cases "primary_collection (data r)")
      case (Some p)
      then obtain k xs where p: "primary_collection (data r) = Some (k, xs)" by (cases p) simp
      then have "search_told fr (data r) k xs (collection_statement fr (data r) k xs)"
        by (intro collection_statement_told) (blast dest: primary_collection_Some)
      with completed_statement_in [OF assms COMPLETED p] COMPLETED p show ?thesis by (auto simp: reported_def)
    qed (simp add: reported_def COMPLETED)
  next
    case AWAITING_APPROVAL
    then have "pending_statement fr r \<in> set (grounded_statements fr results)"
      using assms by (simp add: grounded_statements_def)
    with AWAITING_APPROVAL show ?thesis by (simp add: reported_def pending_statement_def Let_def split: if_splits)
  next
    case FAILED
    show ?thesis unfolding reported_def FAILED execution_status.case grounded_statements_def set_append
      by (rule UnI2, rule UnI2, rule UnI1) (rule listed [unfolded FAILED])
  next
    case SKIPPED
    show ?thesis unfolding reported_def SKIPPED execution_status.case grounded_statements_def set_append
      by (rule UnI2, rule UnI2, rule UnI2) (rule listed [unfolded SKIPPED])
  qed (simp_all add: reported_def)
qed

lemma statements_number: "length (grounded_statements fr results) = statements_due results"
proof -
  have "length (completed_statements fr results) =
      length (filter (\<lambda>r. status r = COMPLETED \<and> primary_collection (data r) \<noteq> None) results)"
    by (induction results) (auto simp: completed_statements_def map_filter_simps split: option.splits)
  moreover have "length (listed intro (ids_with st results)) = (if \<exists>r \<in> set results. status r = st then 1 else 0)"
    for intro st by (auto simp: listed_def ids_with_def filter_empty_conv)
  ultimately show ?thesis by (simp add: grounded_statements_def statements_due_def)
qed

definition sample_results :: "step_result list" where
  "sample_results =
     [\<lparr>result_step_id = ''find'', status = COMPLETED,
       data = [(''files'', JList [JObj [(''id'', JStr ''f1''), (''name'', JStr ''Plan'')]])],
       error = None\<rparr>,
      \<lparr>result_step_id = ''mail'', status = FAILED, data = [], error = None\<rparr>,
      \<lparr>result_step_id = ''share'', status = AWAITING_APPROVAL,
       data = [(''approval_id'', JStr ''a-1'')], error = None\<rparr>]"

lemma sample_grounded:
  "grounded_response fr sample_results =
     ''Drive search completed with 1 matching result(s). In returned order: Plan. '' @
     ''Step share is awaiting approval (approval ID: a-1). '' @
     ''The following searches failed, so their results could not be checked: mail.''"
  by (simp add: sample_results_def grounded_response_def grounded_statements_def ids_with_def
      listed_def completed_statements_def map_filter_simps primary_collection_def
      collection_names_def collection_statement_def files_statement_def matching_count_def
      objects_def py_or_def dict_get_or_def pending_statement_def string_of_int_def
      string_of_nat.simps)

text \<open>
  C20. The answer written from the recorded results is never empty and leaves nothing out. It is
  made of separate statements, as many as are due and no more: each completed search is reported
  with what it found, each pending action with its approval id, the failed steps as failed and the
  skipped steps as not attempted, by their ids.
\<close>

theorem grounded_response_reports_all:
  "grounded_response fr results \<noteq> [] \<and>
   (\<exists>statements. length statements = statements_due results \<and>
      (\<forall>r \<in> set results. reported fr results statements r) \<and>
      (statements = [] \<longrightarrow> grounded_response fr results = ''The requested searches could not be completed.'') \<and>
      (statements \<noteq> [] \<longrightarrow> grounded_response fr results = py_join '' '' statements))"
proof -
  have "[] \<notin> set (grounded_statements fr results)" by (rule statements_nonempty)
  then have "py_join '' '' (grounded_statements fr results) = [] \<longleftrightarrow> grounded_statements fr results = []"
    by (auto simp: py_join_Nil_iff)
  then show ?thesis using all_reported statements_number grounded_response_nonempty
    by (intro conjI exI [of _ "grounded_statements fr results"]) (auto simp: grounded_response_def Let_def)
qed

lemma grounded_response_reports_all_witness:
  "\<exists>statements. length statements = 3 \<and>
     (\<forall>r \<in> set sample_results. reported (\<lambda>_. []) sample_results statements r) \<and>
     grounded_response (\<lambda>_. []) sample_results = py_join '' '' statements"
proof -
  have three: "statements_due sample_results = 3"
    by (simp add: statements_due_def sample_results_def primary_collection_def collection_names_def)
  obtain statements where "length statements = statements_due sample_results"
    "\<forall>r \<in> set sample_results. reported (\<lambda>_. []) sample_results statements r"
    "statements \<noteq> [] \<longrightarrow> grounded_response (\<lambda>_. []) sample_results = py_join '' '' statements"
    using grounded_response_reports_all [of "\<lambda>_. []" sample_results] by blast
  with three show ?thesis by (intro exI [of _ statements]) auto
qed

section \<open>Whose text is used\<close>

lemma synthesize_Inr:
  assumes "synthesize fr generate query results = Inr t"
  obtains (Grounded) "t = grounded_response fr results"
  | (Model) answer s where "generate synthesis_system_prompt (synthesis_payload query results) = Inr answer"
      "py_get answer ''response'' = JStr s" "t = py_strip s" "t \<noteq> []" "\<not> looks_generic_response t"
      "\<forall>r \<in> set results. status r \<noteq> FAILED \<and> status r \<noteq> SKIPPED"
      "\<not> has_contextual_workspace_results results"
proof (cases "has_contextual_workspace_results results")
  case True
  with assms Grounded show ?thesis by (simp add: synthesize_def)
next
  case False
  with assms obtain answer where
    answer: "generate synthesis_system_prompt (synthesis_payload query results) = Inr answer"
    by (cases "generate synthesis_system_prompt (synthesis_payload query results)")
      (simp_all add: synthesize_def)
  with assms False obtain s where s: "py_get answer ''response'' = JStr s"
    by (cases "py_get answer ''response''") (simp_all add: synthesize_def)
  with assms False answer Grounded Model show ?thesis
    by (simp add: synthesize_def split: if_splits)
qed

text \<open>
  Text of the language model reaches the user only when every step completed or awaits
  approval, the text is specific and no calendar-plus-workspace lookup is involved; in every other
  case the answer is the one written from the recorded results. The answer is never empty.
\<close>

theorem model_text_only_when_nothing_failed:
  assumes "synthesize fr generate query results = Inr t"
  shows "t \<noteq> [] \<and>
     (t = grounded_response fr results \<or>
      (\<forall>r \<in> set results. status r \<noteq> FAILED \<and> status r \<noteq> SKIPPED) \<and>
      \<not> has_contextual_workspace_results results \<and> \<not> looks_generic_response t \<and>
      (\<exists>answer s. generate synthesis_system_prompt (synthesis_payload query results) = Inr answer \<and>
         py_get answer ''response'' = JStr s \<and> t = py_strip s))"
  using assms by (cases rule: synthesize_Inr) (auto simp: grounded_response_nonempty)

lemma model_text_only_when_nothing_failed_witness:
  "\<exists>t. synthesize (\<lambda>_. []) (\<lambda>_ _. Inr [(''response'', JStr ''All done'')]) ''q'' sample_results = Inr t \<and>
     t = grounded_response (\<lambda>_. []) sample_results"
proof -
  let ?generate = "\<lambda>_ _. Inr [(''response'', JStr ''All done'')]"
  have strip: "py_strip ''All done'' = ''All done''"
    by (simp add: py_strip_def strip_with_def py_isspace_def unicode_space_def code_point_def Let_def)
  have "synthesize (\<lambda>_. []) ?generate ''q'' sample_results = Inr (grounded_response (\<lambda>_. []) sample_results)"
    by (simp add: synthesize_def has_contextual_workspace_results_def sample_results_def
        dict_get_or_def strip)
  with model_text_only_when_nothing_failed [OF this] show ?thesis by (simp add: sample_results_def)
qed

section \<open>Compaction and the grounded answer\<close>

text \<open>
  An item whose summary compaction keeps: attendees are all non-empty and not counted yet, a file
  has its name under \<open>name\<close>. The items the calendar and drive agents return are of this kind.
\<close>

definition summary_kept :: "string \<Rightarrow> dict \<Rightarrow> bool" where
  "summary_kept k item \<longleftrightarrow>
     (k = ''events'' \<longrightarrow> \<not> has_key item ''attendee_count'' \<and>
        (case list_under item ''attendees'' of None \<Rightarrow> True | Some xs \<Rightarrow> list_all py_truthy xs)) \<and>
     (k = ''files'' \<longrightarrow> py_truthy (py_get item ''name'') \<or> \<not> py_truthy (py_get item ''title''))"

definition kept_in_full :: "step_result \<Rightarrow> bool" where
  "kept_in_full r \<longleftrightarrow>
     (case primary_collection (data r) of
        None \<Rightarrow> True
      | Some (k, xs) \<Rightarrow>
          status r \<noteq> AWAITING_APPROVAL \<and> k \<noteq> ''results'' \<and> length xs \<le> 20 \<and> list_all is_dict xs \<and>
          list_all (summary_kept k) (objects xs))"

lemma objects_all: "list_all is_dict xs \<Longrightarrow> map JObj (objects xs) = xs"
proof (induction xs)
  case (Cons x xs)
  then show ?case by (cases x) (simp_all add: objects_def map_filter_simps)
qed (simp add: objects_def map_filter_simps)

lemma objects_take: "list_all is_dict xs \<Longrightarrow> objects (take n xs) = take n (objects xs)"
proof (induction xs arbitrary: n)
  case (Cons x xs)
  then show ?case
    by (cases x; cases n) (simp_all add: objects_def map_filter_simps)
qed (simp add: objects_def map_filter_simps)

lemma py_get_select_keys: "py_get (select_keys ks d) k = (if k \<in> set ks then py_get d k else JNull)"
  by (simp add: dict_get_or_def dict_get_select_keys)

lemma py_get_set: "dict_get_or (dict_set k v d) k' x = (if k' = k then v else dict_get_or d k' x)"
  by (simp add: dict_get_or_def dict_get_set)

lemma list_under_Some: "list_under d k = Some xs \<longleftrightarrow> dict_get d k = Some (JList xs)"
  by (auto simp: list_under_def split: option.splits json.splits)

lemma take_filter_all: "list_all P xs \<Longrightarrow> filter P (take n xs) = take n xs"
  by (auto simp: list_all_iff intro!: filter_True dest: in_set_takeD)

lemma compact_event_statement:
  assumes "summary_kept ''events'' e"
  shows "event_statement fr (compact_event e) = event_statement fr e"
proof (cases "list_under e ''attendees''")
  case None
  then have "\<forall>xs. py_get e ''attendees'' \<noteq> JList xs"
    by (auto simp: list_under_def dict_get_or_def split: option.splits)
  then have "(case py_get e ''attendees'' of JList xs \<Rightarrow> f xs | _ \<Rightarrow> []) = []" for f :: "json list \<Rightarrow> string"
    by (cases "py_get e ''attendees''") auto
  with None show ?thesis
    by (simp add: event_statement_def compact_event_def py_get_select_keys Let_def)
next
  case (Some xs)
  with assms have "list_all py_truthy xs" and no: "dict_get e ''attendee_count'' = None"
    by (auto simp: summary_kept_def has_key_iff)
  then have f: "filter py_truthy xs = xs" "filter py_truthy (take 5 xs) = take 5 xs"
    by (simp_all add: take_filter_all list_all_iff)
  from Some have "py_get e ''attendees'' = JList xs" by (simp add: list_under_Some dict_get_or_def)
  moreover from no have "dict_get_or e ''attendee_count'' v = v" for v by (simp add: dict_get_or_def)
  ultimately show ?thesis
    using Some f by (simp add: event_statement_def compact_event_def py_get_select_keys py_get_set
        take_map Let_def)
qed

lemma compact_file_get:
  "py_get (compact_file f) ''name'' = py_get f ''name''" "py_get (compact_file f) ''title'' = JNull"
  by (simp_all add: compact_file_def Let_def py_get_set py_get_select_keys)

lemma compact_file_name:
  assumes "summary_kept ''files'' f"
  shows "py_or (py_get (compact_file f) ''name'') (py_get (compact_file f) ''title'') =
      py_or (py_get f ''name'') (py_get f ''title'') \<or>
    \<not> py_truthy (py_or (py_get f ''name'') (py_get f ''title'')) \<and>
    \<not> py_truthy (py_or (py_get (compact_file f) ''name'') (py_get (compact_file f) ''title''))"
  using assms by (auto simp: summary_kept_def py_or_def compact_file_get)

lemma compact_file_names:
  assumes "list_all (summary_kept ''files'') fs"
  shows "map (\<lambda>f. py_str fr (py_or (py_get f ''name'') (py_get f ''title'')))
      (filter (\<lambda>f. py_truthy (py_or (py_get f ''name'') (py_get f ''title''))) (map compact_file fs)) =
    map (\<lambda>f. py_str fr (py_or (py_get f ''name'') (py_get f ''title'')))
      (filter (\<lambda>f. py_truthy (py_or (py_get f ''name'') (py_get f ''title''))) fs)"
  using assms
proof (induction fs)
  case (Cons f fs)
  with compact_file_name [of f] show ?case by auto
qed simp

lemma compacted_statement:
  assumes "kept_in_full r" "primary_collection (data r) = Some (k, xs)"
  shows "collection_statement fr (compact_result_data (data r)) k
      (map (\<lambda>o1. JObj (compact_item k o1)) (objects (take 20 xs))) =
    collection_statement fr (data r) k xs"
proof -
  from assms have kept: "k \<noteq> ''results''" "length xs \<le> 20" "list_all is_dict xs"
      "list_all (summary_kept k) (objects xs)" and k: "k \<in> set collection_names"
    by (auto simp: kept_in_full_def dest: primary_collection_Some)
  define ds where "ds = objects xs"
  with kept have xs: "xs = map JObj ds" by (simp add: objects_all)
  have items: "objects (take 20 xs) = ds" using kept xs by simp
  show ?thesis
  proof (cases ds)
    case Nil
    then show ?thesis using kept xs by (simp add: collection_statement_def empty_statement_def objects_def map_filter_simps)
  next
    case (Cons d ds')
    have files: "files_statement fr (map (\<lambda>o1. JObj (compact_file o1)) ds) = files_statement fr (map JObj ds)"
      if "k = ''files''"
    proof -
      have "list_all (summary_kept ''files'') (take 5 ds)"
        using kept that unfolding ds_def by (auto simp: list_all_iff dest: in_set_takeD)
      from compact_file_names [OF this, of fr]
      have "files_statement fr (map JObj (map compact_file ds)) = files_statement fr (map JObj ds)"
        unfolding files_statement_def take_map objects_map_JObj matching_count_def length_map Let_def
        by simp
      then show ?thesis by (simp add: comp_def)
    qed
    have event: "event_statement fr (compact_event d) = event_statement fr d" if "k = ''events''"
      using kept that Cons unfolding ds_def [symmetric] by (simp add: compact_event_statement)
    from k kept consider "k = ''events''" | "k = ''emails''" | "k = ''files''"
      by (auto simp: collection_names_def)
    then show ?thesis
    proof cases
      case 1
      from event Cons 1 show ?thesis unfolding items unfolding xs by (simp add: collection_statement_def compact_item_def)
    next
      case 2
      from Cons 2 show ?thesis unfolding items unfolding xs by (simp add: collection_statement_def compact_item_def matching_count_def)
    next
      case 3
      from files Cons 3 show ?thesis unfolding items unfolding xs by (simp add: collection_statement_def compact_item_def)
    qed
  qed
qed

lemma compaction_keeps_statements:
  assumes "list_all kept_in_full results"
  shows "grounded_statements fr (compact_results_for_synthesis results) =
    grounded_statements fr results"
proof -
  let ?c = "\<lambda>r. r\<lparr>data := compact_result_data (data r)\<rparr>"
  have "completed_statements fr (map ?c results) = completed_statements fr results"
    using assms
  proof (induction results)
    case (Cons r results)
    show ?case
    proof (cases "primary_collection (data r)")
      case None
      with Cons show ?thesis by (simp add: completed_statements_def map_filter_simps compaction_collection)
    next
      case (Some p)
      with Cons compacted_statement [of r "fst p" "snd p" fr] show ?thesis
        by (cases p) (simp add: completed_statements_def map_filter_simps compaction_collection)
    qed
  qed (simp add: completed_statements_def map_filter_simps)
  moreover have "map (pending_statement fr) (filter (\<lambda>r. status r = AWAITING_APPROVAL) (map ?c results)) =
      map (pending_statement fr) (filter (\<lambda>r. status r = AWAITING_APPROVAL) results)"
    using assms
  proof (induction results)
    case (Cons r results)
    have "compact_result_data (data r) = data r" if "status r = AWAITING_APPROVAL"
      using Cons.prems that compaction_keeps_data [of "data r"]
      by (auto simp: kept_in_full_def split: option.splits)
    with Cons show ?case by (auto simp: pending_statement_def)
  qed simp
  moreover have "ids_with st (map ?c results) = ids_with st results" for st
    by (simp add: ids_with_def filter_map comp_def)
  ultimately show ?thesis
    by (simp add: grounded_statements_def compact_results_for_synthesis_def)
qed

text \<open>
  When the model fails, the answer is grounded in the compacted results; for results whose
  items lose no summary to compaction (native events, emails and files, at most 20) it is the same
  answer the full results give.
\<close>

theorem compaction_keeps_grounded_response:
  assumes "list_all kept_in_full results"
  shows "grounded_response fr (compact_results_for_synthesis results) = grounded_response fr results"
  by (simp add: grounded_response_def compaction_keeps_statements [OF assms])

lemma compaction_keeps_grounded_response_witness:
  "list_all kept_in_full sample_results \<and>
   compact_results_for_synthesis sample_results \<noteq> [] \<and>
   grounded_response (\<lambda>_. []) (compact_results_for_synthesis sample_results) =
     grounded_response (\<lambda>_. []) sample_results"
proof -
  have "list_all kept_in_full sample_results"
    by (simp add: sample_results_def kept_in_full_def primary_collection_def collection_names_def
        summary_kept_def objects_def map_filter_simps dict_get_or_def)
  with compaction_keeps_grounded_response [OF this, of "\<lambda>_. []"] show ?thesis
    by (simp add: compact_results_for_synthesis_def sample_results_def)
qed

text \<open>
  The number of matches the answer states is the number of items compaction kept: whatever
  more than 20 files a Drive search returned (it asks for 50 by default), the grounded answer of
  the compacted results says 20.
\<close>

theorem compacted_count_capped:
  assumes "primary_collection d = Some (''files'', map JObj fs)" and "20 \<le> length fs"
  shows "\<exists>xs rest. primary_collection (compact_result_data d) = Some (''files'', xs) \<and>
    collection_statement fr (compact_result_data d) ''files'' xs =
      ''Drive search completed with 20 matching result(s).'' @ rest"
proof -
  let ?xs = "map (\<lambda>f. JObj (compact_file f)) (take 20 fs)"
  have "primary_collection (compact_result_data d) = Some (''files'', ?xs)"
    using assms(1) by (simp add: compaction_collection compact_item_def take_map)
  moreover have "length ?xs = 20" using assms(2) by simp
  then have "?xs \<noteq> []" by auto
  then have "collection_statement fr (compact_result_data d) ''files'' ?xs = files_statement fr ?xs"
    by (cases ?xs) (simp_all add: collection_statement_def)
  moreover have "string_of_int 20 = ''20''" by (simp add: string_of_int_def string_of_nat.simps)
  ultimately show ?thesis using \<open>length ?xs = 20\<close>
    by (simp add: files_statement_def matching_count_def Let_def)
qed

definition many_files :: "dict list" where
  "many_files = replicate 50 [(''id'', JStr ''f''), (''name'', JStr ''Plan'')]"

lemma compacted_count_capped_witness:
  "\<exists>xs rest. primary_collection (compact_result_data [(''files'', JList (map JObj many_files))]) = Some (''files'', xs) \<and>
    collection_statement (\<lambda>_. []) (compact_result_data [(''files'', JList (map JObj many_files))]) ''files'' xs =
      ''Drive search completed with 20 matching result(s).'' @ rest"
  by (rule compacted_count_capped [where fs = many_files])
    (simp_all add: primary_collection_def collection_names_def many_files_def)

end
