(* ===== verification/Clock.thy ===== *)
theory Clock
  imports Iso_Format
begin

text \<open>
  Arithmetic on datetimes: adding a \<open>timedelta\<close>, conversion to a time zone, and days of the week.
  Python's range of dates ends with year 9999; outside it, arithmetic raises \<open>OverflowError\<close>,
  which is \<open>None\<close> here.

  A \<open>ZoneInfo\<close> is a parameter, \<open>zone\<close>: the offset at an instant, for \<open>astimezone\<close>, and the
  offset of a wall clock time, for a datetime made with \<open>datetime.combine\<close>.
\<close>

section \<open>Instants\<close>

definition day_micros :: int where
  "day_micros = 86400000000"

definition datetime_of_micros :: "int \<Rightarrow> int option \<Rightarrow> datetime option" where
  "datetime_of_micros n off =
     (let days = n div 86400000000; us = nat (n mod 86400000000); sec = us div 1000000 in
      if 1 \<le> days \<and> days \<le> int max_ordinal then
        (case ord_to_ymd (nat days) of (y, m, d) \<Rightarrow>
           Some \<lparr>year = y, month = m, day = d, hour = sec div 3600, minute = sec div 60 mod 60,
             second = sec mod 60, microsecond = us mod 1000000, utcoffset = off\<rparr>)
      else None)"

text \<open>\<open>t + timedelta(minutes=n)\<close>, on the wall clock.\<close>

definition add_minutes :: "datetime \<Rightarrow> int \<Rightarrow> datetime option" where
  "add_minutes t n = datetime_of_micros (local_micros t + n * 60000000) (utcoffset t)"

record zone =
  offset_at :: "int \<Rightarrow> int"
  wall_offset :: "int \<Rightarrow> nat \<Rightarrow> nat \<Rightarrow> int"

text \<open>\<open>timezone.utc\<close>.\<close>

definition utc_zone :: zone where
  "utc_zone = \<lparr>offset_at = \<lambda>_. 0, wall_offset = \<lambda>_ _ _. 0\<rparr>"

definition astimezone :: "zone \<Rightarrow> datetime \<Rightarrow> datetime option" where
  "astimezone z t =
     (let off = offset_at z (utc_micros t)
      in datetime_of_micros (utc_micros t + off) (Some off))"

section \<open>Days\<close>

text \<open>A \<open>date\<close> is its ordinal. Monday is weekday 0.\<close>

definition date_ordinal :: "datetime \<Rightarrow> int" where
  "date_ordinal t = int (ymd_to_ord (year t) (month t) (day t))"

definition weekday :: "int \<Rightarrow> int" where
  "weekday n = (n + 6) mod 7"

definition date_in_range :: "int \<Rightarrow> bool" where
  "date_in_range n \<longleftrightarrow> 1 \<le> n \<and> n \<le> int max_ordinal"

text \<open>\<open>replace(day=1)\<close>.\<close>

definition first_of_month :: "int \<Rightarrow> int" where
  "first_of_month n = (case ord_to_ymd (nat n) of (y, m, d) \<Rightarrow> int (ymd_to_ord y m 1))"

text \<open>\<open>datetime.combine(date, time, zone)\<close>.\<close>

definition combine :: "zone \<Rightarrow> int \<Rightarrow> nat \<Rightarrow> nat \<Rightarrow> datetime" where
  "combine z n h mi =
     (case ord_to_ymd (nat n) of (y, m, d) \<Rightarrow>
        \<lparr>year = y, month = m, day = d, hour = h, minute = mi, second = 0, microsecond = 0,
         utcoffset = Some (wall_offset z n h mi)\<rparr>)"

section \<open>Laws\<close>

lemma days_before_year_mono: "y \<le> z \<Longrightarrow> days_before_year y \<le> days_before_year z"
proof (rule lift_Suc_mono_le [where f = days_before_year])
  show "days_before_year k \<le> days_before_year (Suc k)" for k
    by (cases k) (simp_all add: days_before_year_Suc, simp add: days_before_year_def)
qed

lemma ordinal_year_bound:
  assumes "1 \<le> n" and "n \<le> max_ordinal" and "ord_to_ymd n = (y, m, d)"
  shows "valid_ymd y m d"
proof -
  note ymd = ymd_of_ord [OF assms(1,3)]
  have "y \<le> 9999"
  proof (rule ccontr)
    assume "\<not> y \<le> 9999"
    then have "days_before_year 10000 \<le> days_before_year y" by (intro days_before_year_mono) simp
    moreover have "days_before_year 10000 = max_ordinal"
      by (simp add: days_before_year_def max_ordinal_def)
    ultimately show False using ymd(1,5) assms(2) by (simp add: ymd_to_ord_def)
  qed
  with ymd show ?thesis by (simp add: valid_ymd_def)
qed

lemma clock_micros:
  fixes us :: nat
  assumes "us < 86400000000"
  shows "((us div 1000000 div 3600 * 60 + us div 1000000 div 60 mod 60) * 60 + us div 1000000 mod 60) * 1000000
      + us mod 1000000 = us"
    and "us div 1000000 div 3600 < 24"
proof -
  have "us div 1000000 div 3600 * 3600 + us div 1000000 div 60 mod 60 * 60 + us div 1000000 mod 60 = us div 1000000"
    by (rule clock_parts)
  then have "(us div 1000000 div 3600 * 60 + us div 1000000 div 60 mod 60) * 60 + us div 1000000 mod 60 = us div 1000000"
    by (simp add: algebra_simps)
  then show "((us div 1000000 div 3600 * 60 + us div 1000000 div 60 mod 60) * 60 + us div 1000000 mod 60) * 1000000
      + us mod 1000000 = us" by (simp only: div_mult_mod_eq)
  show "us div 1000000 div 3600 < 24" using assms
    by (simp add: div_mult2_eq [symmetric] less_mult_imp_div_less)
qed

lemma datetime_of_micros_sound:
  assumes "datetime_of_micros n off = Some t"
    and "case off of None \<Rightarrow> True | Some x \<Rightarrow> \<bar>x\<bar> < 86400000000"
  shows "valid_datetime t" and "local_micros t = n" and "utcoffset t = off"
proof -
  let ?days = "n div 86400000000" and ?us = "nat (n mod 86400000000)"
  obtain y m d where ymd: "ord_to_ymd (nat ?days) = (y, m, d)" by (cases "ord_to_ymd (nat ?days)")
  from assms(1) ymd have days: "1 \<le> ?days" "?days \<le> int max_ordinal"
    and t: "t = \<lparr>year = y, month = m, day = d, hour = ?us div 1000000 div 3600,
      minute = ?us div 1000000 div 60 mod 60, second = ?us div 1000000 mod 60,
      microsecond = ?us mod 1000000, utcoffset = off\<rparr>"
    by (auto simp: datetime_of_micros_def Let_def split: if_splits)
  have us: "?us < 86400000000" "int ?us = n mod 86400000000" by simp_all
  from days have range: "1 \<le> nat ?days" "nat ?days \<le> max_ordinal" by simp_all
  from ordinal_year_bound [OF range ymd] have valid: "valid_ymd y m d" .
  from ymd_of_ord(1) [OF range(1) ymd] have ord: "int (ymd_to_ord y m d) = ?days" using days(1) by simp
  show "valid_datetime t" using valid clock_micros(2) [OF us(1)] assms(2) by (simp add: t valid_datetime_def)
  show "utcoffset t = off" by (simp add: t)
  have "local_micros t = ?days * 86400000000 +
      int (((?us div 1000000 div 3600 * 60 + ?us div 1000000 div 60 mod 60) * 60 + ?us div 1000000 mod 60) * 1000000
      + ?us mod 1000000)"
    by (simp add: t local_micros_def ord algebra_simps del: of_nat_div of_nat_mod)
  then show "local_micros t = n" unfolding clock_micros(1) [OF us(1)] us(2) by simp
qed

lemma combine_valid:
  assumes "date_in_range n" and "h < 24" "mi < 60" and "\<bar>wall_offset z n h mi\<bar> < 86400000000"
  shows "valid_datetime (combine z n h mi)"
    and "date_ordinal (combine z n h mi) = n"
proof -
  obtain y m d where ymd: "ord_to_ymd (nat n) = (y, m, d)" by (cases "ord_to_ymd (nat n)")
  from assms(1) have range: "1 \<le> nat n" "nat n \<le> max_ordinal" by (auto simp: date_in_range_def)
  from ordinal_year_bound [OF range ymd] assms(2-4)
  show "valid_datetime (combine z n h mi)" by (simp add: combine_def ymd valid_datetime_def)
  from ymd_of_ord(1) [OF range(1) ymd] range(1)
  show "date_ordinal (combine z n h mi) = n" by (simp add: combine_def ymd date_ordinal_def)
qed

end
