(* ===== verification/Py_Regex.thy ===== *)
theory Py_Regex
  imports Py_Text
begin

text \<open>
  The regular expressions that \<open>orchestration\<close> searches a query with: words and phrases between
  word boundaries, ignoring case. A pattern is a sequence of literals (in lower case) and of runs
  of white space; \<open>search_words\<close> is \<open>re.search\<close> of a list of alternatives. A character counts
  as a word character as \<open>str.isalnum\<close> does for the code points below 256.
\<close>

section \<open>Word boundaries\<close>

definition is_word_char :: "char \<Rightarrow> bool" where
  "is_word_char c =
     (let n = code_point c in
      is_ascii_alpha c \<or> is_ascii_digit c \<or> c = CHR ''_'' \<or> n \<in> {170, 178, 179, 181, 185, 186, 188, 189, 190} \<or>
      192 \<le> n \<and> n \<le> 255 \<and> n \<noteq> 215 \<and> n \<noteq> 247)"

text \<open>\<open>\b\<close> between the character before and the rest of the text.\<close>

definition word_boundary :: "char option \<Rightarrow> string \<Rightarrow> bool" where
  "word_boundary prev s \<longleftrightarrow>
     (case prev of None \<Rightarrow> False | Some c \<Rightarrow> is_word_char c) \<noteq> (case s of [] \<Rightarrow> False | c # _ \<Rightarrow> is_word_char c)"

section \<open>Phrases\<close>

datatype piece = Lit string | Spaces

text \<open>What follows a literal, and a run of white space, with the last character consumed.\<close>

fun after_literal :: "string \<Rightarrow> char option \<Rightarrow> string \<Rightarrow> (char option \<times> string) option" where
  "after_literal [] prev s = Some (prev, s)"
| "after_literal (l # ls) prev [] = None"
| "after_literal (l # ls) prev (c # s) = (if lower_char c = l then after_literal ls (Some c) s else None)"

fun after_spaces :: "char option \<Rightarrow> string \<Rightarrow> char option \<times> string" where
  "after_spaces prev [] = (prev, [])"
| "after_spaces prev (c # s) = (if py_isspace c then after_spaces (Some c) s else (prev, c # s))"

fun after_pieces :: "piece list \<Rightarrow> char option \<Rightarrow> string \<Rightarrow> (char option \<times> string) option" where
  "after_pieces [] prev s = Some (prev, s)"
| "after_pieces (Lit l # ps) prev s =
     (case after_literal l prev s of None \<Rightarrow> None | Some (prev', s') \<Rightarrow> after_pieces ps prev' s')"
| "after_pieces (Spaces # ps) prev s =
     (case s of
        [] \<Rightarrow> None
      | c # s' \<Rightarrow>
          if py_isspace c then (case after_spaces (Some c) s' of (prev', s'') \<Rightarrow> after_pieces ps prev' s'')
          else None)"

definition phrase_here :: "piece list list \<Rightarrow> char option \<Rightarrow> string \<Rightarrow> bool" where
  "phrase_here alts prev s \<longleftrightarrow> word_boundary prev s \<and>
     list_ex (\<lambda>ps. case after_pieces ps prev s of None \<Rightarrow> False | Some (prev', s') \<Rightarrow> word_boundary prev' s') alts"

fun search_from :: "piece list list \<Rightarrow> char option \<Rightarrow> string \<Rightarrow> bool" where
  "search_from alts prev s =
     (phrase_here alts prev s \<or> (case s of [] \<Rightarrow> False | c # s' \<Rightarrow> search_from alts (Some c) s'))"

definition search_words :: "string list \<Rightarrow> string \<Rightarrow> bool" where
  "search_words ws s = search_from (map (\<lambda>w. [Lit w]) ws) None s"

definition search_phrases :: "piece list list \<Rightarrow> string \<Rightarrow> bool" where
  "search_phrases alts s = search_from alts None s"

section \<open>Two words with a gap\<close>

text \<open>
  \<open>\b(?:first)\b[^...]{0,n}\b(?:second)\b\<close>: the gap has at most \<open>n\<close> characters, none of which is
  excluded.
\<close>

fun gap_then :: "nat \<Rightarrow> (char \<Rightarrow> bool) \<Rightarrow> piece list list \<Rightarrow> char option \<Rightarrow> string \<Rightarrow> bool" where
  "gap_then n excluded second prev s =
     (phrase_here second prev s \<or>
      (case (n, s) of (Suc k, c # s') \<Rightarrow> \<not> excluded c \<and> gap_then k excluded second (Some c) s' | _ \<Rightarrow> False))"

definition gap_here ::
  "piece list list \<Rightarrow> nat \<Rightarrow> (char \<Rightarrow> bool) \<Rightarrow> piece list list \<Rightarrow> char option \<Rightarrow> string \<Rightarrow> bool" where
  "gap_here first n excluded second prev s \<longleftrightarrow> word_boundary prev s \<and>
     list_ex (\<lambda>ps. case after_pieces ps prev s of
         None \<Rightarrow> False
       | Some (prev', s') \<Rightarrow> word_boundary prev' s' \<and> gap_then n excluded second prev' s') first"

fun search_gap_from ::
  "piece list list \<Rightarrow> nat \<Rightarrow> (char \<Rightarrow> bool) \<Rightarrow> piece list list \<Rightarrow> char option \<Rightarrow> string \<Rightarrow> bool" where
  "search_gap_from first n excluded second prev s =
     (gap_here first n excluded second prev s \<or>
      (case s of [] \<Rightarrow> False | c # s' \<Rightarrow> search_gap_from first n excluded second (Some c) s'))"

declare search_from.simps [simp del] gap_then.simps [simp del] search_gap_from.simps [simp del]

text \<open>Examples of what is found.\<close>

lemma search_examples:
  "search_words [''send''] ''Please SEND it''" "\<not> search_words [''send''] ''the sender''"
  "search_phrases [[Lit ''google'', Spaces, Lit ''meet'']] ''with a Google  Meet link''"
  "\<not> search_phrases [[Lit ''google'', Spaces, Lit ''meet'']] ''google meeting''"
  by code_simp+

end
