(* ===== verification/Temporal.thy ===== *)
theory Temporal
  imports Clock Py_Regex
begin

text \<open>
  \<open>normalize_temporal_expressions\<close> of \<open>app/orchestration/temporal.py\<close>: the relative dates a query
  mentions, as ISO timestamps in the user's time zone. \<open>ZoneInfo\<close> is the parameter \<open>zone_info\<close>:
  the zone of a name, or the exception of an unknown name. A naive reference time counts as UTC; the
  application passes an aware one. Dates are ordinals, see \<open>Clock\<close>.
\<close>

section \<open>The time of day\<close>

text \<open>
  The groups of the pattern, each with the text after it. The alternatives of a group exclude each
  other once the rest of the pattern is taken into account, so that the first match is the match.
\<close>

fun hour_here :: "string \<Rightarrow> (nat \<times> string) option" where
  "hour_here [] = None"
| "hour_here [c] = None"
| "hour_here (c # d # s) =
     (if c = CHR ''1'' \<and> d \<in> set ''012'' then Some (10 + digit_value d, s)
      else if c = CHR ''0'' then (if is_ascii_digit d \<and> d \<noteq> CHR ''0'' then Some (digit_value d, s) else None)
      else if is_ascii_digit c then Some (digit_value c, d # s) else None)"

fun minute_here :: "string \<Rightarrow> nat \<times> string" where
  "minute_here (c # d # e # s) =
     (if c \<in> set ''.:'' \<and> d \<in> set ''012345'' \<and> is_ascii_digit e
      then (digit_value d * 10 + digit_value e, s) else (0, c # d # e # s))"
| "minute_here s = (0, s)"

definition optional_dot :: "string \<Rightarrow> string" where
  "optional_dot s = (case s of c # s' \<Rightarrow> (if c = CHR ''.'' then s' else s) | [] \<Rightarrow> [])"

definition period_here :: "string \<Rightarrow> char option" where
  "period_here s =
     (case dropWhile py_isspace s of
        p # s' \<Rightarrow>
          (case optional_dot s' of
             m # s'' \<Rightarrow> (if p \<in> set ''ap'' \<and> m = CHR ''m'' \<and> word_boundary (Some m) s'' then Some p else None)
           | [] \<Rightarrow> None)
      | [] \<Rightarrow> None)"

definition time_here :: "string \<Rightarrow> (nat \<times> nat) option" where
  "time_here s =
     (case hour_here s of
        None \<Rightarrow> None
      | Some (h, s') \<Rightarrow>
          (case minute_here s' of (mi, s'') \<Rightarrow>
             (case period_here s'' of
                None \<Rightarrow> None
              | Some p \<Rightarrow> Some (h mod 12 + (if p = CHR ''p'' then 12 else 0), mi))))"

fun search_time :: "char option \<Rightarrow> string \<Rightarrow> (nat \<times> nat) option" where
  "search_time prev [] = None"
| "search_time prev (c # s) =
     (case (if word_boundary prev (c # s) then time_here (c # s) else None) of
        Some t \<Rightarrow> Some t
      | None \<Rightarrow> search_time (Some c) s)"

definition extract_time :: "string \<Rightarrow> (nat \<times> nat) option" where
  "extract_time s = search_time None s"

section \<open>Ranges of days\<close>

definition shift_date :: "int \<Rightarrow> int \<Rightarrow> py_error + int" where
  "shift_date n k = (if date_in_range (n + k) then Inr (n + k) else Inl OverflowError)"

definition date_range :: "zone \<Rightarrow> int \<Rightarrow> int \<Rightarrow> json" where
  "date_range z first stop = JObj
     [(''start'', JStr (isoformat (combine z first 0 0))), (''end'', JStr (isoformat (combine z stop 0 0)))]"

definition temporal_value :: "zone \<Rightarrow> (nat \<times> nat) option \<Rightarrow> int \<Rightarrow> py_error + json" where
  "temporal_value z explicit_time n =
     (case explicit_time of
        Some (h, mi) \<Rightarrow> Inr (JObj [(''start'', JStr (isoformat (combine z n h mi)))])
      | None \<Rightarrow> (case shift_date n 1 of Inl e \<Rightarrow> Inl e | Inr stop \<Rightarrow> Inr (date_range z n stop)))"

section \<open>The expressions\<close>

definition weekday_names :: "(string \<times> int) list" where
  "weekday_names =
     [(''monday'', 0), (''tuesday'', 1), (''wednesday'', 2), (''thursday'', 3), (''friday'', 4),
      (''saturday'', 5), (''sunday'', 6)]"

definition hint :: "bool \<Rightarrow> string \<Rightarrow> py_error + json \<Rightarrow> py_error + dict" where
  "hint mentioned phrase v =
     (if mentioned then (case v of Inl e \<Rightarrow> Inl e | Inr x \<Rightarrow> Inr [(phrase, x)]) else Inr [])"

definition next_week :: "zone \<Rightarrow> int \<Rightarrow> py_error + json" where
  "next_week z today =
     (case shift_date today (7 - weekday today) of Inl e \<Rightarrow> Inl e | Inr first \<Rightarrow>
      (case shift_date first 7 of Inl e \<Rightarrow> Inl e | Inr stop \<Rightarrow> Inr (date_range z first stop)))"

definition last_week :: "zone \<Rightarrow> int \<Rightarrow> py_error + json" where
  "last_week z today =
     (case shift_date today (- weekday today) of Inl e \<Rightarrow> Inl e | Inr monday \<Rightarrow>
      (case shift_date monday (- 7) of Inl e \<Rightarrow> Inl e | Inr first \<Rightarrow> Inr (date_range z first monday)))"

definition last_month :: "zone \<Rightarrow> int \<Rightarrow> py_error + json" where
  "last_month z today =
     (case shift_date (first_of_month today) (- 1) of Inl e \<Rightarrow> Inl e | Inr n \<Rightarrow>
      Inr (date_range z (first_of_month n) (first_of_month today)))"

definition days_ahead :: "int \<Rightarrow> int \<Rightarrow> int" where
  "days_ahead today wd = (let k = (wd - weekday today) mod 7 in if k = 0 then 7 else k)"

definition next_weekday :: "zone \<Rightarrow> (nat \<times> nat) option \<Rightarrow> int \<Rightarrow> int \<Rightarrow> py_error + json" where
  "next_weekday z explicit_time today wd =
     (case shift_date today (days_ahead today wd) of Inl e \<Rightarrow> Inl e | Inr n \<Rightarrow>
      temporal_value z explicit_time n)"

definition temporal_hints :: "zone \<Rightarrow> string \<Rightarrow> int \<Rightarrow> (py_error + dict) list" where
  "temporal_hints z lowered today =
     (let explicit_time = extract_time lowered in
      [hint (search_words [''today''] lowered) ''today'' (temporal_value z explicit_time today),
       hint (search_words [''tomorrow''] lowered) ''tomorrow'' (temporal_value z explicit_time (today + 1)),
       hint (search_words [''yesterday''] lowered) ''yesterday'' (temporal_value z explicit_time (today - 1)),
       hint (py_in ''next week'' lowered) ''next week'' (next_week z today),
       hint (py_in ''last week'' lowered) ''last week'' (last_week z today),
       hint (py_in ''last month'' lowered) ''last month'' (last_month z today)] @
      map (\<lambda>(name, wd). hint (py_in (''next '' @ name) lowered) (''next '' @ name)
             (next_weekday z explicit_time today wd)) weekday_names)"

text \<open>The three dates of \<open>single_dates\<close> are computed whether they are mentioned or not.\<close>

definition normalize_temporal_expressions ::
  "(string \<Rightarrow> py_error + zone) \<Rightarrow> string \<Rightarrow> datetime \<Rightarrow> string \<Rightarrow> py_error + dict" where
  "normalize_temporal_expressions zone_info txt reference timezone_name =
     (case zone_info timezone_name of
        Inl e \<Rightarrow> Inl e
      | Inr z \<Rightarrow>
          (case astimezone z reference of
             None \<Rightarrow> Inl OverflowError
           | Some local \<Rightarrow>
               (let today = date_ordinal local in
                if \<not> date_in_range (today + 1) \<or> \<not> date_in_range (today - 1) then Inl OverflowError
                else (case map_res id (temporal_hints z (py_lower txt) today) of
                        Inl e \<Rightarrow> Inl e | Inr hints \<Rightarrow> Inr (concat hints)))))"

lemma extract_time_examples:
  "extract_time ''lunch at 12.30 pm today'' = Some (12, 30)"
  "extract_time ''call at 9am'' = Some (9, 0)" "extract_time ''12 a.m.'' = Some (0, 0)"
  "extract_time ''13 pm or 5 apples'' = None"
  by code_simp+

section \<open>What the hints denote\<close>

text \<open>The days a phrase names on a given day: the first, and the one after the last.\<close>

definition denotes :: "int \<Rightarrow> string \<Rightarrow> int \<Rightarrow> int \<Rightarrow> bool" where
  "denotes today phrase first stop \<longleftrightarrow>
     phrase = ''today'' \<and> first = today \<and> stop = today + 1 \<or>
     phrase = ''tomorrow'' \<and> first = today + 1 \<and> stop = today + 2 \<or>
     phrase = ''yesterday'' \<and> first = today - 1 \<and> stop = today \<or>
     phrase = ''next week'' \<and> weekday first = 0 \<and> today < first \<and> first \<le> today + 7 \<and> stop = first + 7 \<or>
     phrase = ''last week'' \<and> weekday first = 0 \<and> stop = first + 7 \<and> stop \<le> today \<and> today < stop + 7 \<or>
     phrase = ''last month'' \<and> stop = first_of_month today \<and> first = first_of_month (stop - 1) \<or>
     (\<exists>(name, wd) \<in> set weekday_names. phrase = ''next '' @ name \<and> weekday first = wd \<and>
        today < first \<and> first \<le> today + 7 \<and> stop = first + 1)"

text \<open>A time stamp that reads back as the given time on the given day in the zone.\<close>

definition stamps :: "zone \<Rightarrow> int \<Rightarrow> nat \<times> nat \<Rightarrow> json \<Rightarrow> bool" where
  "stamps z n clock v \<longleftrightarrow>
     (\<exists>s t. v = JStr s \<and> datetime_fromisoformat s = Some t \<and> date_ordinal t = n \<and>
        hour t = fst clock \<and> minute t = snd clock \<and> second t = 0 \<and> microsecond t = 0 \<and>
        utcoffset t = Some (wall_offset z n (fst clock) (snd clock)))"

text \<open>A hint is the range of the days named, or the explicit time on the day named.\<close>

definition hint_means :: "zone \<Rightarrow> (nat \<times> nat) option \<Rightarrow> int \<Rightarrow> string \<Rightarrow> json \<Rightarrow> bool" where
  "hint_means z clock today phrase v \<longleftrightarrow>
     (\<exists>first stop. denotes today phrase first stop \<and>
        ((\<exists>a b. v = JObj [(''start'', a), (''end'', b)] \<and> stamps z first (0, 0) a \<and> stamps z stop (0, 0) b) \<or>
         (\<exists>a c. v = JObj [(''start'', a)] \<and> clock = Some c \<and> stop = first + 1 \<and> stamps z first c a)))"

text \<open>The offsets of a zone: less than a day, and at least a second when not zero.\<close>

definition zone_ok :: "zone \<Rightarrow> bool" where
  "zone_ok z \<longleftrightarrow> (\<forall>n h mi. whole_offset (Some (wall_offset z n h mi))) \<and>
     (\<forall>n. \<bar>offset_at z n\<bar> < 86400000000)"

lemma combine_sel:
  "hour (combine z n h mi) = h" "minute (combine z n h mi) = mi" "second (combine z n h mi) = 0"
  "microsecond (combine z n h mi) = 0" "utcoffset (combine z n h mi) = Some (wall_offset z n h mi)"
  by (simp_all add: combine_def split: prod.splits)

lemma stamps_combine:
  assumes "zone_ok z" and "date_in_range n" and "h < 24" "mi < 60"
  shows "stamps z n (h, mi) (JStr (isoformat (combine z n h mi)))"
proof -
  have off: "whole_offset (Some (wall_offset z n h mi))" using assms(1) by (simp add: zone_ok_def)
  then have "\<bar>wall_offset z n h mi\<bar> < 86400000000" by (simp add: whole_offset_def)
  note valid = combine_valid [OF assms(2-4) this]
  have "datetime_fromisoformat (isoformat (combine z n h mi)) = Some (combine z n h mi)"
    using valid(1) off by (intro isoformat_read_back) (simp_all add: combine_sel)
  with valid(2) show ?thesis by (simp add: stamps_def combine_sel)
qed

lemma digit_value_bound: "is_ascii_digit d \<Longrightarrow> digit_value d \<le> 9"
  by (auto simp: is_ascii_digit_def digit_value_def)

lemma minute_here_bound: "minute_here s = (mi, s') \<Longrightarrow> mi < 60"
proof (induction s rule: minute_here.induct)
  case (1 c d e s)
  have "d \<in> set ''012345'' \<Longrightarrow> digit_value d \<le> 5" by (auto simp: digit_value_def code_point_def)
  with 1 digit_value_bound [of e] show ?case by (fastforce split: if_splits)
qed simp_all

lemma time_here_bound: "time_here s = Some (h, mi) \<Longrightarrow> h < 24 \<and> mi < 60"
  by (auto simp: time_here_def dest: minute_here_bound split: option.splits prod.splits if_splits)

lemma extract_time_bound: "extract_time s = Some (h, mi) \<Longrightarrow> h < 24 \<and> mi < 60"
proof -
  have "search_time prev s = Some (h, mi) \<Longrightarrow> h < 24 \<and> mi < 60" for prev
    by (induction prev s rule: search_time.induct) (auto split: option.splits if_splits dest: time_here_bound)
  then show "extract_time s = Some (h, mi) \<Longrightarrow> h < 24 \<and> mi < 60" by (simp add: extract_time_def)
qed

lemma weekday_shift: "weekday (n + k) = (weekday n + k) mod 7"
  unfolding weekday_def by presburger

lemma weekday_bounds: "0 \<le> weekday n" "weekday n < 7"
  unfolding weekday_def by simp_all

lemma first_of_month_range:
  assumes "date_in_range n"
  shows "date_in_range (first_of_month n)"
proof -
  obtain y m d where ymd: "ord_to_ymd (nat n) = (y, m, d)" by (cases "ord_to_ymd (nat n)")
  from assms have range: "1 \<le> nat n" by (auto simp: date_in_range_def)
  note ok = ymd_of_ord [OF range ymd]
  from ok(1) assms have "int (ymd_to_ord y m d) = n" by (auto simp: date_in_range_def)
  with ok(5) assms show ?thesis
    by (simp add: first_of_month_def ymd date_in_range_def ymd_to_ord_def)
qed

lemma range_means:
  assumes "zone_ok z" and "date_in_range first" "date_in_range stop" and "denotes today phrase first stop"
  shows "hint_means z clock today phrase (date_range z first stop)"
  using assms stamps_combine [OF assms(1,2), of 0 0] stamps_combine [OF assms(1,3), of 0 0]
  unfolding hint_means_def date_range_def by (intro exI [of _ first] exI [of _ stop]) auto

lemma value_means:
  assumes "temporal_value z clock n = Inr v" and "zone_ok z" and "date_in_range n"
    and "denotes today phrase n (n + 1)" and "\<And>h mi. clock = Some (h, mi) \<Longrightarrow> h < 24 \<and> mi < 60"
  shows "hint_means z clock today phrase v"
proof (cases clock)
  case None
  with assms(1) have "v = date_range z n (n + 1)" "date_in_range (n + 1)"
    by (auto simp: temporal_value_def shift_date_def split: if_splits)
  with range_means [OF assms(2,3) _ assms(4)] show ?thesis by simp
next
  case (Some c)
  obtain h mi where c: "c = (h, mi)" by (cases c)
  with Some assms(1) have v: "v = JObj [(''start'', JStr (isoformat (combine z n h mi)))]"
    by (simp add: temporal_value_def)
  from Some c assms(5) have "h < 24" "mi < 60" by simp_all
  note st = stamps_combine [OF assms(2,3) this]
  show ?thesis unfolding hint_means_def v
    by (rule exI [of _ n], rule exI [of _ "n + 1"]) (use st assms(4) Some c in auto)
qed

lemma hint_all:
  assumes "hint b phrase r = Inr hs" and "\<And>v. r = Inr v \<Longrightarrow> hint_means z clock today phrase v"
  shows "list_all (\<lambda>(phrase, v). hint_means z clock today phrase v) hs"
  using assms by (auto simp: hint_def split: if_splits sum.splits)

lemma shift_date_Inr [simp]: "shift_date n k = Inr m \<longleftrightarrow> m = n + k \<and> date_in_range m"
  by (auto simp: shift_date_def)

lemma next_week_means:
  assumes "next_week z today = Inr v" and "zone_ok z"
  shows "hint_means z clock today ''next week'' v"
proof -
  let ?first = "today + (7 - weekday today)"
  from assms(1) have v: "v = date_range z ?first (?first + 7)"
    and range: "date_in_range ?first" "date_in_range (?first + 7)"
    by (auto simp: next_week_def split: sum.splits)
  have "weekday ?first = 0" using weekday_bounds [of today] unfolding weekday_shift by simp
  then have "denotes today ''next week'' ?first (?first + 7)"
    using weekday_bounds [of today] by (simp add: denotes_def)
  with range_means [OF assms(2) range] show ?thesis unfolding v by blast
qed

lemma last_week_means:
  assumes "last_week z today = Inr v" and "zone_ok z"
  shows "hint_means z clock today ''last week'' v"
proof -
  let ?stop = "today - weekday today"
  from assms(1) have v: "v = date_range z (?stop - 7) ?stop"
    and range: "date_in_range (?stop - 7)" "date_in_range ?stop"
    by (auto simp: last_week_def split: sum.splits)
  have "weekday (?stop - 7) = 0" unfolding weekday_def by presburger
  then have "denotes today ''last week'' (?stop - 7) ?stop"
    using weekday_bounds [of today] by (simp add: denotes_def)
  with range_means [OF assms(2) range] show ?thesis unfolding v by blast
qed

lemma last_month_means:
  assumes "last_month z today = Inr v" and "zone_ok z" and "date_in_range today"
  shows "hint_means z clock today ''last month'' v"
proof -
  let ?stop = "first_of_month today" and ?first = "first_of_month (first_of_month today - 1)"
  from assms(1) have v: "v = date_range z ?first ?stop" and before: "date_in_range (?stop - 1)"
    by (auto simp: last_month_def split: sum.splits)
  have "denotes today ''last month'' ?first ?stop" by (simp add: denotes_def)
  with range_means [OF assms(2) first_of_month_range [OF before] first_of_month_range [OF assms(3)]]
  show ?thesis unfolding v by blast
qed

lemma next_weekday_means:
  assumes "next_weekday z clock today wd = Inr v" and "zone_ok z" and "(name, wd) \<in> set weekday_names"
    and "\<And>h mi. clock = Some (h, mi) \<Longrightarrow> h < 24 \<and> mi < 60"
  shows "hint_means z clock today (''next '' @ name) v"
proof -
  let ?n = "today + days_ahead today wd"
  from assms(1) have v: "temporal_value z clock ?n = Inr v" and range: "date_in_range ?n"
    by (auto simp: next_weekday_def split: sum.splits)
  have wd: "0 \<le> wd" "wd < 7" using assms(3) by (auto simp: weekday_names_def)
  have ahead: "1 \<le> days_ahead today wd" "days_ahead today wd \<le> 7" "days_ahead today wd mod 7 = (wd - weekday today) mod 7"
    unfolding days_ahead_def Let_def by presburger+
  have "weekday ?n = (weekday today + (wd - weekday today)) mod 7"
    unfolding weekday_shift using ahead(3) by (metis mod_add_right_eq)
  with wd have "weekday ?n = wd" by simp
  with ahead assms(3) have "denotes today (''next '' @ name) ?n (?n + 1)"
    unfolding denotes_def by (intro disjI2) auto
  from value_means [OF v assms(2) range this assms(4)] show ?thesis .
qed

lemma temporal_hint_means:
  assumes "r \<in> set (temporal_hints z lowered today)" and "r = Inr hs" and "zone_ok z"
    and "date_in_range today" "date_in_range (today + 1)" "date_in_range (today - 1)"
  shows "list_all (\<lambda>(phrase, v). hint_means z (extract_time lowered) today phrase v) hs"
proof -
  note clock = extract_time_bound [of lowered]
  have days: "denotes today ''today'' today (today + 1)" "denotes today ''tomorrow'' (today + 1) (today + 1 + 1)"
    "denotes today ''yesterday'' (today - 1) (today - 1 + 1)"
    by (simp_all add: denotes_def)
  note vals = value_means [OF _ assms(3) assms(4) days(1) clock] value_means [OF _ assms(3) assms(5) days(2) clock]
    value_means [OF _ assms(3) assms(6) days(3) clock]
  from assms(1) consider
      (single) b phrase n where "r = hint b phrase (temporal_value z (extract_time lowered) n)"
        "phrase = ''today'' \<and> n = today \<or> phrase = ''tomorrow'' \<and> n = today + 1 \<or> phrase = ''yesterday'' \<and> n = today - 1"
    | (nextw) b where "r = hint b ''next week'' (next_week z today)"
    | (lastw) b where "r = hint b ''last week'' (last_week z today)"
    | (month) b where "r = hint b ''last month'' (last_month z today)"
    | (weekday) b name wd where "(name, wd) \<in> set weekday_names"
        "r = hint b (''next '' @ name) (next_weekday z (extract_time lowered) today wd)"
    by (auto simp: temporal_hints_def Let_def)
  then show ?thesis
  proof cases
    case single
    with vals assms(2) show ?thesis by (auto intro: hint_all)
  next
    case nextw
    with next_week_means assms(2,3) show ?thesis by (auto intro: hint_all)
  next
    case lastw
    with last_week_means assms(2,3) show ?thesis by (auto intro: hint_all)
  next
    case month
    with last_month_means assms(2-4) show ?thesis by (auto intro: hint_all)
  next
    case weekday
    from hint_all [OF _ next_weekday_means [OF _ assms(3) weekday(1) clock]] weekday(2) assms(2)
    show ?thesis by blast
  qed
qed

lemma date_ordinal_range: "valid_datetime t \<Longrightarrow> 1 \<le> date_ordinal t"
  by (simp add: valid_datetime_def valid_ymd_def date_ordinal_def ymd_to_ord_def)

text \<open>
  C16. Every hint given to the language model is what its phrase denotes on the day of the request
  in the user's time zone: the start reads back as the first instant of the first day named (or as
  the explicit time on it), and the end as the first instant after the last. \<open>next\<close> names of days
  lie within the coming seven days, \<open>last month\<close> is the whole previous calendar month, and weeks
  run from Monday to Monday.
\<close>

theorem temporal_hints_denote:
  assumes "normalize_temporal_expressions zone_info txt reference name = Inr hints"
    and "zone_info name = Inr z" "zone_ok z"
  shows "\<exists>local. astimezone z reference = Some local \<and> utc_micros local = utc_micros reference \<and>
    list_all (\<lambda>(phrase, v). hint_means z (extract_time (py_lower txt)) (date_ordinal local) phrase v) hints"
proof -
  from assms(1,2) obtain local hs where local: "astimezone z reference = Some local"
    and range: "date_in_range (date_ordinal local + 1)" "date_in_range (date_ordinal local - 1)"
    and hs: "map_res id (temporal_hints z (py_lower txt) (date_ordinal local)) = Inr hs" "hints = concat hs"
    by (auto simp: normalize_temporal_expressions_def Let_def split: option.splits if_splits sum.splits)
  have off: "\<bar>offset_at z (utc_micros reference)\<bar> < 86400000000" using assms(3) by (simp add: zone_ok_def)
  note sound = datetime_of_micros_sound [OF local [unfolded astimezone_def Let_def]]
  from sound(2,3) off have micros: "utc_micros local = utc_micros reference" by (simp add: utc_micros_def [of local])
  have today: "date_in_range (date_ordinal local)" using range by (simp add: date_in_range_def)
  have "list_all (\<lambda>(phrase, v). hint_means z (extract_time (py_lower txt)) (date_ordinal local) phrase v) h"
    if "h \<in> set hs" for h
  proof -
    from hs(1) that obtain r where "r \<in> set (temporal_hints z (py_lower txt) (date_ordinal local))" "id r = Inr h"
      by (rule map_res_elemE)
    then show ?thesis using temporal_hint_means [OF _ _ assms(3) today range] by simp
  qed
  with local micros show ?thesis unfolding hs(2) list_all_iff by auto
qed

definition sample_zone :: zone where
  "sample_zone = \<lparr>offset_at = \<lambda>_. 19800000000, wall_offset = \<lambda>_ _ _. 19800000000\<rparr>"

definition sample_reference :: datetime where
  "sample_reference = \<lparr>year = 2024, month = 5, day = 1, hour = 20, minute = 0, second = 0, microsecond = 0,
     utcoffset = Some 0\<rparr>"

lemma sample_local:
  "astimezone sample_zone sample_reference = Some \<lparr>year = 2024, month = 5, day = 2, hour = 1, minute = 30,
     second = 0, microsecond = 0, utcoffset = Some 19800000000\<rparr>"
  by (simp add: astimezone_def sample_zone_def sample_reference_def utc_micros_def local_micros_def
      datetime_of_micros_def max_ordinal_def ymd_to_ord_def days_before_year_def days_before_month_def
      days_in_month_def is_leap_def ord_to_ymd_def find_month_numeral Let_def)

lemma sample_mentions:
  "extract_time ''last week'' = None"
  "search_words [''today''] ''last week'' = False" "search_words [''tomorrow''] ''last week'' = False"
  "search_words [''yesterday''] ''last week'' = False" "py_in ''next week'' ''last week'' = False"
  "py_in ''last week'' ''last week'' = True" "py_in ''last month'' ''last week'' = False"
  "list_all (\<lambda>(name, wd). \<not> py_in (''next '' @ name) ''last week'') weekday_names"
  "py_lower ''last week'' = ''last week''"
  by code_simp+

lemma sample_hints:
  "normalize_temporal_expressions (\<lambda>_. Inr sample_zone) ''last week'' sample_reference ''Asia/Kolkata'' =
     Inr [(''last week'', date_range sample_zone 738998 739005)]"
proof -
  have day: "ymd_to_ord 2024 5 2 = 739008"
    by (simp add: ymd_to_ord_def days_before_year_def days_before_month_def days_in_month_def is_leap_def)
  have "\<not> py_in ''next monday'' ''last week''" "\<not> py_in ''next tuesday'' ''last week''"
    "\<not> py_in ''next wednesday'' ''last week''" "\<not> py_in ''next thursday'' ''last week''"
    "\<not> py_in ''next friday'' ''last week''" "\<not> py_in ''next saturday'' ''last week''"
    "\<not> py_in ''next sunday'' ''last week''"
    using sample_mentions(8) by (simp_all add: weekday_names_def)
  then show ?thesis
    by (simp add: normalize_temporal_expressions_def sample_local sample_mentions date_ordinal_def day
        date_in_range_def max_ordinal_def temporal_hints_def hint_def last_week_def weekday_def
        shift_date_def weekday_names_def Let_def)
qed

lemma temporal_hints_denote_witness:
  "\<exists>local. astimezone sample_zone sample_reference = Some local \<and> utc_micros local = utc_micros sample_reference \<and>
    hint_means sample_zone None (date_ordinal local) ''last week'' (date_range sample_zone 738998 739005)"
proof -
  have "zone_ok sample_zone" by (simp add: zone_ok_def sample_zone_def whole_offset_def)
  from temporal_hints_denote [OF sample_hints refl this] show ?thesis by (simp add: sample_mentions)
qed

end
