(* ===== verification/Classifier.thy ===== *)
theory Classifier
  imports Temporal Contracts Language_Model
begin

text \<open>
  \<open>IntentClassifier\<close> of \<open>app/orchestration/classifier.py\<close>: the payload for the language model, the
  validation of its answer with one repair attempt, and the clarification policy. The model is the
  parameter \<open>generate\<close>, see \<open>Language_Model\<close>; the prompts of the two attempts differ, so that a
  function of prompt and payload can answer them differently.
\<close>

section \<open>The clarification policy\<close>

definition read_only_request :: "string \<Rightarrow> bool" where
  "read_only_request query \<longleftrightarrow>
     search_phrases
       (map (\<lambda>w. [Lit w])
         [''find'', ''search'', ''show'', ''list'', ''locate'', ''retrieve'', ''prepare'', ''brief'',
          ''summarize'', ''summarise'', ''review'', ''identify'', ''what'' @ [CHR 0x27] @ ''s'',
          ''who'', ''when'', ''where''] @
        [[Lit ''what'', Spaces, Lit ''is'']]) query"

definition side_effecting_request :: "string \<Rightarrow> bool" where
  "side_effecting_request query \<longleftrightarrow>
     search_words
       [''send'', ''delete'', ''remove'', ''move'', ''reschedule'', ''schedule'', ''create'', ''share'',
        ''invite'', ''cancel'', ''update'', ''edit'', ''rename'', ''draft'', ''reply'', ''forward'',
        ''upload'', ''modify''] query"

text \<open>The pattern \<open>inboxes?\<close> matches \<open>inboxe\<close> and \<open>inboxes\<close>, but not \<open>inbox\<close>.\<close>

definition service_hints :: "(service \<times> string list) list" where
  "service_hints =
     [(GMAIL, [''gmail'', ''email'', ''emails'', ''e-mail'', ''e-mails'', ''message'', ''messages'', ''inboxe'', ''inboxes'']),
      (GOOGLE_CALENDAR, [''calendar'', ''calendars'', ''meeting'', ''meetings'', ''event'', ''events'',
         ''interview'', ''interviews'', ''appointment'', ''appointments'']),
      (GOOGLE_DRIVE, [''drive'', ''file'', ''files'', ''document'', ''documents'', ''doc'', ''docs'', ''folder'', ''folders''])]"

fun add_hinted :: "string \<Rightarrow> (service \<times> string list) list \<Rightarrow> service list \<Rightarrow> service list" where
  "add_hinted query [] services = services"
| "add_hinted query ((svc, words) # rest) services =
     add_hinted query rest
       (if svc \<notin> set services \<and> search_words words query then services @ [svc] else services)"

definition apply_clarification_policy :: "string \<Rightarrow> intent \<Rightarrow> intent" where
  "apply_clarification_policy query i =
     (if \<not> requires_clarification i \<or> side_effecting_request query \<or> \<not> read_only_request query then i
      else
        (let services = add_hinted query service_hints (required_services i) in
         if services = [] then i
         else i\<lparr>required_services := services, requires_clarification := False,
                clarification_question := None\<rparr>))"

section \<open>Classification\<close>

definition repair_instruction :: string where
  "repair_instruction =
     ''The previous response did not satisfy the required Intent schema. '' @
     ''Return only one JSON object with valid field names, service enum values, '' @
     ''and JSON-compatible entity values.''"

definition intent_prompts :: "string list" where
  "intent_prompts =
     [intent_system_prompt, intent_system_prompt @ newline @ newline @ repair_instruction]"

fun classify_attempts ::
  "(string \<Rightarrow> json \<Rightarrow> py_error + dict) \<Rightarrow> json \<Rightarrow> string \<Rightarrow> string list \<Rightarrow> py_error + intent" where
  "classify_attempts generate payload query [] =
     Inl (LLMProviderError ''Intent classifier returned invalid output after a repair attempt'')"
| "classify_attempts generate payload query (prompt # prompts) =
     (case generate prompt payload of
        Inl e \<Rightarrow> Inl e
      | Inr result \<Rightarrow>
          (case intent_model_validate (JObj result) of
             Inl _ \<Rightarrow> classify_attempts generate payload query prompts
           | Inr i \<Rightarrow>
               (let i' = apply_clarification_policy query i in
                if \<not> requires_clarification i' \<and> required_services i' = []
                then classify_attempts generate payload query prompts
                else Inr i')))"

definition classify_payload ::
  "string \<Rightarrow> (string \<times> string) list \<Rightarrow> datetime \<Rightarrow> string \<Rightarrow> dict \<Rightarrow> json" where
  "classify_payload query context reference_time timezone_name hints = JObj
     [(''query'', JStr query),
      (''recent_context'', JList (map (\<lambda>(role, content).
         JObj [(''role'', JStr role), (''content'', JStr content)]) context)),
      (''reference_time'', JStr (isoformat reference_time)),
      (''timezone'', JStr timezone_name),
      (''temporal_hints'', JObj hints)]"

definition classify ::
  "(string \<Rightarrow> py_error + zone) \<Rightarrow> (string \<Rightarrow> json \<Rightarrow> py_error + dict) \<Rightarrow> string \<Rightarrow> (string \<times> string) list \<Rightarrow>
   datetime \<Rightarrow> string \<Rightarrow> py_error + intent" where
  "classify zone_info generate query context reference_time timezone_name =
     (case normalize_temporal_expressions zone_info query reference_time timezone_name of
        Inl e \<Rightarrow> Inl e
      | Inr hints \<Rightarrow>
          classify_attempts generate (classify_payload query context reference_time timezone_name hints)
            query intent_prompts)"

section \<open>Laws\<close>

lemma add_hinted_sound:
  "distinct services \<Longrightarrow> distinct (add_hinted query hs services) \<and> set services \<subseteq> set (add_hinted query hs services)"
proof (induction query hs services rule: add_hinted.induct)
  case (2 query svc words rest services)
  then show ?case by (cases "svc \<notin> set services \<and> search_words words query") auto
qed simp

lemma apply_clarification_policy_sound:
  assumes "distinct (required_services i)" and "i' = apply_clarification_policy query i"
  shows "distinct (required_services i')" and "set (required_services i) \<subseteq> set (required_services i')"
    and "intent_name i' = intent_name i" and "extracted_entities i' = extracted_entities i"
    and "requires_clarification i \<Longrightarrow> \<not> requires_clarification i' \<Longrightarrow>
      \<not> side_effecting_request query \<and> read_only_request query \<and> required_services i' \<noteq> []"
    and "\<not> requires_clarification i \<Longrightarrow> i' = i"
  using assms(1) add_hinted_sound [OF assms(1), of query service_hints]
  unfolding assms(2) apply_clarification_policy_def Let_def by (auto split: if_splits)

lemma classify_attempts_Inr:
  assumes "classify_attempts generate payload query prompts = Inr i"
  shows "\<exists>prompt \<in> set prompts. \<exists>result j. generate prompt payload = Inr result \<and>
    intent_model_validate (JObj result) = Inr j \<and> i = apply_clarification_policy query j \<and>
    (requires_clarification i \<or> required_services i \<noteq> [])"
  using assms
proof (induction generate payload query prompts rule: classify_attempts.induct)
  case (2 generate payload query prompt prompts)
  show ?case
  proof (cases "classify_attempts generate payload query prompts = Inr i")
    case True
    with "2.IH" "2.prems" show ?thesis by (fastforce simp: Let_def split: sum.splits if_splits)
  next
    case False
    with "2.prems" obtain result j where "generate prompt payload = Inr result"
      "intent_model_validate (JObj result) = Inr j" "i = apply_clarification_policy query j"
      "requires_clarification i \<or> required_services i \<noteq> []"
      by (auto simp: Let_def split: sum.splits if_splits)
    then show ?thesis by auto
  qed
qed simp

text \<open>The model is asked at most twice, and the only errors are its own.\<close>

lemma classify_attempts_Inl:
  assumes "classify_attempts generate payload query prompts = Inl e"
  shows "(\<exists>prompt \<in> set prompts. generate prompt payload = Inl e) \<or>
    e = LLMProviderError ''Intent classifier returned invalid output after a repair attempt''"
  using assms
  by (induction generate payload query prompts rule: classify_attempts.induct)
    (auto simp: Let_def split: sum.splits if_splits)

lemma intent_model_validate_distinct:
  "intent_model_validate v = Inr i \<Longrightarrow> distinct (required_services i)"
  by (auto simp: intent_model_validate_def required_services_must_be_unique_def sum_case_Inr_iff
      split: json.splits if_splits)

lemma intent_model_validate_fix:
  assumes "intent_model_validate v = Inr i" and "distinct ss"
  shows "intent_model_validate (intent_dump (i\<lparr>required_services := ss, requires_clarification := rc,
      clarification_question := q\<rparr>)) =
    Inr (i\<lparr>required_services := ss, requires_clarification := rc, clarification_question := q\<rparr>)"
proof -
  from assms(1) have "validate_nonempty_str (JStr (intent_name i)) = Inr (intent_name i)"
    by (auto simp: intent_model_validate_def required_field_def sum_case_Inr_iff validate_nonempty_str_def
        split: json.splits option.splits if_splits)
  moreover have "validate_list validate_service (Some (JList (map (\<lambda>s. JStr (service_value s)) ss))) = Inr ss"
    by (simp add: validate_list_def map_res_map)
  moreover have "validate_bool (JBool rc) = Inr rc" by (simp add: validate_bool_def)
  moreover have "validate_optional_str (Some (case q of None \<Rightarrow> JNull | Some q \<Rightarrow> JStr q)) = Inr q"
    by (cases q) (simp_all add: validate_optional_str_def)
  ultimately show ?thesis using assms(2)
    by (simp add: intent_model_validate_def intent_dump_def step_fields required_services_must_be_unique_def)
qed

lemma apply_clarification_policy_form:
  "\<exists>ss rc q. apply_clarification_policy query i =
     i\<lparr>required_services := ss, requires_clarification := rc, clarification_question := q\<rparr>"
  unfolding apply_clarification_policy_def Let_def
  by (cases i) (auto split: if_splits)

text \<open>
  C15. The classified intent is one the model answered in one of at most two attempts, changed only
  where the policy allows it: a request for clarification is dropped only when the query asks for
  reading and names no side effect, and only in favour of at least one service. The intent is again
  a valid one, and one that needs no clarification selects a service.
\<close>

theorem clarification_dropped_only_for_reads:
  assumes "classify zone_info generate query context reference_time timezone_name = Inr i"
  shows "intent_model_validate (intent_dump i) = Inr i \<and>
    (requires_clarification i \<or> required_services i \<noteq> []) \<and>
    (\<exists>prompt payload result j. prompt \<in> set intent_prompts \<and> generate prompt payload = Inr result \<and>
       intent_model_validate (JObj result) = Inr j \<and> intent_name i = intent_name j \<and>
       extracted_entities i = extracted_entities j \<and> set (required_services j) \<subseteq> set (required_services i) \<and>
       (i = j \<or> requires_clarification j \<and> \<not> side_effecting_request query \<and> read_only_request query))"
proof -
  from assms obtain payload where "classify_attempts generate payload query intent_prompts = Inr i"
    by (auto simp: classify_def split: sum.splits)
  from classify_attempts_Inr [OF this] obtain prompt result j where prompt: "prompt \<in> set intent_prompts"
    "generate prompt payload = Inr result" and j: "intent_model_validate (JObj result) = Inr j"
    and i: "i = apply_clarification_policy query j" and some: "requires_clarification i \<or> required_services i \<noteq> []"
    by blast
  have dist: "distinct (required_services j)" by (rule intent_model_validate_distinct [OF j])
  note policy = apply_clarification_policy_sound [OF dist i]
  obtain ss rc q where form: "i = j\<lparr>required_services := ss, requires_clarification := rc, clarification_question := q\<rparr>"
    using apply_clarification_policy_form [of query j] i by blast
  with policy(1) have "distinct ss" by simp
  from intent_model_validate_fix [OF j this] form have "intent_model_validate (intent_dump i) = Inr i" by blast
  moreover have "i = j \<or> requires_clarification j \<and> \<not> side_effecting_request query \<and> read_only_request query"
    unfolding i apply_clarification_policy_def by simp
  ultimately show ?thesis using prompt j policy(2-4) some by blast
qed

definition sample_model_intent :: dict where
  "sample_model_intent =
     [(''intent_name'', JStr ''find_mail''), (''required_services'', JList []),
      (''requires_clarification'', JBool True), (''clarification_question'', JStr ''Which?'')]"

lemma sample_classified:
  "classify_attempts (\<lambda>_ _. Inr sample_model_intent) payload ''find email'' intent_prompts =
     Inr \<lparr>intent_name = ''find_mail'', required_services = [GMAIL], extracted_entities = [],
          requires_clarification = False, clarification_question = None\<rparr>"
  "classify_attempts (\<lambda>_ _. Inr sample_model_intent) payload ''find and send email'' intent_prompts =
     Inr \<lparr>intent_name = ''find_mail'', required_services = [], extracted_entities = [],
          requires_clarification = True, clarification_question = Some ''Which?''\<rparr>"
  by code_simp+

lemma sample_no_mentions:
  "py_lower ''find email'' = ''find email''" "extract_time ''find email'' = None"
  "list_all (\<lambda>w. \<not> search_words [w] ''find email'') [''today'', ''tomorrow'', ''yesterday'']"
  "list_all (\<lambda>w. \<not> py_in w ''find email'')
     [''next week'', ''last week'', ''last month'', ''next monday'', ''next tuesday'', ''next wednesday'',
      ''next thursday'', ''next friday'', ''next saturday'', ''next sunday'']"
  by code_simp+

lemma sample_no_hints:
  "normalize_temporal_expressions (\<lambda>_. Inr sample_zone) ''find email'' sample_reference ''Asia/Kolkata'' = Inr []"
proof -
  have "ymd_to_ord 2024 5 2 = 739008"
    by (simp add: ymd_to_ord_def days_before_year_def days_before_month_def days_in_month_def is_leap_def)
  with sample_no_mentions(3,4) show ?thesis
    by (simp add: normalize_temporal_expressions_def sample_local sample_no_mentions(1,2) date_ordinal_def
        date_in_range_def max_ordinal_def temporal_hints_def hint_def weekday_names_def Let_def)
qed

lemma clarification_dropped_only_for_reads_witness:
  "\<exists>i. classify (\<lambda>_. Inr sample_zone) (\<lambda>_ _. Inr sample_model_intent) ''find email'' [] sample_reference ''Asia/Kolkata'' = Inr i \<and>
     \<not> requires_clarification i \<and> required_services i \<noteq> [] \<and> \<not> side_effecting_request ''find email''"
proof -
  let ?i = "\<lparr>intent_name = ''find_mail'', required_services = [GMAIL], extracted_entities = [],
    requires_clarification = False, clarification_question = None\<rparr>"
  have run: "classify (\<lambda>_. Inr sample_zone) (\<lambda>_ _. Inr sample_model_intent) ''find email'' [] sample_reference
      ''Asia/Kolkata'' = Inr ?i"
    by (simp add: classify_def sample_no_hints sample_classified)
  have "intent_model_validate (JObj sample_model_intent) \<noteq> Inr ?i" by code_simp
  with clarification_dropped_only_for_reads [OF run] have "\<not> side_effecting_request ''find email''" by auto
  with run show ?thesis by auto
qed

end
