(* ===== verification/Planner.thy ===== *)
theory Planner
  imports Classifier Registry
begin

text \<open>
  \<open>QueryPlanner\<close> of \<open>app/orchestration/planner.py\<close>: the plan the language model proposes is
  validated, brought in line with the intent, routed through the workspace index where the query
  asks for context, and validated against the registry; a plan that fails is asked for once more.

  The model and \<open>ZoneInfo\<close> are parameters. Exceptions other than \<open>ValueError\<close> leave the planner;
  \<open>py_error\<close> keeps them apart. The reference time inside \<open>canonical_arguments\<close> is the one
  \<open>create_plan\<close> passes, which is aware.
\<close>

section \<open>Times of an event\<close>

definition timestamp_required :: py_error where
  "timestamp_required = ValueError ''Calendar event start must be an ISO-8601 timestamp''"

definition default_end_time :: "json \<Rightarrow> int \<Rightarrow> py_error + json" where
  "default_end_time start duration_minutes =
     (case start of
        JStr s \<Rightarrow>
          (case datetime_fromisoformat (replace_z s) of
             None \<Rightarrow> Inl timestamp_required
           | Some t \<Rightarrow>
               if \<not> is_aware t then Inl (ValueError ''Calendar event start must include a timezone'')
               else (case add_minutes t duration_minutes of
                       None \<Rightarrow> Inl OverflowError
                     | Some u \<Rightarrow> Inr (JStr (isoformat u))))
      | _ \<Rightarrow> Inl timestamp_required)"

text \<open>\<open>max((current, start), key=fromisoformat)\<close>: the first of the two unless the second is later.\<close>

definition timestamp_key :: "json \<Rightarrow> py_error + datetime" where
  "timestamp_key v =
     (case v of
        JStr s \<Rightarrow>
          (case datetime_fromisoformat (replace_z s) of
             None \<Rightarrow> Inl (ValueError (''Invalid isoformat string: '' @ repr_string (replace_z s)))
           | Some t \<Rightarrow> Inr t)
      | _ \<Rightarrow> Inl AttributeError)"

definition later_timestamp :: "json \<Rightarrow> json \<Rightarrow> py_error + json" where
  "later_timestamp current start =
     (case timestamp_key current of Inl e \<Rightarrow> Inl e | Inr t \<Rightarrow>
      (case timestamp_key start of Inl e \<Rightarrow> Inl e | Inr u \<Rightarrow>
       (if is_aware t \<noteq> is_aware u then Inl TypeError
        else Inr (if utc_micros t < utc_micros u then start else current))))"

section \<open>What the query asks for\<close>

definition event_words :: "string list" where
  "event_words = [''meeting'', ''event'', ''interview'', ''appointment'']"

definition requests_google_meet :: "string \<Rightarrow> bool" where
  "requests_google_meet query \<longleftrightarrow> search_phrases [[Lit ''google'', Spaces, Lit ''meet'']] query"

definition requests_singular_upcoming_event :: "string \<Rightarrow> intent \<Rightarrow> bool" where
  "requests_singular_upcoming_event query i \<longleftrightarrow>
     (case py_get (extracted_entities i) ''event_selector'' of
        JStr s \<Rightarrow> py_lower s \<in> {''next'', ''upcoming''} | _ \<Rightarrow> False) \<or>
     search_gap_from [[Lit ''next''], [Lit ''upcoming'']] 160
       (\<lambda>c. c \<in> set (CHR 0x0A # '',.!?'')) (map (\<lambda>w. [Lit w]) event_words) None query"

definition requests_contextual_retrieval :: "string \<Rightarrow> bool" where
  "requests_contextual_retrieval query \<longleftrightarrow>
     search_words [''related'', ''relevant'', ''context'', ''contextual'', ''prepare'', ''brief'', ''material''] query \<and>
     search_words event_words query"

definition contextual_services :: "string \<Rightarrow> string list" where
  "contextual_services query =
     (let mail = search_words [''email'', ''emails'', ''message'', ''messages'', ''gmail'', ''inbox''] query;
          files = search_words [''file'', ''files'', ''document'', ''documents'', ''doc'', ''docs'', ''drive''] query in
      if mail \<or> files then (if mail then [''gmail''] else []) @ (if files then [''google_drive''] else [])
      else if search_words [''prepare'', ''brief'', ''context'', ''material''] query
      then [''gmail'', ''google_drive''] else [])"

section \<open>Canonical arguments\<close>

definition event_duration :: "dict \<Rightarrow> int \<Rightarrow> int" where
  "event_duration entities dflt =
     (case py_get entities ''duration_minutes'' of JInt i \<Rightarrow> (if i < 1 then dflt else i) | _ \<Rightarrow> dflt)"

definition event_times :: "dict \<Rightarrow> int \<Rightarrow> dict \<Rightarrow> py_error + dict" where
  "event_times entities dflt args =
     (case py_or (py_get entities ''start_time'') (py_get entities ''start'') of
        JStr s \<Rightarrow>
          (case py_or (py_get entities ''end_time'') (py_get entities ''end'') of
             JStr e \<Rightarrow> Inr (dict_set ''end'' (JStr e) (dict_set ''start'' (JStr s) args))
           | _ \<Rightarrow>
               (case default_end_time (JStr s) (event_duration entities dflt) of
                  Inl err \<Rightarrow> Inl err
                | Inr e \<Rightarrow> Inr (dict_set ''end'' e (dict_set ''start'' (JStr s) args))))
      | _ \<Rightarrow>
          (if has_key args ''start'' \<and> \<not> has_key args ''end'' then
             (case default_end_time (py_get args ''start'') dflt of
                Inl err \<Rightarrow> Inl err | Inr e \<Rightarrow> Inr (dict_set ''end'' e args))
           else Inr args))"

definition event_guests :: "dict \<Rightarrow> dict \<Rightarrow> dict" where
  "event_guests entities args =
     (case py_get entities ''attendees'' of
        JList xs \<Rightarrow>
          (if list_all is_nonempty_str xs then dict_set ''attendees'' (JList xs) args
           else (case py_get entities ''attendee_email'' of
                   JStr e \<Rightarrow> dict_set ''attendees'' (JList [JStr e]) args | _ \<Rightarrow> args))
      | _ \<Rightarrow>
          (case py_get entities ''attendee_email'' of
             JStr e \<Rightarrow> dict_set ''attendees'' (JList [JStr e]) args | _ \<Rightarrow> args))"

definition create_event_arguments :: "intent \<Rightarrow> string \<Rightarrow> string \<Rightarrow> int \<Rightarrow> dict \<Rightarrow> py_error + dict" where
  "create_event_arguments i query timezone_name dflt args =
     (case event_times (extracted_entities i) dflt args of
        Inl e \<Rightarrow> Inl e
      | Inr args' \<Rightarrow>
          Inr (dict_set ''create_google_meet'' (JBool (requests_google_meet query))
            (dict_set ''timezone'' (JStr timezone_name) (event_guests (extracted_entities i) args'))))"

definition workspace_search_arguments :: "intent \<Rightarrow> string \<Rightarrow> dict \<Rightarrow> dict" where
  "workspace_search_arguments i query args =
     (let args' = (if has_key args ''query'' then args else dict_set ''query'' (JStr query) args);
          requested = filter (\<lambda>s. s \<noteq> WORKSPACE) (required_services i) in
      if \<not> has_key args' ''services'' \<and> requested \<noteq> []
      then dict_set ''services'' (JList (map (\<lambda>s. JStr (service_value s)) requested)) args'
      else args')"

definition upcoming_arguments :: "zone \<Rightarrow> datetime \<Rightarrow> dict \<Rightarrow> py_error + dict" where
  "upcoming_arguments z reference_time args =
     (case astimezone z reference_time of
        None \<Rightarrow> Inl OverflowError
      | Some t \<Rightarrow> Inr (dict_set ''max_results'' (JInt 1) (dict_set ''time_min'' (JStr (isoformat t)) args)))"

text \<open>The range the classifier extracted, when both ends are strings.\<close>

definition intent_window :: "dict \<Rightarrow> (string \<times> string) option" where
  "intent_window entities =
     (case (case py_get entities ''date_range'' of JObj d \<Rightarrow> Some d
            | _ \<Rightarrow> (case py_get entities ''time_range'' of JObj d \<Rightarrow> Some d | _ \<Rightarrow> None)) of
        None \<Rightarrow> None
      | Some d \<Rightarrow>
          (case (py_get d ''start'', py_get d ''end'') of (JStr s, JStr e) \<Rightarrow> Some (s, e) | _ \<Rightarrow> None))"

definition date_part :: "string \<Rightarrow> string" where
  "date_part s = takeWhile (\<lambda>c. c \<noteq> CHR ''T'') s"

definition drop_aliases :: "dict \<Rightarrow> dict" where
  "drop_aliases args =
     fold dict_pop [''date_range'', ''time_range'', ''start_date'', ''end_date'', ''time_minimum'', ''time_maximum''] args"

definition apply_window :: "service \<Rightarrow> string \<Rightarrow> string \<Rightarrow> string \<Rightarrow> dict \<Rightarrow> py_error + dict" where
  "apply_window svc op start stop args =
     (if svc = GOOGLE_CALENDAR \<and> op = ''search_events'' then
        (case (case dict_get args ''time_min'' of
                 None \<Rightarrow> Inr (JStr start) | Some v \<Rightarrow> later_timestamp v (JStr start)) of
           Inl e \<Rightarrow> Inl e
         | Inr lower \<Rightarrow>
             Inr (drop_aliases (dict_set ''time_max'' (JStr stop) (dict_set ''time_min'' lower args))))
      else if svc = GMAIL \<and> op = ''search_emails'' then
        Inr (drop_aliases (dict_set ''date_to'' (JStr (date_part stop))
          (dict_set ''date_from'' (JStr (date_part start)) args)))
      else if svc = GOOGLE_DRIVE \<and> op = ''search_files'' then
        Inr (drop_aliases (dict_set ''modified_before'' (JStr stop) (dict_set ''modified_after'' (JStr start) args)))
      else if svc = WORKSPACE \<and> op = ''workspace_search'' then
        Inr (drop_aliases (dict_set ''date_to'' (JStr stop) (dict_set ''date_from'' (JStr start) args)))
      else Inr args)"

definition canonical_arguments ::
  "service \<Rightarrow> string \<Rightarrow> dict \<Rightarrow> intent \<Rightarrow> string \<Rightarrow> zone \<Rightarrow> string \<Rightarrow> int \<Rightarrow> datetime \<Rightarrow> py_error + dict" where
  "canonical_arguments svc op args i query z timezone_name dflt reference_time =
     (case (if svc = GOOGLE_CALENDAR \<and> op = ''create_event''
            then create_event_arguments i query timezone_name dflt args else Inr args) of
        Inl e \<Rightarrow> Inl e
      | Inr args1 \<Rightarrow>
          (let args2 = (if svc = WORKSPACE \<and> op = ''workspace_search''
                        then workspace_search_arguments i query args1 else args1) in
           case (if svc = GOOGLE_CALENDAR \<and> op = ''search_events'' \<and> requests_singular_upcoming_event query i
                 then upcoming_arguments z reference_time args2 else Inr args2) of
             Inl e \<Rightarrow> Inl e
           | Inr args3 \<Rightarrow>
               (case intent_window (extracted_entities i) of
                  None \<Rightarrow> Inr args3
                | Some (start, stop) \<Rightarrow> apply_window svc op start stop args3)))"

section \<open>Routing through the workspace index\<close>

definition is_calendar_search :: "execution_step \<Rightarrow> bool" where
  "is_calendar_search s \<longleftrightarrow> service s = GOOGLE_CALENDAR \<and> operation s = ''search_events''"

text \<open>The service whose native search a step runs, when it is one to route.\<close>

definition native_target :: "execution_step \<Rightarrow> string option" where
  "native_target s =
     (if service s = GMAIL \<and> operation s = ''search_emails'' then Some ''gmail''
      else if service s = GOOGLE_DRIVE \<and> operation s = ''search_files'' then Some ''google_drive''
      else None)"

definition event_reference :: "string \<Rightarrow> json" where
  "event_reference calendar_id =
     JObj [(''$step'', JStr calendar_id), (''path'', JList [JStr ''events'', JInt 0])]"

definition context_arguments :: "string \<Rightarrow> string \<Rightarrow> dict" where
  "context_arguments calendar_id target =
     [(''query'', event_reference calendar_id), (''services'', JList [JStr target]), (''top_k'', JInt 5)]"

definition route_step :: "string list \<Rightarrow> execution_step \<Rightarrow> execution_step" where
  "route_step calendar_ids s =
     (case (native_target s, find (\<lambda>d. d \<in> set calendar_ids) (depends_on s)) of
        (Some target, Some calendar_id) \<Rightarrow>
          s\<lparr>service := WORKSPACE, operation := ''workspace_search'',
            arguments := context_arguments calendar_id target\<rparr>
      | _ \<Rightarrow> s)"

text \<open>The strings met when iterating over a value; iterating over a scalar is a \<open>TypeError\<close>.\<close>

fun strings_in :: "json \<Rightarrow> py_error + string list" where
  "strings_in (JList xs) = Inr (List.map_filter (\<lambda>v. case v of JStr s \<Rightarrow> Some s | _ \<Rightarrow> None) xs)"
| "strings_in (JObj d) = Inr (dict_keys d)"
| "strings_in (JStr s) = Inr (map (\<lambda>c. [c]) s)"
| "strings_in _ = Inl TypeError"

definition step_services :: "execution_step \<Rightarrow> py_error + string list" where
  "step_services s =
     (if service s = WORKSPACE \<and> operation s = ''workspace_search''
      then strings_in (dict_get_or (arguments s) ''services'' (JList [])) else Inr [])"

text \<open>\<open>workspace_gmail\<close>, or with the first suffix from 2 on that is not taken.\<close>

definition suffixed :: "string \<Rightarrow> nat \<Rightarrow> string" where
  "suffixed base n = base @ ''_'' @ string_of_nat n"

lemma digits_value_string_of_nat: "digits_value (string_of_nat n) = n"
proof (induction n rule: string_of_nat.induct)
  case (1 n)
  have d: "k < 10 \<Longrightarrow> digit_value (char_of (48 + k)) = k" for k :: nat
    by (simp add: digit_value_def code_point_def)
  show ?case
  proof (cases "n < 10")
    case True
    then show ?thesis by (simp add: string_of_nat.simps [of n] digits_value_def d)
  next
    case False
    with 1 have "foldl (\<lambda>n c. 10 * n + digit_value c) 0 (string_of_nat (n div 10)) = n div 10"
      by (simp add: digits_value_def)
    with False show ?thesis by (simp add: string_of_nat.simps [of n] digits_value_def d)
  qed
qed

lemma suffixed_eq: "suffixed base m = suffixed base n \<longleftrightarrow> m = n"
  using digits_value_string_of_nat unfolding suffixed_def by (metis append_same_eq same_append_eq)

lemma finite_suffixes: "finite {m. n \<le> m \<and> suffixed base m \<in> set used}"
proof -
  have "inj_on (suffixed base) {m. n \<le> m \<and> suffixed base m \<in> set used}" by (simp add: inj_on_def suffixed_eq)
  moreover have "suffixed base ` {m. n \<le> m \<and> suffixed base m \<in> set used} \<subseteq> set used" by auto
  ultimately show ?thesis by (meson List.finite_set finite_subset finite_imageD)
qed

function fresh_suffix :: "string list \<Rightarrow> string \<Rightarrow> nat \<Rightarrow> string" where
  "fresh_suffix used base n =
     (if suffixed base n \<in> set used then fresh_suffix used base (Suc n) else suffixed base n)"
  by pat_completeness auto

termination
proof (relation "measure (\<lambda>(used, base, n). card {m. n \<le> m \<and> suffixed base m \<in> set used})")
  fix used base n
  assume "suffixed base n \<in> set used"
  then have "n \<in> {m. n \<le> m \<and> suffixed base m \<in> set used} - {m. Suc n \<le> m \<and> suffixed base m \<in> set used}" by simp
  moreover have "{m. Suc n \<le> m \<and> suffixed base m \<in> set used} \<subseteq> {m. n \<le> m \<and> suffixed base m \<in> set used}" by auto
  ultimately have "{m. Suc n \<le> m \<and> suffixed base m \<in> set used} \<subset> {m. n \<le> m \<and> suffixed base m \<in> set used}" by blast
  then show "((used, base, Suc n), used, base, n) \<in>
      measure (\<lambda>(used, base, n). card {m. n \<le> m \<and> suffixed base m \<in> set used})"
    by (simp add: psubset_card_mono finite_suffixes)
qed simp

declare fresh_suffix.simps [simp del]

definition fresh_step_id :: "string list \<Rightarrow> string \<Rightarrow> string" where
  "fresh_step_id used base = (if base \<in> set used then fresh_suffix used base 2 else base)"

fun add_context_steps :: "string \<Rightarrow> string list \<Rightarrow> execution_step list \<Rightarrow> execution_step list" where
  "add_context_steps calendar_id [] routed = routed"
| "add_context_steps calendar_id (target # targets) routed =
     add_context_steps calendar_id targets
       (routed @ [\<lparr>step_id = fresh_step_id (map step_id routed) (''workspace_'' @ target), service = WORKSPACE,
         operation = ''workspace_search'', arguments = context_arguments calendar_id target,
         depends_on = [calendar_id]\<rparr>])"

definition route_contextual_retrieval :: "string \<Rightarrow> execution_step list \<Rightarrow> py_error + execution_step list" where
  "route_contextual_retrieval query ss =
     (let calendar_ids = map step_id (filter is_calendar_search ss) in
      if \<not> requests_contextual_retrieval query \<or> calendar_ids = [] then Inr ss
      else
        (let routed = map (route_step calendar_ids) ss in
         case map_res step_services routed of
           Inl e \<Rightarrow> Inl e
         | Inr present \<Rightarrow>
             Inr (add_context_steps (hd calendar_ids)
               (filter (\<lambda>t. t \<notin> set (concat present)) (contextual_services query)) routed)))"

section \<open>Creating a plan\<close>

definition canonical_step ::
  "intent \<Rightarrow> string \<Rightarrow> zone \<Rightarrow> string \<Rightarrow> int \<Rightarrow> datetime \<Rightarrow> execution_step \<Rightarrow> py_error + execution_step" where
  "canonical_step i query z timezone_name dflt reference_time s =
     (case canonical_arguments (service s) (operation s) (arguments s) i query z timezone_name dflt reference_time of
        Inl e \<Rightarrow> Inl e | Inr args \<Rightarrow> Inr (s\<lparr>arguments := args\<rparr>))"

definition apply_intent_constraints ::
  "intent \<Rightarrow> string \<Rightarrow> zone \<Rightarrow> string \<Rightarrow> int \<Rightarrow> datetime \<Rightarrow> execution_plan \<Rightarrow> py_error + execution_plan" where
  "apply_intent_constraints i query z timezone_name dflt reference_time p =
     (case map_res (canonical_step i query z timezone_name dflt reference_time) (steps p) of
        Inl e \<Rightarrow> Inl e
      | Inr ss \<Rightarrow>
          (case route_contextual_retrieval query ss of
             Inl e \<Rightarrow> Inl e | Inr ss' \<Rightarrow> Inr \<lparr>steps = ss'\<rparr>))"

text \<open>A \<open>ValidationError\<close> is a \<open>ValueError\<close>; only these are caught.\<close>

definition validation_exception :: "validation_error + 'a \<Rightarrow> py_error + 'a" where
  "validation_exception r =
     (case r of
        Inr x \<Rightarrow> Inr x
      | Inl (LookupRaised s) \<Rightarrow> Inl (KeyError s)
      | Inl _ \<Rightarrow> Inl (ValueError ''ExecutionPlan''))"

definition is_value_error :: "py_error \<Rightarrow> bool" where
  "is_value_error e = (case e of ValueError _ \<Rightarrow> True | _ \<Rightarrow> False)"

definition checked_plan ::
  "registry \<Rightarrow> intent \<Rightarrow> string \<Rightarrow> zone \<Rightarrow> string \<Rightarrow> int \<Rightarrow> datetime \<Rightarrow> dict \<Rightarrow> py_error + execution_plan" where
  "checked_plan reg i query z timezone_name dflt reference_time result =
     (case validation_exception (plan_model_validate (JObj result)) of Inl e \<Rightarrow> Inl e | Inr p \<Rightarrow>
      (case apply_intent_constraints i query z timezone_name dflt reference_time p of Inl e \<Rightarrow> Inl e | Inr p' \<Rightarrow>
      (case registry_validate_plan reg p' of Inl e \<Rightarrow> Inl e | Inr _ \<Rightarrow> Inr p')))"

definition planner_prompt :: "bool \<Rightarrow> string" where
  "planner_prompt repair =
     (if \<not> repair then planner_system_prompt
      else planner_system_prompt @ newline @ newline @
        ''The previous response did not satisfy the ExecutionPlan schema or '' @
        ''operation catalog. Return only a corrected JSON plan using declared '' @
        ''services, operations, argument names, and valid dependencies.'')"

definition planning_rules :: "string list" where
  "planning_rules =
     [''Use only argument names declared by the selected operation specification.'',
      ''For calendar search date ranges use time_min and time_max.'',
      ''For Gmail search date ranges use date_from and date_to.'',
      ''For Drive search date ranges use modified_after and modified_before.'',
      ''Use workspace.workspace_search for semantic or cross-service contextual discovery.'',
      ''Use native Google operations for exact IDs, fresh authoritative reads, and writes.'']"

definition spec_json :: "operation_spec \<Rightarrow> json" where
  "spec_json sp = JObj
     ([(''description'', JStr (description sp)),
       (''required_arguments'', JObj (map (\<lambda>(k, v). (k, JStr v)) (required_arguments sp))),
       (''optional_arguments'', JObj (map (\<lambda>(k, v). (k, JStr v)) (optional_arguments sp)))] @
      (case result_shape sp of None \<Rightarrow> [] | Some v \<Rightarrow> [(''result_shape'', v)]) @
      (case reference_examples sp of None \<Rightarrow> [] | Some v \<Rightarrow> [(''reference_examples'', v)]))"

definition prompt_catalog :: json where
  "prompt_catalog = JObj (map (\<lambda>(svc, ops). (svc, JObj (map (\<lambda>(op, sp). (op, spec_json sp)) ops)))
     planner_operation_catalog)"

definition planner_payload :: "string \<Rightarrow> intent \<Rightarrow> string \<Rightarrow> datetime \<Rightarrow> int \<Rightarrow> json" where
  "planner_payload query i timezone_name local dflt = JObj
     [(''query'', JStr query), (''intent'', intent_dump i), (''operation_catalog'', prompt_catalog),
      (''user_timezone'', JStr timezone_name), (''reference_time'', JStr (isoformat local)),
      (''default_meeting_duration_minutes'', JInt dflt),
      (''planning_rules'', JList (map JStr planning_rules))]"

definition aware_utc :: "datetime \<Rightarrow> datetime" where
  "aware_utc t = (if is_aware t then t else t\<lparr>utcoffset := Some 0\<rparr>)"

text \<open>The repair attempt is the recursive call, once.\<close>

function create_plan ::
  "registry \<Rightarrow> (string \<Rightarrow> py_error + zone) \<Rightarrow> (string \<Rightarrow> json \<Rightarrow> py_error + dict) \<Rightarrow> string \<Rightarrow> intent \<Rightarrow> string \<Rightarrow>
   int \<Rightarrow> datetime \<Rightarrow> bool \<Rightarrow> py_error + execution_plan" where
  "create_plan reg zone_info generate query i timezone_name dflt reference_time repair =
     (case zone_info timezone_name of Inl e \<Rightarrow> Inl e | Inr z \<Rightarrow>
      (case astimezone z (aware_utc reference_time) of None \<Rightarrow> Inl OverflowError | Some local \<Rightarrow>
      (case generate (planner_prompt repair) (planner_payload query i timezone_name local dflt) of
         Inl e \<Rightarrow> Inl e
       | Inr result \<Rightarrow>
           (case checked_plan reg i query z timezone_name dflt (aware_utc reference_time) result of
              Inr p \<Rightarrow> Inr p
            | Inl e \<Rightarrow>
                if \<not> is_value_error e then Inl e
                else if repair then Inl (LLMProviderError ''Planner returned an invalid execution plan'')
                else create_plan reg zone_info generate query i timezone_name dflt (aware_utc reference_time) True))))"
  by pat_completeness auto

termination
  by (relation "measure (\<lambda>(reg, zone_info, generate, query, i, timezone_name, dflt, reference_time, repair).
    if repair then 0 else 1)") simp_all

declare create_plan.simps [simp del]

end
