(* ===== verification/Planner_Valid.thy ===== *)
theory Planner_Valid
  imports Planner
begin

text \<open>
  The plans \<open>create_plan\<close> returns. Pydantic validates the model's answer only; the changes the
  planner makes afterwards go through \<open>model_copy\<close>, which validates nothing. The lemmas show that
  each change keeps what the graph validation has established.
\<close>

section \<open>Fields of a step\<close>

text \<open>What the validation of a step's fields depends on.\<close>

definition names_ok :: "execution_step \<Rightarrow> bool" where
  "names_ok s \<longleftrightarrow> validate_identifier (JStr (step_id s)) = Inr (step_id s) \<and>
     validate_operation_name (JStr (operation s)) = Inr (operation s) \<and>
     (\<forall>d \<in> set (depends_on s). validate_identifier (JStr d) = Inr d) \<and> distinct (depends_on s)"

lemma validate_identifiers:
  "map_res validate_identifier (map JStr ds) = Inr ds \<longleftrightarrow> (\<forall>d \<in> set ds. validate_identifier (JStr d) = Inr d)"
  by (simp add: map_res_Inr list_all2_conv_all_nth all_set_conv_all_nth)

lemma step_dump_iff: "step_model_validate (step_dump s) = Inr s \<longleftrightarrow> names_ok s"
proof (cases s)
  case (fields i svc op args ds)
  have "step_model_validate (step_dump s) = Inr s \<longleftrightarrow>
      validate_identifier (JStr i) = Inr i \<and> validate_operation_name (JStr op) = Inr op \<and>
      map_res validate_identifier (map JStr ds) = Inr ds \<and> distinct ds"
    unfolding fields
    by (cases "validate_identifier (JStr i)"; cases "validate_operation_name (JStr op)";
        cases "map_res validate_identifier (map JStr ds)")
      (auto simp: step_model_validate_def step_dump_def step_fields validate_list_def)
  then show ?thesis by (auto simp: fields names_ok_def validate_identifiers)
qed

lemma accepted_plan:
  assumes "plan_model_validate v = Inr p"
  shows "valid_plan p" and "\<forall>s \<in> set (steps p). names_ok s"
proof -
  from assms obtain xs where xs: "map_res step_model_validate xs = Inr (steps p)" and "valid_plan p"
    by (auto simp: plan_model_validate_Inr)
  then show "valid_plan p" by simp
  from xs show "\<forall>s \<in> set (steps p). names_ok s"
    unfolding step_dump_iff [symmetric] by (auto elim: map_res_elemE intro: step_model_validate_fix)
qed

lemma plan_dump_accepted:
  assumes "valid_plan p" and "\<forall>s \<in> set (steps p). names_ok s"
  shows "plan_model_validate (plan_dump p) = Inr p"
proof -
  have "map_res step_model_validate (map step_dump (steps p)) = Inr (steps p)"
    using assms(2) by (intro map_res_map) (simp add: step_dump_iff)
  with assms(1) show ?thesis by (simp add: plan_model_validate_Inr plan_dump_def only_fields_def dict_keys_def)
qed

section \<open>Arguments\<close>

text \<open>
  Changing arguments adds no references and does not remove the key that makes a dict a
  reference.
\<close>

definition extends :: "dict \<Rightarrow> dict \<Rightarrow> bool" where
  "extends old new \<longleftrightarrow>
     (\<forall>kv \<in> set new. kv \<in> set old \<or> find_step_references (snd kv) = []) \<and>
     (has_key old ''$step'' \<longrightarrow> has_key new ''$step'')"

lemma extends_refl [simp, intro]: "extends d d"
  by (simp add: extends_def)

lemma extends_trans [trans]: "extends a b \<Longrightarrow> extends b c \<Longrightarrow> extends a c"
  unfolding extends_def by blast

lemma set_dict_set: "set (dict_set k v d) \<subseteq> insert (k, v) (set d)"
  by (induction d) auto

lemma extends_set: "find_step_references v = [] \<Longrightarrow> extends d (dict_set k v d)"
  using set_dict_set [of k v d] by (auto simp: extends_def has_key_set)

lemma extends_pop: "k \<noteq> ''$step'' \<Longrightarrow> extends d (dict_pop k d)"
  by (auto simp: extends_def dict_pop_def has_key_def)

lemma extends_pop_step: "extends a b \<Longrightarrow> k \<noteq> ''$step'' \<Longrightarrow> extends a (dict_pop k b)"
  by (rule extends_trans [OF _ extends_pop])

lemma extends_drop_aliases: "extends d (drop_aliases d)"
  unfolding drop_aliases_def fold.simps comp_def id_def by (intro extends_pop_step extends_refl) simp_all

text \<open>Setting one more key.\<close>

lemma extends_set_step: "extends a b \<Longrightarrow> find_step_references v = [] \<Longrightarrow> extends a (dict_set k v b)"
  by (rule extends_trans [OF _ extends_set])

lemma no_refs_strings: "list_all is_nonempty_str xs \<Longrightarrow> find_refs_list xs = []"
proof (induction xs)
  case (Cons x xs)
  then show ?case by (cases x) (auto simp: is_nonempty_str_def)
qed simp

lemma no_refs_map: "find_refs_list (map (\<lambda>x. JStr (f x)) xs) = []"
  by (induction xs) auto

lemma default_end_time_refs: "default_end_time v n = Inr e \<Longrightarrow> find_step_references e = []"
  by (auto simp: default_end_time_def split: json.splits option.splits if_splits)

lemma later_timestamp_refs: "later_timestamp v w = Inr u \<Longrightarrow> find_step_references u = []"
  by (auto simp: later_timestamp_def timestamp_key_def split: json.splits sum.splits option.splits if_splits)

lemma event_times_extends: "event_times entities dflt args = Inr new \<Longrightarrow> extends args new"
  by (auto simp: event_times_def split: json.splits sum.splits if_splits
      intro!: extends_set_step dest: default_end_time_refs)

lemma event_guests_extends: "extends args (event_guests entities args)"
  by (auto simp: event_guests_def no_refs_strings split: json.splits intro!: extends_set_step)

lemma create_event_extends:
  "create_event_arguments i query tz dflt args = Inr new \<Longrightarrow> extends args new"
  by (auto simp: create_event_arguments_def split: sum.splits
      intro!: extends_set_step intro: extends_trans [OF event_times_extends event_guests_extends])

lemma workspace_search_extends: "extends args (workspace_search_arguments i query args)"
  by (auto simp: workspace_search_arguments_def Let_def no_refs_map intro!: extends_set_step)

lemma upcoming_extends: "upcoming_arguments z t args = Inr new \<Longrightarrow> extends args new"
  by (auto simp: upcoming_arguments_def split: option.splits intro!: extends_set_step)

lemma apply_window_extends: "apply_window svc op start stop args = Inr new \<Longrightarrow> extends args new"
  by (auto simp: apply_window_def split: if_splits sum.splits option.splits
      intro!: extends_trans [OF _ extends_drop_aliases] extends_set_step dest: later_timestamp_refs)

lemma canonical_extends:
  assumes "canonical_arguments svc op args i query z tz dflt now = Inr new"
  shows "extends args new"
proof -
  from assms obtain args1 args3 where
    1: "(if svc = GOOGLE_CALENDAR \<and> op = ''create_event'' then create_event_arguments i query tz dflt args
         else Inr args) = Inr args1"
    and 3: "(if svc = GOOGLE_CALENDAR \<and> op = ''search_events'' \<and> requests_singular_upcoming_event query i
         then upcoming_arguments z now (if svc = WORKSPACE \<and> op = ''workspace_search''
           then workspace_search_arguments i query args1 else args1)
         else Inr (if svc = WORKSPACE \<and> op = ''workspace_search''
           then workspace_search_arguments i query args1 else args1)) = Inr args3"
    and last: "(case intent_window (extracted_entities i) of None \<Rightarrow> Inr args3
         | Some (start, stop) \<Rightarrow> apply_window svc op start stop args3) = Inr new"
    unfolding canonical_arguments_def Let_def by (elim sum_caseE)
  from 1 have "extends args args1" by (auto split: if_splits dest: create_event_extends)
  also have "extends args1 (if svc = WORKSPACE \<and> op = ''workspace_search''
      then workspace_search_arguments i query args1 else args1)"
    using workspace_search_extends by simp
  also from 3 have "extends \<dots> args3" by (auto split: if_splits dest: upcoming_extends)
  also from last have "extends args3 new" by (auto split: option.splits dest: apply_window_extends)
  finally show ?thesis .
qed

text \<open>References of a dict that is not one itself.\<close>

lemma find_refs_items_set:
  "set (find_refs_items d) = (\<Union>kv \<in> set d. set (find_step_references (snd kv)))"
  by (induction d) auto

lemma extends_declared:
  assumes "extends args new" and "\<not> has_key new ''$step''" and "references_declared s" and "arguments s = args"
  shows "references_declared (s\<lparr>arguments := new\<rparr>)"
proof -
  from assms(1,2) have plain: "\<not> has_key args ''$step''" by (auto simp: extends_def)
  have "set (find_refs_items new) \<subseteq> set (find_refs_items args)"
    using assms(1) unfolding find_refs_items_set extends_def by fastforce
  with assms(2-4) plain show ?thesis by (auto simp: references_declared_def)
qed

section \<open>The steps of a plan\<close>

text \<open>The part of \<open>valid_plan\<close> that does not speak of arguments.\<close>

definition graph_ok :: "execution_step list \<Rightarrow> bool" where
  "graph_ok ss \<longleftrightarrow> distinct (map step_id ss) \<and>
     (\<forall>s \<in> set ss. set (depends_on s) \<subseteq> set (map step_id ss) - {step_id s}) \<and>
     acyclic {(d, step_id s) |d s. s \<in> set ss \<and> d \<in> set (depends_on s)}"

lemma valid_plan_iff:
  "valid_plan p \<longleftrightarrow> graph_ok (steps p) \<and> (\<forall>s \<in> set (steps p). references_declared s)"
  by (auto simp: valid_plan_def graph_ok_def plan_ids_def plan_deps_def)

text \<open>Steps with the same ids and dependencies, in the same order.\<close>

definition same_graph :: "execution_step list \<Rightarrow> execution_step list \<Rightarrow> bool" where
  "same_graph ss ts \<longleftrightarrow> list_all2 (\<lambda>s t. step_id t = step_id s \<and> depends_on t = depends_on s) ss ts"

lemma same_graph_ids: "same_graph ss ts \<Longrightarrow> map step_id ts = map step_id ss"
  unfolding same_graph_def by (induction rule: list_all2_induct) simp_all

lemma same_graph_edges:
  assumes "same_graph ss ts"
  shows "(\<lambda>s. (step_id s, depends_on s)) ` set ts = (\<lambda>s. (step_id s, depends_on s)) ` set ss"
proof -
  from assms have "map (\<lambda>s. (step_id s, depends_on s)) ts = map (\<lambda>s. (step_id s, depends_on s)) ss"
    unfolding same_graph_def by (induction rule: list_all2_induct) simp_all
  then have "set (map (\<lambda>s. (step_id s, depends_on s)) ts) = set (map (\<lambda>s. (step_id s, depends_on s)) ss)" by simp
  then show ?thesis by simp
qed

lemma graph_ok_edges:
  "graph_ok ss \<longleftrightarrow> distinct (map step_id ss) \<and>
     (\<forall>e \<in> (\<lambda>s. (step_id s, depends_on s)) ` set ss. set (snd e) \<subseteq> set (map step_id ss) - {fst e}) \<and>
     acyclic {(d, fst e) |d e. e \<in> (\<lambda>s. (step_id s, depends_on s)) ` set ss \<and> d \<in> set (snd e)}"
proof -
  have "{(d, fst e) |d e. e \<in> (\<lambda>s. (step_id s, depends_on s)) ` set ss \<and> d \<in> set (snd e)} =
      {(d, step_id s) |d s. s \<in> set ss \<and> d \<in> set (depends_on s)}" by auto
  then show ?thesis unfolding graph_ok_def by simp
qed

lemma graph_ok_same: "same_graph ss ts \<Longrightarrow> graph_ok ss \<Longrightarrow> graph_ok ts"
  unfolding graph_ok_edges same_graph_ids same_graph_edges .

section \<open>Routing\<close>

lemma identifier_no_space: "identifier_pattern x \<Longrightarrow> \<forall>c \<in> set x. \<not> unicode_space c"
  by (cases x) (auto simp: identifier_pattern_def identifier_char_def list_all_iff unicode_space_def
      is_ascii_alpha_def is_ascii_digit_def code_point_def Let_def)

lemma validate_identifier_iff: "validate_identifier (JStr x) = Inr x \<longleftrightarrow> identifier_pattern x"
proof
  assume "identifier_pattern x"
  moreover from this have "strip_with unicode_space x = x" by (intro strip_with_id identifier_no_space)
  moreover have "x \<noteq> []" using \<open>identifier_pattern x\<close> by (auto simp: identifier_pattern_def)
  ultimately show "validate_identifier (JStr x) = Inr x" by (simp add: validate_identifier_def)
qed (auto simp: validate_identifier_def Let_def split: if_splits)

lemma context_references:
  assumes "identifier_pattern c"
  shows "find_step_references (JObj (context_arguments c target)) = [Inr c]"
  using assms unfolding context_arguments_def event_reference_def
  by (simp add: reference_model_validate_def only_fields_def dict_keys_def required_field_def
      validate_identifier_iff [symmetric])

lemma context_declared:
  assumes "identifier_pattern c" and "c \<in> set (depends_on s)" and "arguments s = context_arguments c target"
  shows "references_declared s"
  unfolding references_declared_def assms(3) context_references [OF assms(1)] using assms(2) by simp

lemma workspace_search_named: "validate_operation_name (JStr ''workspace_search'') = Inr ''workspace_search''"
  by code_simp

lemma route_step_graph: "step_id (route_step ids s) = step_id s" "depends_on (route_step ids s) = depends_on s"
  by (simp_all add: route_step_def split: option.splits)

lemma route_step_cases:
  obtains "route_step ids s = s"
  | target c where "c \<in> set ids" "c \<in> set (depends_on s)" "native_target s = Some target"
      "route_step ids s = s\<lparr>service := WORKSPACE, operation := ''workspace_search'', arguments := context_arguments c target\<rparr>"
proof (cases "native_target s")
  case (Some target)
  show ?thesis
  proof (cases "find (\<lambda>d. d \<in> set ids) (depends_on s)")
    case (Some c)
    from find_Some_iff [THEN iffD1, OF Some] have "c \<in> set ids" "c \<in> set (depends_on s)" by auto
    with Some \<open>native_target s = Some target\<close> that(2) show ?thesis by (simp add: route_step_def)
  qed (use that(1) in \<open>simp add: route_step_def split: option.splits\<close>)
qed (use that(1) in \<open>simp add: route_step_def\<close>)

lemma route_step_ok:
  assumes "names_ok s"
  shows "names_ok (route_step ids s)" and "route_step ids s = s \<or> references_declared (route_step ids s)"
proof (atomize (full), cases rule: route_step_cases [of ids s])
  case (2 target c)
  with assms have "identifier_pattern c" by (simp add: names_ok_def validate_identifier_iff)
  with 2 have "references_declared (route_step ids s)" by (intro context_declared [of c]) simp_all
  with assms 2(4) show "names_ok (route_step ids s) \<and> (route_step ids s = s \<or> references_declared (route_step ids s))"
    using workspace_search_named by (simp add: names_ok_def)
qed (use assms in simp)

lemma route_same_graph: "same_graph ss (map (route_step ids) ss)"
  by (simp add: same_graph_def list_all2_map2 list_all2_same route_step_graph)

section \<open>Additional steps\<close>

lemma fresh_suffix_new: "fresh_suffix used base n \<notin> set used \<and> (\<exists>m. fresh_suffix used base n = suffixed base m)"
proof (induction used base n rule: fresh_suffix.induct)
  case (1 used base n)
  then show ?case by (cases "suffixed base n \<in> set used") (auto simp: fresh_suffix.simps [of used base n])
qed

lemma fresh_step_id_new: "fresh_step_id used base \<notin> set used"
  using fresh_suffix_new by (simp add: fresh_step_id_def)

lemma digits_identifier: "list_all identifier_char (string_of_nat n)"
proof (induction n rule: string_of_nat.induct)
  case (1 n)
  have "k < 10 \<Longrightarrow> identifier_char (char_of (48 + k))" for k :: nat
    by (simp add: identifier_char_def is_ascii_digit_def code_point_def)
  with 1 show ?case by (cases "n < 10") (simp_all add: string_of_nat.simps [of n])
qed

lemma fresh_step_id_pattern:
  assumes "target \<in> {''gmail'', ''google_drive''}"
  shows "identifier_pattern (fresh_step_id used (''workspace_'' @ target))"
proof -
  have base: "identifier_pattern (''workspace_'' @ target)" using assms by auto code_simp+
  have "identifier_pattern (suffixed (''workspace_'' @ target) m)" for m
    using base digits_identifier [of m]
    by (auto simp: suffixed_def identifier_pattern_def identifier_char_def)
  moreover obtain m where "fresh_suffix used (''workspace_'' @ target) 2 = suffixed (''workspace_'' @ target) m"
    using fresh_suffix_new by blast
  ultimately show ?thesis using base by (simp add: fresh_step_id_def)
qed

text \<open>A step that depends on an existing step, and that nothing depends on, keeps the graph acyclic.\<close>

lemma graph_ok_add:
  assumes "graph_ok ss" and "c \<in> set (map step_id ss)" and "new \<notin> set (map step_id ss)"
    and "step_id t = new" "depends_on t = [c]"
  shows "graph_ok (ss @ [t])"
proof -
  let ?E = "{(d, step_id s) |d s. s \<in> set ss \<and> d \<in> set (depends_on s)}"
  have deps: "fst e \<in> set (map step_id ss)" if "e \<in> ?E" for e
  proof -
    from that obtain d s where "e = (d, step_id s)" "s \<in> set ss" "d \<in> set (depends_on s)" by blast
    with assms(1) show ?thesis unfolding graph_ok_def by auto
  qed
  have "{(d, step_id s) |d s. s \<in> set (ss @ [t]) \<and> d \<in> set (depends_on s)} = insert (c, new) ?E"
    using assms(4,5) by auto (rule exI [of _ t], simp)
  moreover have "(new, c) \<notin> ?E\<^sup>*"
  proof
    assume "(new, c) \<in> ?E\<^sup>*"
    then show False
    proof (cases rule: converse_rtranclE)
      case base
      with assms(2,3) show False by simp
    next
      case (step y)
      with deps [of "(new, y)"] assms(3) show False by simp
    qed
  qed
  ultimately have "acyclic {(d, step_id s) |d s. s \<in> set (ss @ [t]) \<and> d \<in> set (depends_on s)}"
    using assms(1) by (simp add: acyclic_insert graph_ok_def)
  moreover have "\<forall>s \<in> set (ss @ [t]). set (depends_on s) \<subseteq> set (map step_id (ss @ [t])) - {step_id s}"
    using assms by (fastforce simp: graph_ok_def)
  ultimately show ?thesis using assms by (simp add: graph_ok_def)
qed

text \<open>Sound steps, apart from the references of those whose arguments are kept.\<close>

definition steps_ok :: "execution_step list \<Rightarrow> execution_step list \<Rightarrow> bool" where
  "steps_ok kept ss \<longleftrightarrow> graph_ok ss \<and> (\<forall>s \<in> set ss. names_ok s \<and> (s \<in> set kept \<or> references_declared s))"

lemma add_context_steps_ok:
  assumes "steps_ok kept ss" and "c \<in> set (map step_id ss)" and "set targets \<subseteq> {''gmail'', ''google_drive''}"
  shows "steps_ok kept (add_context_steps c targets ss)"
  using assms
proof (induction c targets ss rule: add_context_steps.induct)
  case (2 c target targets ss)
  let ?id = "fresh_step_id (map step_id ss) (''workspace_'' @ target)"
  let ?t = "\<lparr>step_id = ?id, service = WORKSPACE, operation = ''workspace_search'',
    arguments = context_arguments c target, depends_on = [c]\<rparr>"
  from "2.prems"(2) obtain s where "s \<in> set ss" "step_id s = c" by auto
  with "2.prems"(1) have c: "identifier_pattern c"
    by (auto simp: steps_ok_def names_ok_def validate_identifier_iff)
  have "identifier_pattern ?id" using "2.prems"(3) by (intro fresh_step_id_pattern) simp
  with c have "names_ok ?t" using workspace_search_named by (simp add: names_ok_def validate_identifier_iff)
  moreover from c have "references_declared ?t" by (rule context_declared) simp_all
  moreover have "graph_ok (ss @ [?t])"
    using "2.prems"(1,2) fresh_step_id_new [of "map step_id ss" "''workspace_'' @ target"]
    by (intro graph_ok_add) (simp_all add: steps_ok_def)
  ultimately have "steps_ok kept (ss @ [?t])" using "2.prems"(1) by (auto simp: steps_ok_def)
  with 2 show ?case by simp
qed simp

lemma contextual_services_native: "set (contextual_services query) \<subseteq> {''gmail'', ''google_drive''}"
  by (auto simp: contextual_services_def Let_def)

lemma route_ok:
  assumes "graph_ok ss" and "\<forall>s \<in> set ss. names_ok s" and "route_contextual_retrieval query ss = Inr ts"
  shows "steps_ok ss ts"
proof (cases "\<not> requests_contextual_retrieval query \<or> map step_id (filter is_calendar_search ss) = []")
  case True
  with assms show ?thesis by (simp add: route_contextual_retrieval_def steps_ok_def)
next
  case False
  let ?ids = "map step_id (filter is_calendar_search ss)"
  from False assms(3) obtain present where
    ts: "ts = add_context_steps (hd ?ids) (filter (\<lambda>t. t \<notin> set (concat present)) (contextual_services query))
      (map (route_step ?ids) ss)"
    by (auto simp: route_contextual_retrieval_def Let_def split: sum.splits)
  from False have "hd ?ids \<in> set ?ids" by (intro hd_in_set) simp
  then have "hd ?ids \<in> set (map step_id (map (route_step ?ids) ss))"
    using same_graph_ids [OF route_same_graph [of ss ?ids]] by auto
  moreover have "names_ok t \<and> (t \<in> set ss \<or> references_declared t)" if "t \<in> set (map (route_step ?ids) ss)" for t
  proof -
    from that obtain s where "s \<in> set ss" "t = route_step ?ids s" by auto
    with assms(2) route_step_ok [of s ?ids] show ?thesis by auto
  qed
  then have "steps_ok ss (map (route_step ?ids) ss)"
    using graph_ok_same [OF route_same_graph assms(1)] unfolding steps_ok_def by blast
  moreover have "set (filter (\<lambda>t. t \<notin> set (concat present)) (contextual_services query)) \<subseteq> {''gmail'', ''google_drive''}"
    using contextual_services_native [of query] by auto
  ultimately show ?thesis unfolding ts by (intro add_context_steps_ok)
qed

section \<open>Plans the planner returns\<close>

lemma registered_plain:
  assumes "validate_operation_arguments svc op args allow_refs = Inr ()"
  shows "\<not> has_key args ''$step''"
proof
  assume "has_key args ''$step''"
  with assms obtain required optional where "spec_argument_names svc op = Some (required, optional)"
    "''$step'' \<in> set required \<union> set optional"
    by (auto simp: validate_operation_arguments_Inr has_key_def dict_keys_def)
  then show False by (cases svc) (auto simp: spec_argument_names_eq split: if_splits)
qed

lemma canonical_steps_ok:
  assumes "map_res (canonical_step i query z tz dflt now) ss = Inr ts"
  shows "same_graph ss ts" and "\<And>t. t \<in> set ts \<Longrightarrow> \<exists>s \<in> set ss. \<exists>args.
    t = s\<lparr>arguments := args\<rparr> \<and> canonical_arguments (service s) (operation s) (arguments s) i query z tz dflt now = Inr args"
proof -
  from assms have all2: "list_all2 (\<lambda>s t. canonical_step i query z tz dflt now s = Inr t) ss ts"
    by (simp add: map_res_Inr)
  then show "same_graph ss ts" unfolding same_graph_def
    by (rule list_all2_mono) (auto simp: canonical_step_def split: sum.splits)
  fix t assume "t \<in> set ts"
  with assms obtain s where "s \<in> set ss" "canonical_step i query z tz dflt now s = Inr t" by (rule map_res_elemE)
  then show "\<exists>s \<in> set ss. \<exists>args. t = s\<lparr>arguments := args\<rparr> \<and>
      canonical_arguments (service s) (operation s) (arguments s) i query z tz dflt now = Inr args"
    by (auto simp: canonical_step_def split: sum.splits)
qed

lemma checked_planE:
  assumes "checked_plan reg i query z tz dflt now result = Inr p"
  obtains p0 ss where "plan_model_validate (JObj result) = Inr p0"
    and "map_res (canonical_step i query z tz dflt now) (steps p0) = Inr ss"
    and "route_contextual_retrieval query ss = Inr (steps p)"
    and "registry_validate_plan reg p = Inr ()"
  using assms
  by (auto simp: checked_plan_def apply_intent_constraints_def validation_exception_def
      split: sum.splits validation_error.splits)

lemma checked_plan_ok:
  assumes "checked_plan reg i query z tz dflt now result = Inr p"
  shows "plan_model_validate (plan_dump p) = Inr p" and "registry_validate_plan reg p = Inr ()"
proof -
  from assms obtain p0 ss where p0: "plan_model_validate (JObj result) = Inr p0"
    and ss: "map_res (canonical_step i query z tz dflt now) (steps p0) = Inr ss"
    and route: "route_contextual_retrieval query ss = Inr (steps p)"
    and reg: "registry_validate_plan reg p = Inr ()"
    by (rule checked_planE)
  from reg show "registry_validate_plan reg p = Inr ()" .
  note model = accepted_plan [OF p0] and canonical = canonical_steps_ok [OF ss]
  have "graph_ok ss" using model(1) graph_ok_same [OF canonical(1)] by (simp add: valid_plan_iff)
  moreover have "\<forall>s \<in> set ss. names_ok s" using model(2) canonical(2) by (fastforce simp: names_ok_def)
  ultimately have ok: "steps_ok ss (steps p)" using route by (rule route_ok)
  have "references_declared t" if t: "t \<in> set (steps p)" for t
  proof (cases "t \<in> set ss")
    case True
    from canonical(2) [OF this] obtain s args where s: "s \<in> set (steps p0)" "t = s\<lparr>arguments := args\<rparr>"
      and args: "canonical_arguments (service s) (operation s) (arguments s) i query z tz dflt now = Inr args" by blast
    from reg t have "validate_operation_arguments (service t) (operation t) (arguments t) True = Inr ()"
      by (simp add: registry_validate_plan_Inr)
    from registered_plain [OF this] s(2) have "\<not> has_key args ''$step''" by simp
    moreover have "references_declared s" using s(1) model(1) by (simp add: valid_plan_iff)
    ultimately show ?thesis unfolding s(2) by (intro extends_declared [OF canonical_extends [OF args]]) simp_all
  qed (use ok t in \<open>auto simp: steps_ok_def\<close>)
  with ok show "plan_model_validate (plan_dump p) = Inr p"
    by (intro plan_dump_accepted) (auto simp: steps_ok_def valid_plan_iff)
qed

text \<open>The reference time is made aware before the first attempt; the second leaves it.\<close>

lemma aware_utc_twice: "aware_utc (aware_utc t) = aware_utc t"
  by (simp add: aware_utc_def)

lemma create_plan_Inr:
  assumes "create_plan reg zone_info generate query i tz dflt now repair = Inr p"
  shows "\<exists>z result. zone_info tz = Inr z \<and> checked_plan reg i query z tz dflt (aware_utc now) result = Inr p"
  using assms
proof (induction reg zone_info generate query i tz dflt now repair rule: create_plan.induct)
  case (1 reg zone_info generate query i tz dflt now repair)
  from "1.prems" obtain z local result where run: "zone_info tz = Inr z" "astimezone z (aware_utc now) = Some local"
    "generate (planner_prompt repair) (planner_payload query i tz local dflt) = Inr result"
    by (auto simp: create_plan.simps [of reg zone_info generate query i tz dflt now repair]
        split: sum.splits option.splits)
  show ?case
  proof (cases "checked_plan reg i query z tz dflt (aware_utc now) result")
    case (Inr q)
    with "1.prems" run show ?thesis
      by (auto simp: create_plan.simps [of reg zone_info generate query i tz dflt now repair])
  next
    case (Inl e)
    with "1.prems" run have "create_plan reg zone_info generate query i tz dflt (aware_utc now) True = Inr p"
      "is_value_error e" "\<not> repair"
      by (auto simp: create_plan.simps [of reg zone_info generate query i tz dflt now repair] split: if_splits)
    with "1.IH" [OF run Inl] show ?thesis by (simp add: aware_utc_twice)
  qed
qed

text \<open>
  C13. Every plan the planner returns, although the planner changes the validated plan without
  validating it again, is a valid execution plan: distinct step ids, declared and acyclic
  dependencies, references only to declared dependencies; and each of its operations and arguments
  passes the registry. Both validations accept it unchanged, so that it is executed to the end.
\<close>

theorem planner_returns_valid_plans:
  assumes "create_plan reg zone_info generate query i timezone_name dflt reference_time False = Inr p"
  shows "plan_model_validate (plan_dump p) = Inr p \<and> registry_validate_plan reg p = Inr ()"
  using create_plan_Inr [OF assms] checked_plan_ok by blast

definition context_query :: string where
  "context_query = ''brief me on the meeting''"

definition context_result :: dict where
  "context_result = [(''steps'', JList
     [JObj [(''step_id'', JStr ''cal''), (''service'', JStr ''google_calendar''),
        (''operation'', JStr ''get_event''), (''arguments'', JObj [(''event_id'', JStr ''e1'')])],
      JObj [(''step_id'', JStr ''mail''), (''service'', JStr ''gmail''),
        (''operation'', JStr ''search_emails''), (''depends_on'', JList [JStr ''soon'']),
        (''arguments'', JObj [(''query'', JStr ''x'')])],
      JObj [(''step_id'', JStr ''soon''), (''service'', JStr ''google_calendar''),
        (''operation'', JStr ''search_events''), (''arguments'', JObj [])]])]"

definition context_intent :: intent where
  "context_intent = \<lparr>intent_name = ''brief'', required_services = [GOOGLE_CALENDAR], extracted_entities = [],
     requires_clarification = False, clarification_question = None\<rparr>"

text \<open>The mail step is routed through the index, and a step for Drive is added.\<close>

definition routed_steps :: "execution_step list" where
  "routed_steps =
     [\<lparr>step_id = ''cal'', service = GOOGLE_CALENDAR, operation = ''get_event'',
       arguments = [(''event_id'', JStr ''e1'')], depends_on = []\<rparr>,
      \<lparr>step_id = ''mail'', service = WORKSPACE, operation = ''workspace_search'',
       arguments = context_arguments ''soon'' ''gmail'', depends_on = [''soon'']\<rparr>,
      \<lparr>step_id = ''soon'', service = GOOGLE_CALENDAR, operation = ''search_events'',
       arguments = [], depends_on = []\<rparr>,
      \<lparr>step_id = ''workspace_google_drive'', service = WORKSPACE, operation = ''workspace_search'',
       arguments = context_arguments ''soon'' ''google_drive'', depends_on = [''soon'']\<rparr>]"

lemma context_plan_accepted:
  "checked_plan (build_agent_registry (\<lambda>_ _ _ _. Raised)) context_intent context_query sample_zone ''Asia/Kolkata'' 30
     sample_reference context_result = Inr \<lparr>steps = routed_steps\<rparr>"
  by code_simp

lemma planner_returns_valid_plans_witness:
  "plan_model_validate (plan_dump \<lparr>steps = routed_steps\<rparr>) = Inr \<lparr>steps = routed_steps\<rparr> \<and>
   registry_validate_plan (build_agent_registry (\<lambda>_ _ _ _. Raised)) \<lparr>steps = routed_steps\<rparr> = Inr ()"
proof (rule planner_returns_valid_plans)
  have aware: "aware_utc sample_reference = sample_reference" by (simp add: aware_utc_def sample_reference_def)
  show "create_plan (build_agent_registry (\<lambda>_ _ _ _. Raised)) (\<lambda>_. Inr sample_zone) (\<lambda>_ _. Inr context_result)
      context_query context_intent ''Asia/Kolkata'' 30 sample_reference False = Inr \<lparr>steps = routed_steps\<rparr>"
    by (simp add: create_plan.simps [where repair = False] aware sample_local context_plan_accepted)
qed

end
