(* ===== verification/Planner_Intent.thy ===== *)
theory Planner_Intent
  imports Planner_Valid
begin

text \<open>
  What the plans of \<open>app/orchestration/planner.py\<close> keep of the intent: the settings of the user for a
  new event, the bounds of the search for the next event, the range of dates the classifier extracted,
  and the routing of searches that follow an event through the workspace index.
\<close>

section \<open>The contract\<close>

definition not_before :: "json \<Rightarrow> string \<Rightarrow> bool" where
  "not_before v start \<longleftrightarrow> v = JStr start \<or>
     (case (timestamp_key v, timestamp_key (JStr start)) of
        (Inr t, Inr u) \<Rightarrow> utc_micros u \<le> utc_micros t | _ \<Rightarrow> False)"

definition starts_from :: "dict \<Rightarrow> string \<Rightarrow> bool" where
  "starts_from args start \<longleftrightarrow> (case dict_get args ''time_min'' of None \<Rightarrow> False | Some v \<Rightarrow> not_before v start)"

definition within_window :: "service \<Rightarrow> string \<Rightarrow> dict \<Rightarrow> string \<Rightarrow> string \<Rightarrow> bool" where
  "within_window svc op args start stop \<longleftrightarrow>
     (svc = GOOGLE_CALENDAR \<and> op = ''search_events'' \<longrightarrow>
        starts_from args start \<and> dict_get args ''time_max'' = Some (JStr stop)) \<and>
     (svc = GMAIL \<and> op = ''search_emails'' \<longrightarrow>
        dict_get args ''date_from'' = Some (JStr (date_part start)) \<and>
        dict_get args ''date_to'' = Some (JStr (date_part stop))) \<and>
     (svc = GOOGLE_DRIVE \<and> op = ''search_files'' \<longrightarrow>
        dict_get args ''modified_after'' = Some (JStr start) \<and> dict_get args ''modified_before'' = Some (JStr stop)) \<and>
     (svc = WORKSPACE \<and> op = ''workspace_search'' \<longrightarrow>
        dict_get args ''date_from'' = Some (JStr start) \<and> dict_get args ''date_to'' = Some (JStr stop))"

text \<open>The searches of the index that the routing puts into a plan; their arguments hold no range.\<close>

definition searches_from_event :: "string \<Rightarrow> string list \<Rightarrow> execution_step \<Rightarrow> bool" where
  "searches_from_event query calendar_ids s \<longleftrightarrow>
     requests_contextual_retrieval query \<and> service s = WORKSPACE \<and> operation s = ''workspace_search'' \<and>
     (\<exists>c target. c \<in> set calendar_ids \<and> c \<in> set (depends_on s) \<and> target \<in> {''gmail'', ''google_drive''} \<and>
        arguments s = [(''query'', JObj [(''$step'', JStr c), (''path'', JList [JStr ''events'', JInt 0])]),
          (''services'', JList [JStr target]), (''top_k'', JInt 5)])"

definition follows_intent :: "string \<Rightarrow> intent \<Rightarrow> string \<Rightarrow> datetime \<Rightarrow> string list \<Rightarrow> execution_step \<Rightarrow> bool" where
  "follows_intent query i timezone_name local calendar_ids s \<longleftrightarrow>
     (service s = GOOGLE_CALENDAR \<and> operation s = ''create_event'' \<longrightarrow>
        dict_get (arguments s) ''timezone'' = Some (JStr timezone_name) \<and>
        dict_get (arguments s) ''create_google_meet'' = Some (JBool (requests_google_meet query))) \<and>
     (is_calendar_search s \<and> requests_singular_upcoming_event query i \<longrightarrow>
        dict_get (arguments s) ''max_results'' = Some (JInt 1) \<and> starts_from (arguments s) (isoformat local)) \<and>
     (case intent_window (extracted_entities i) of None \<Rightarrow> True
      | Some (start, stop) \<Rightarrow>
          within_window (service s) (operation s) (arguments s) start stop \<or> searches_from_event query calendar_ids s)"

abbreviation calendar_ids :: "execution_step list \<Rightarrow> string list" where
  "calendar_ids ss \<equiv> map step_id (filter is_calendar_search ss)"

definition searches_index :: "string \<Rightarrow> execution_step \<Rightarrow> bool" where
  "searches_index target s \<longleftrightarrow> service s = WORKSPACE \<and> operation s = ''workspace_search'' \<and>
     (case step_services s of Inl _ \<Rightarrow> False | Inr targets \<Rightarrow> target \<in> set targets)"

definition routes_context :: "string \<Rightarrow> execution_step list \<Rightarrow> bool" where
  "routes_context query ss \<longleftrightarrow>
     (requests_contextual_retrieval query \<and> calendar_ids ss \<noteq> [] \<longrightarrow>
        list_all (\<lambda>s. native_target s = None \<or> list_all (\<lambda>d. d \<notin> set (calendar_ids ss)) (depends_on s)) ss \<and>
        list_all (\<lambda>target. list_ex (searches_index target) ss) (contextual_services query))"

section \<open>Arguments\<close>

lemma dict_get_drop_aliases:
  "k \<notin> {''date_range'', ''time_range'', ''start_date'', ''end_date'', ''time_minimum'', ''time_maximum''} \<Longrightarrow>
   dict_get (drop_aliases args) k = dict_get args k"
  by (simp add: drop_aliases_def dict_simps)

lemma apply_window_keeps:
  assumes "apply_window svc op start stop args = Inr new" and "k \<in> {''timezone'', ''create_google_meet'', ''max_results''}"
  shows "dict_get new k = dict_get args k"
  using assms by (auto simp: apply_window_def dict_get_drop_aliases dict_simps split: if_splits sum.splits)

lemma later_timestamp_not_before:
  assumes "later_timestamp v (JStr start) = Inr w"
  shows "not_before w start" and "not_before v lower \<Longrightarrow> not_before w lower"
  using assms
  by (auto simp: later_timestamp_def not_before_def split: sum.splits if_splits)

lemma apply_window_within:
  assumes "apply_window svc op start stop args = Inr new"
  shows "within_window svc op new start stop"
  using assms
  by (auto simp: apply_window_def within_window_def starts_from_def dict_get_drop_aliases dict_simps
      not_before_def [of "JStr start"] dest: later_timestamp_not_before(1)
      split: if_splits sum.splits option.splits)

lemma apply_window_starts:
  assumes "apply_window svc op start stop args = Inr new" and "starts_from args lower"
  shows "starts_from new lower"
  using assms
  by (auto simp: apply_window_def starts_from_def dict_get_drop_aliases dict_simps
      dest: later_timestamp_not_before(2) split: if_splits sum.splits option.splits)

lemma canonical_follows:
  assumes "canonical_arguments (service s) (operation s) args i query z tz dflt now = Inr new"
    and "astimezone z now = Some local"
  shows "follows_intent query i tz local ids (s\<lparr>arguments := new\<rparr>)"
proof -
  let ?upcoming = "service s = GOOGLE_CALENDAR \<and> operation s = ''search_events'' \<and> requests_singular_upcoming_event query i"
  from assms(1) obtain args1 args2 args3 where
    1: "(if service s = GOOGLE_CALENDAR \<and> operation s = ''create_event'' then create_event_arguments i query tz dflt args
         else Inr args) = Inr args1"
    and 2: "args2 = (if service s = WORKSPACE \<and> operation s = ''workspace_search''
           then workspace_search_arguments i query args1 else args1)"
    and 3: "(if ?upcoming then upcoming_arguments z now args2 else Inr args2) = Inr args3"
    and 4: "(case intent_window (extracted_entities i) of None \<Rightarrow> Inr args3
         | Some (start, stop) \<Rightarrow> apply_window (service s) (operation s) start stop args3) = Inr new"
    unfolding canonical_arguments_def Let_def by (elim sum_caseE) blast
  have event: "dict_get args3 ''timezone'' = Some (JStr tz)"
    "dict_get args3 ''create_google_meet'' = Some (JBool (requests_google_meet query))"
    if "service s = GOOGLE_CALENDAR" "operation s = ''create_event''"
    using 1 2 3 that by (auto simp: create_event_arguments_def dict_simps split: sum.splits)
  have upcoming: "dict_get args3 ''max_results'' = Some (JInt 1)" "starts_from args3 (isoformat local)" if ?upcoming
    using 3 that assms(2)
    by (auto simp: upcoming_arguments_def starts_from_def not_before_def dict_simps split: option.splits)
  show ?thesis
  proof (cases "intent_window (extracted_entities i)")
    case None
    with 4 event upcoming show ?thesis by (auto simp: follows_intent_def is_calendar_search_def)
  next
    case (Some w)
    obtain start stop where w: "w = (start, stop)" by (cases w)
    with 4 Some have window: "apply_window (service s) (operation s) start stop args3 = Inr new" by simp
    note kept = apply_window_keeps [OF window]
    from apply_window_within [OF window] apply_window_starts [OF window] kept Some w event upcoming
    show ?thesis by (auto simp: follows_intent_def is_calendar_search_def)
  qed
qed

section \<open>Routing\<close>

lemma follows_from_event:
  "searches_from_event query ids s \<Longrightarrow> follows_intent query i tz local ids s"
  by (auto simp: follows_intent_def is_calendar_search_def searches_from_event_def split: option.splits)

lemma native_targets: "native_target s = Some target \<Longrightarrow> target \<in> {''gmail'', ''google_drive''}"
  by (simp add: native_target_def split: if_splits)

lemma context_targets: "target \<in> set (contextual_services query) \<Longrightarrow> target \<in> {''gmail'', ''google_drive''}"
  by (auto simp: contextual_services_def Let_def split: if_splits)

lemma routed_from_event:
  assumes "requests_contextual_retrieval query" and "c \<in> set ids" and "c \<in> set (depends_on s)"
    and "target \<in> {''gmail'', ''google_drive''}"
  shows "searches_from_event query ids
    (s\<lparr>service := WORKSPACE, operation := ''workspace_search'', arguments := context_arguments c target\<rparr>)"
  using assms unfolding searches_from_event_def
  by (intro conjI exI [of _ c] exI [of _ target]) (simp_all add: context_arguments_def event_reference_def)

lemma route_step_follows:
  assumes "requests_contextual_retrieval query" and "follows_intent query i tz local ids s"
  shows "follows_intent query i tz local ids (route_step ids s)"
proof (cases rule: route_step_cases [of ids s])
  case (2 target c)
  show ?thesis unfolding 2(4)
    by (rule follows_from_event, rule routed_from_event [OF assms(1) 2(1,2) native_targets [OF 2(3)]])
qed (simp add: assms(2))

definition added_search :: "string \<Rightarrow> execution_step \<Rightarrow> bool" where
  "added_search c s \<longleftrightarrow> service s = WORKSPACE \<and> operation s = ''workspace_search'' \<and> depends_on s = [c] \<and>
     (\<exists>target \<in> {''gmail'', ''google_drive''}. arguments s = context_arguments c target)"

lemma added_from_event:
  assumes "requests_contextual_retrieval query" and "c \<in> set ids" and "added_search c s"
  shows "searches_from_event query ids s"
proof -
  from assms(3) obtain target where "target \<in> {''gmail'', ''google_drive''}" "arguments s = context_arguments c target"
    "service s = WORKSPACE" "operation s = ''workspace_search''" "depends_on s = [c]"
    by (auto simp: added_search_def)
  with routed_from_event [OF assms(1,2), of s target] show ?thesis by (simp add: searches_from_event_def)
qed

lemma add_context_steps_new:
  "list_all (\<lambda>target. target \<in> {''gmail'', ''google_drive''}) targets \<Longrightarrow>
   \<exists>new. add_context_steps c targets ss = ss @ new \<and> list_all (added_search c) new \<and>
     list_all (\<lambda>target. list_ex (searches_index target) new) targets"
proof (induction c targets ss rule: add_context_steps.induct)
  case (2 c target targets ss)
  let ?t = "\<lparr>step_id = fresh_step_id (map step_id ss) (''workspace_'' @ target), service = WORKSPACE,
    operation = ''workspace_search'', arguments = context_arguments c target, depends_on = [c]\<rparr>"
  from 2 obtain new where new: "add_context_steps c targets (ss @ [?t]) = (ss @ [?t]) @ new"
    "list_all (added_search c) new" "list_all (\<lambda>target. list_ex (searches_index target) new) targets"
    by auto
  have "added_search c ?t" using 2(2) by (auto simp: added_search_def)
  moreover have "searches_index target ?t"
    by (simp add: searches_index_def step_services_def context_arguments_def dict_get_or_def List.map_filter_simps)
  ultimately show ?case using new by (intro exI [of _ "?t # new"]) (auto simp: list_all_iff)
qed simp

lemma native_routed: "is_calendar_search s \<Longrightarrow> native_target s = None"
  by (auto simp: is_calendar_search_def native_target_def)

lemma route_step_calendar:
  "is_calendar_search (route_step ids s) = is_calendar_search s"
  by (cases rule: route_step_cases [of ids s]) (auto simp: is_calendar_search_def native_target_def split: if_splits)

lemma route_step_native:
  "native_target (route_step ids s) = None \<or> list_all (\<lambda>d. d \<notin> set ids) (depends_on (route_step ids s))"
proof (cases "native_target s")
  case (Some target)
  show ?thesis
  proof (cases "find (\<lambda>d. d \<in> set ids) (depends_on s)")
    case None
    then have "route_step ids s = s" by (simp add: route_step_def split: option.splits)
    with None show ?thesis by (simp add: find_None_iff list_all_iff)
  next
    case (Some c)
    with \<open>native_target s = Some target\<close> show ?thesis by (simp add: route_step_def native_target_def)
  qed
qed (simp add: route_step_def)

lemma calendar_ids_routed:
  "map step_id (filter is_calendar_search (map (route_step ids) ss)) = map step_id (filter is_calendar_search ss)"
  by (induction ss) (simp_all add: route_step_calendar route_step_graph)

lemma route_follows:
  assumes "route_contextual_retrieval query ss = Inr ts" and "\<And>ids. list_all (follows_intent query i tz local ids) ss"
  shows "list_all (follows_intent query i tz local (calendar_ids ts)) ts" and "routes_context query ts"
proof -
  let ?ids = "calendar_ids ss"
  have "list_all (follows_intent query i tz local (calendar_ids ts)) ts \<and> routes_context query ts"
  proof (cases "\<not> requests_contextual_retrieval query \<or> ?ids = []")
    case True
    with assms show ?thesis by (auto simp: route_contextual_retrieval_def routes_context_def)
  next
    case False
    let ?routed = "map (route_step ?ids) ss"
    from False have query: "requests_contextual_retrieval query" and "?ids \<noteq> []" by blast+
    note first = hd_in_set [OF this(2)]
    from False assms(1) obtain present where present: "map_res step_services ?routed = Inr present"
      and ts: "ts = add_context_steps (hd ?ids) (filter (\<lambda>t. t \<notin> set (concat present)) (contextual_services query)) ?routed"
      by (auto simp: route_contextual_retrieval_def Let_def split: sum.splits)
    have "list_all (\<lambda>target. target \<in> {''gmail'', ''google_drive''})
        (filter (\<lambda>t. t \<notin> set (concat present)) (contextual_services query))"
      using context_targets by (simp only: list_all_iff set_filter) blast
    from add_context_steps_new [OF this] obtain new where new: "ts = ?routed @ new" "list_all (added_search (hd ?ids)) new"
      "list_all (\<lambda>target. list_ex (searches_index target) new)
        (filter (\<lambda>t. t \<notin> set (concat present)) (contextual_services query))"
      unfolding ts by blast
    have services: "service s = WORKSPACE" if "s \<in> set new" for s
      using new(2) that by (simp add: list_all_iff added_search_def)
    have no_cal: "filter is_calendar_search new = []"
      using services by (auto simp: filter_empty_conv is_calendar_search_def)
    have ids: "calendar_ids ts = ?ids"
      unfolding new(1) by (simp only: filter_append no_cal calendar_ids_routed append_Nil2)
    have "follows_intent query i tz local ?ids s" if "s \<in> set ?routed" for s
    proof -
      from that obtain r where r: "r \<in> set ss" "s = route_step ?ids r" by auto
      from r(1) assms(2) [of ?ids] have "follows_intent query i tz local ?ids r" by (simp only: list_all_iff)
      from route_step_follows [OF query this] r(2) show ?thesis by simp
    qed
    moreover have "follows_intent query i tz local ?ids s" if "s \<in> set new" for s
      using new(2) that
      by (intro follows_from_event added_from_event [OF query first]) (simp only: list_all_iff)
    ultimately have follows: "list_all (follows_intent query i tz local (calendar_ids ts)) ts"
      unfolding ids by (simp only: new(1) list_all_iff set_append) blast
    have "native_target s = None" if "s \<in> set new" for s
      using services [OF that] by (simp add: native_target_def)
    moreover have "native_target s = None \<or> list_all (\<lambda>d. d \<notin> set ?ids) (depends_on s)" if "s \<in> set ?routed" for s
    proof -
      from that obtain r where "s = route_step ?ids r" by auto
      then show ?thesis by (simp only: route_step_native)
    qed
    ultimately have "\<forall>s \<in> set ts. native_target s = None \<or> list_all (\<lambda>d. d \<notin> set ?ids) (depends_on s)"
      unfolding new(1) set_append by blast
    then have native: "list_all (\<lambda>s. native_target s = None \<or> list_all (\<lambda>d. d \<notin> set ?ids) (depends_on s)) ts"
      by (simp only: list_all_iff)
    have "list_ex (searches_index target) ts" if "target \<in> set (contextual_services query)" for target
    proof (cases "target \<in> set (concat present)")
      case True
      then obtain targets where "targets \<in> set present" "target \<in> set targets" by auto
      from present this(1) obtain s where s: "s \<in> set ?routed" "step_services s = Inr targets"
        by (rule map_res_elemE)
      from s(2) \<open>target \<in> set targets\<close> have "searches_index target s"
        by (auto simp: searches_index_def step_services_def split: if_splits)
      with s(1) show ?thesis unfolding new(1) list_ex_iff set_append by blast
    next
      case False
      with that new(3) have "list_ex (searches_index target) new" by (simp add: list_all_iff)
      then show ?thesis unfolding new(1) list_ex_iff set_append by blast
    qed
    then have "list_all (\<lambda>target. list_ex (searches_index target) ts) (contextual_services query)"
      by (simp only: list_all_iff) blast
    with follows native show ?thesis by (simp only: routes_context_def ids) blast
  qed
  then show "list_all (follows_intent query i tz local (calendar_ids ts)) ts" and "routes_context query ts"
    by simp_all
qed

section \<open>Plans the planner returns\<close>

lemma checked_plan_follows:
  assumes "checked_plan reg i query z tz dflt now result = Inr p" and "astimezone z now = Some local"
  shows "list_all (follows_intent query i tz local (calendar_ids (steps p))) (steps p) \<and> routes_context query (steps p)"
proof -
  from assms(1) obtain p0 ss where "plan_model_validate (JObj result) = Inr p0" and ss: "map_res (canonical_step i query z tz dflt now) (steps p0) = Inr ss"
    and route: "route_contextual_retrieval query ss = Inr (steps p)" and "registry_validate_plan reg p = Inr ()"
    by (rule checked_planE)
  have "follows_intent query i tz local ids t" if t: "t \<in> set ss" for t ids
  proof -
    from ss t obtain s where "canonical_step i query z tz dflt now s = Inr t" by (rule map_res_elemE)
    then obtain args where "canonical_arguments (service s) (operation s) (arguments s) i query z tz dflt now = Inr args"
      and "t = s\<lparr>arguments := args\<rparr>" by (auto simp: canonical_step_def split: sum.splits)
    with canonical_follows [OF _ assms(2)] show ?thesis by simp
  qed
  then have "list_all (follows_intent query i tz local ids) ss" for ids by (simp add: list_all_iff)
  from route_follows [OF route this] show ?thesis by simp
qed

text \<open>
  C14. Whatever the language model proposes, a plan the planner returns follows the intent. A new
  event has the time zone of the user, and a Google Meet link exactly when the query asks for one;
  the search for the next event returns one event, from the time of the request on in the user's
  time zone; searches of the calendar, the mail, the files and the index stay within the range the
  classifier extracted, save for the searches of the index that the routing of a request for the
  context of an event puts into the plan: these have the event and one source as their only
  arguments; and in such a request no mail or file search that depends on the search for the event
  goes to the service itself, while every source the query asks for is searched through the index.
\<close>

theorem planner_enforces_intent:
  assumes "create_plan reg zone_info generate query i timezone_name dflt reference_time False = Inr p"
    and "zone_info timezone_name = Inr z" and "astimezone z (aware_utc reference_time) = Some local"
  shows "list_all (follows_intent query i timezone_name local (calendar_ids (steps p))) (steps p) \<and> routes_context query (steps p)"
  using create_plan_Inr [OF assms(1)] assms(2) checked_plan_follows [OF _ assms(3)] by auto

lemma planner_enforces_intent_witness:
  "routes_context context_query routed_steps \<and>
   list_all (follows_intent context_query context_intent ''Asia/Kolkata'' \<lparr>year = 2024, month = 5, day = 2, hour = 1,
     minute = 30, second = 0, microsecond = 0, utcoffset = Some 19800000000\<rparr> (calendar_ids routed_steps)) routed_steps"
proof -
  have aware: "aware_utc sample_reference = sample_reference" by (simp add: aware_utc_def sample_reference_def)
  have "create_plan (build_agent_registry (\<lambda>_ _ _ _. Raised)) (\<lambda>_. Inr sample_zone) (\<lambda>_ _. Inr context_result)
      context_query context_intent ''Asia/Kolkata'' 30 sample_reference False = Inr \<lparr>steps = routed_steps\<rparr>"
    by (simp add: create_plan.simps [where repair = False] aware sample_local context_plan_accepted)
  moreover have "astimezone sample_zone (aware_utc sample_reference) = Some \<lparr>year = 2024, month = 5, day = 2,
      hour = 1, minute = 30, second = 0, microsecond = 0, utcoffset = Some 19800000000\<rparr>"
    by (simp only: aware sample_local)
  ultimately show ?thesis using planner_enforces_intent [OF _ refl] by fastforce
qed

end
