(* ===== verification/Query_Route.thy ===== *)
theory Query_Route
  imports Agents Synthesis Planner_Intent
begin

text \<open>
  The query endpoint of \<open>app/api/routes/query.py\<close>, which composes the other components: the
  conversation is loaded, the classifier and the planner ask the language model, the executor runs
  the plan, and the synthesizer writes the answer. \<open>current_user_id\<close> is the session check of
  \<open>app/api/dependencies.py\<close>.

  The session rolls back when the handler raises. The executor commits at its end, so that what was
  added until then is kept even if writing the answer raises. \<open>created_at\<close> of a message is
  \<open>now()\<close> of the database: the start of the transaction, \<open>qe_started\<close> before the commit of the
  executor and \<open>qe_answered\<close> after it. The order of rows with equal times is not determined by the
  query; \<open>qe_newest\<close> is the order the database gives.
\<close>

section \<open>Rows and messages of the endpoint\<close>

record conversation_row =
  conv_id :: nat
  conv_user :: nat

record message_row =
  msg_conversation :: nat
  msg_role :: string
  msg_content :: string
  msg_created :: int

record app_db =
  conversations :: "conversation_row list"
  messages :: "message_row list"
  core :: database

record query_request =
  req_query :: string
  req_conversation :: "nat option"

record query_response =
  qr_response :: string
  qr_conversation :: nat
  qr_execution :: "nat option"
  qr_intent :: intent
  qr_actions :: "dict list"
  qr_pending :: "dict list"
  qr_errors :: "dict list"

record query_env =
  qe_api_key :: "string option"
  qe_completion :: "string \<Rightarrow> json \<Rightarrow> py_error + string option"
  qe_json_loads :: "string \<Rightarrow> json option"
  qe_zone_info :: "string \<Rightarrow> py_error + zone"
  qe_timezone :: string
  qe_duration :: int
  qe_now :: datetime
  qe_newest :: "message_row list \<Rightarrow> message_row list"
  qe_started :: int
  qe_answered :: int
  qe_fernet :: "string \<Rightarrow> token_cipher option"
  qe_encryption_key :: string
  qe_world :: world
  qe_float :: "rat \<Rightarrow> string"

section \<open>The conversation\<close>

definition add_conversation :: "nat \<Rightarrow> app_db \<Rightarrow> nat \<times> app_db" where
  "add_conversation user db =
     (let cid = next_id (core db) in
      (cid, db\<lparr>conversations := conversations db @ [\<lparr>conv_id = cid, conv_user = user\<rparr>],
               core := (core db)\<lparr>next_id := Suc cid\<rparr>\<rparr>))"

definition load_or_create_conversation :: "nat \<Rightarrow> nat option \<Rightarrow> app_db \<Rightarrow> http_error + nat \<times> app_db" where
  "load_or_create_conversation user requested db =
     (case requested of
        Some cid \<Rightarrow>
          (case find (\<lambda>c. conv_id c = cid \<and> conv_user c = user) (conversations db) of
             None \<Rightarrow> Inl (HTTPError 404 ''Conversation not found'')
           | Some c \<Rightarrow> Inr (conv_id c, db))
      | None \<Rightarrow> Inr (add_conversation user db))"

definition conversation_messages :: "nat \<Rightarrow> app_db \<Rightarrow> message_row list" where
  "conversation_messages cid db = filter (\<lambda>m. msg_conversation m = cid) (messages db)"

definition recent_context ::
  "(message_row list \<Rightarrow> message_row list) \<Rightarrow> nat \<Rightarrow> app_db \<Rightarrow> (string \<times> string) list" where
  "recent_context newest cid db =
     map (\<lambda>m. (msg_role m, msg_content m)) (rev (take 5 (newest (conversation_messages cid db))))"

definition add_message :: "nat \<Rightarrow> string \<Rightarrow> string \<Rightarrow> int \<Rightarrow> app_db \<Rightarrow> app_db" where
  "add_message cid role content created db =
     db\<lparr>messages := messages db @
       [\<lparr>msg_conversation = cid, msg_role = role, msg_content = content, msg_created = created\<rparr>]\<rparr>"

section \<open>The parts of the answer\<close>

definition preview_argument_names :: "string list" where
  "preview_argument_names =
     [''title'', ''start'', ''end'', ''attendees'', ''create_google_meet'', ''event_id'', ''message_id'',
      ''file_id'', ''to'', ''subject'']"

definition preview_argument :: "dict \<Rightarrow> string \<Rightarrow> (string \<times> json) option" where
  "preview_argument source k =
     (case py_get source k of
        JStr s \<Rightarrow> Some (k, JStr s)
      | JBool b \<Rightarrow> Some (k, JBool b)
      | JList xs \<Rightarrow>
          if k = ''attendees''
          then Some (k, JList (filter (\<lambda>v. case v of JStr _ \<Rightarrow> True | _ \<Rightarrow> False) (take 10 xs)))
          else None
      | _ \<Rightarrow> None)"

definition preview_name :: "dict \<Rightarrow> string \<Rightarrow> (string \<times> json) option" where
  "preview_name d k = (case py_get d k of JStr s \<Rightarrow> Some (k, JStr s) | _ \<Rightarrow> None)"

definition sanitized_approval_preview :: "json \<Rightarrow> dict option" where
  "sanitized_approval_preview v =
     (case v of
        JObj d \<Rightarrow>
          (let source = (case py_get d ''arguments'' of JObj args \<Rightarrow> args | _ \<Rightarrow> d);
               safe = List.map_filter (preview_argument source) preview_argument_names;
               preview = List.map_filter (preview_name d) [''service'', ''operation''] @
                 (if safe = [] then [] else [(''arguments'', JObj safe)])
           in if preview = [] then None else Some preview)
      | _ \<Rightarrow> None)"

definition actions_taken :: "step_result list \<Rightarrow> dict list" where
  "actions_taken results =
     map (\<lambda>r. [(''step_id'', JStr (result_step_id r)), (''data'', JObj (data r))])
       (filter (\<lambda>r. status r = COMPLETED) results)"

definition pending_entry :: "step_result \<Rightarrow> dict" where
  "pending_entry r =
     [(''step_id'', JStr (result_step_id r)), (''approval_id'', py_get (data r) ''approval_id'')] @
     (case sanitized_approval_preview (py_get (data r) ''proposed_action'') of
        None \<Rightarrow> [] | Some preview \<Rightarrow> [(''proposed_action'', JObj preview)])"

definition pending_approvals :: "step_result list \<Rightarrow> dict list" where
  "pending_approvals results = map pending_entry (filter (\<lambda>r. status r = AWAITING_APPROVAL) results)"

definition reported_errors :: "step_result list \<Rightarrow> dict list" where
  "reported_errors results =
     map (\<lambda>r. [(''step_id'', JStr (result_step_id r)), (''status'', JStr (status_value (status r))),
         (''error'', case error r of None \<Rightarrow> JNull | Some e \<Rightarrow> error_dump e)])
       (filter (\<lambda>r. status r = FAILED \<or> status r = SKIPPED) results)"

definition clarification_text :: "intent \<Rightarrow> string" where
  "clarification_text i =
     (case clarification_question i of
        None \<Rightarrow> ''Could you clarify your request?''
      | Some q \<Rightarrow> if q = [] then ''Could you clarify your request?'' else q)"

text \<open>Only an \<open>LLMProviderError\<close> is answered from the results alone.\<close>

definition grounded_fallback :: "(rat \<Rightarrow> string) \<Rightarrow> step_result list \<Rightarrow> string" where
  "grounded_fallback fr results = grounded_response fr (compact_results_for_synthesis results)"

definition answer_text ::
  "(rat \<Rightarrow> string) \<Rightarrow> (string \<Rightarrow> json \<Rightarrow> py_error + dict) \<Rightarrow> string \<Rightarrow> step_result list \<Rightarrow> py_error + string" where
  "answer_text fr generate query results =
     (case synthesize fr generate query (compact_results_for_synthesis results) of
        Inl (LLMProviderError _) \<Rightarrow> Inr (grounded_fallback fr results)
      | r \<Rightarrow> r)"

section \<open>The handler\<close>

definition query_failure :: "py_error \<Rightarrow> http_error" where
  "query_failure e =
     (case e of
        LLMProviderError _ \<Rightarrow> HTTPError 502 ''The request could not be interpreted safely''
      | ValueError _ \<Rightarrow> HTTPError 400 ''The generated request was invalid''
      | _ \<Rightarrow> Unhandled e)"

definition groq_provider :: "query_env \<Rightarrow> py_error + (string \<Rightarrow> json \<Rightarrow> py_error + dict)" where
  "groq_provider env =
     (case qe_api_key env of
        None \<Rightarrow> Inl (LLMProviderError ''GROQ_API_KEY is not configured'')
      | Some k \<Rightarrow>
          if k = [] then Inl (LLMProviderError ''GROQ_API_KEY is not configured'')
          else Inr (generate_json (qe_completion env) (qe_json_loads env)))"

abbreviation query_agents :: "query_env \<Rightarrow> nat \<Rightarrow> registry" where
  "query_agents env user \<equiv> google_registry ((qe_world env)\<lparr>w_user := \<lambda>_. user\<rparr>)"

definition query_registry :: "query_env \<Rightarrow> nat \<Rightarrow> py_error + registry" where
  "query_registry env user =
     open_google_registry (qe_fernet env) (qe_encryption_key env) ((qe_world env)\<lparr>w_user := \<lambda>_. user\<rparr>)"

definition clarification_response :: "nat \<Rightarrow> intent \<Rightarrow> query_response" where
  "clarification_response cid i =
     \<lparr>qr_response = clarification_text i, qr_conversation = cid, qr_execution = None, qr_intent = i,
      qr_actions = [], qr_pending = [], qr_errors = []\<rparr>"

definition executed_response :: "nat \<Rightarrow> intent \<Rightarrow> execution_outcome \<Rightarrow> string \<Rightarrow> query_response" where
  "executed_response cid i out txt =
     \<lparr>qr_response = txt, qr_conversation = cid, qr_execution = Some (out_execution_id out), qr_intent = i,
      qr_actions = actions_taken (out_results out), qr_pending = pending_approvals (out_results out),
      qr_errors = reported_errors (out_results out)\<rparr>"

type_synonym query_answer = "(http_error + query_response) \<times> app_db \<times> agent_call list"

text \<open>
  \<open>base\<close> is the committed database, \<open>db\<close> the one with the rows of the request. An exception of the
  executor is \<open>dag_execute\<close>'s error; its calls are those before, since none is made before the
  plan has passed the validation, after which it does not raise.
\<close>

definition run_query ::
  "query_env \<Rightarrow> nat \<Rightarrow> string \<Rightarrow> nat \<Rightarrow> (string \<times> string) list \<Rightarrow> app_db \<Rightarrow> app_db \<Rightarrow> agent_call list \<Rightarrow>
   query_answer" where
  "run_query env user query cid context base db calls =
     (case groq_provider env of Inl e \<Rightarrow> (Inl (query_failure e), base, calls) | Inr generate \<Rightarrow>
      (case classify (qe_zone_info env) generate query context (qe_now env) (qe_timezone env) of
         Inl e \<Rightarrow> (Inl (query_failure e), base, calls)
       | Inr i \<Rightarrow>
           if requires_clarification i then
             (Inr (clarification_response cid i),
              add_message cid ''assistant'' (clarification_text i) (qe_started env) db, calls)
           else
             (case query_registry env user of Inl e \<Rightarrow> (Inl (query_failure e), base, calls) | Inr reg \<Rightarrow>
             (case create_plan reg (qe_zone_info env) generate query i (qe_timezone env)
                     (qe_duration env) (qe_now env) False of
                Inl e \<Rightarrow> (Inl (query_failure e), base, calls)
              | Inr p \<Rightarrow>
                  (case dag_execute reg user cid i p (core db) calls of
                     Inl e \<Rightarrow> (Inl (query_failure e), base, calls)
                   | Inr (out, core', calls') \<Rightarrow>
                       (case answer_text (qe_float env) generate query (out_results out) of
                          Inl e \<Rightarrow> (Inl (query_failure e), db\<lparr>core := core'\<rparr>, calls')
                        | Inr txt \<Rightarrow>
                            (Inr (executed_response cid i out txt),
                             add_message cid ''assistant'' txt (qe_answered env) (db\<lparr>core := core'\<rparr>),
                             calls')))))))"

definition submit_query :: "query_env \<Rightarrow> nat \<Rightarrow> query_request \<Rightarrow> app_db \<Rightarrow> agent_call list \<Rightarrow> query_answer" where
  "submit_query env user req db calls =
     (case load_or_create_conversation user (req_conversation req) db of
        Inl e \<Rightarrow> (Inl e, db, calls)
      | Inr (cid, db1) \<Rightarrow>
          run_query env user (req_query req) cid (recent_context (qe_newest env) cid db1) db
            (add_message cid ''user'' (req_query req) (qe_started env) db1) calls)"

text \<open>\<open>get_current_user_id\<close>: \<open>read\<close> is \<open>cache.get_json\<close>, \<open>parse_uuid\<close> is \<open>UUID(...)\<close>.\<close>

definition current_user_id ::
  "(string \<Rightarrow> py_error + json) \<Rightarrow> (string \<Rightarrow> nat option) \<Rightarrow> string option \<Rightarrow> http_error + nat" where
  "current_user_id read parse_uuid cookie =
     (case cookie of
        None \<Rightarrow> Inl (HTTPError 401 ''Authentication required'')
      | Some sid \<Rightarrow>
          if sid = [] then Inl (HTTPError 401 ''Authentication required'')
          else
            (case read (''session:'' @ sid) of
               Inl e \<Rightarrow> Inl (Unhandled e)
             | Inr (JObj d) \<Rightarrow>
                 (case py_get d ''user_id'' of
                    JStr s \<Rightarrow>
                      (case parse_uuid s of
                         None \<Rightarrow> Inl (HTTPError 401 ''Session is invalid'')
                       | Some user \<Rightarrow> Inr user)
                  | _ \<Rightarrow> Inl (HTTPError 401 ''Session is invalid''))
             | Inr _ \<Rightarrow> Inl (HTTPError 401 ''Session is invalid'')))"

definition query_endpoint ::
  "(string \<Rightarrow> py_error + json) \<Rightarrow> (string \<Rightarrow> nat option) \<Rightarrow> query_env \<Rightarrow> string option \<Rightarrow> query_request \<Rightarrow>
   app_db \<Rightarrow> agent_call list \<Rightarrow> query_answer" where
  "query_endpoint read parse_uuid env cookie req db calls =
     (case current_user_id read parse_uuid cookie of
        Inl e \<Rightarrow> (Inl e, db, calls)
      | Inr user \<Rightarrow> submit_query env user req db calls)"

end
