(* ===== verification/Query_Properties.thy ===== *)
theory Query_Properties
  imports Query_Route
begin

text \<open>
  What the query endpoint guarantees: a request that fails has no effect, an executed plan is
  reported completely, every answered request is recorded in a conversation of the user, and the
  language model sees messages of that conversation only.
\<close>

section \<open>Errors of the parts\<close>

lemma provider_errors:
  assumes "groq_provider env = Inr generate" and "generate prompt payload = Inl e"
  shows "\<exists>m. e = LLMProviderError m"
  using assms by (auto simp: groq_provider_def split: option.splits if_splits dest: generate_json_error)

lemma synthesize_errors:
  assumes "\<And>p v e. generate p v = Inl e \<Longrightarrow> \<exists>m. e = LLMProviderError m"
    and "synthesize fr generate query results = Inl e"
  shows "\<exists>m. e = LLMProviderError m"
  using assms(2) assms(1) [of synthesis_system_prompt "synthesis_payload query results"]
  by (auto simp: synthesize_def split: if_splits sum.splits json.splits)

lemma answer_text_total:
  assumes "groq_provider env = Inr generate"
  shows "\<exists>ans. answer_text fr generate query results = Inr ans"
proof (cases "synthesize fr generate query (compact_results_for_synthesis results)")
  case (Inl e)
  from synthesize_errors [OF _ Inl] provider_errors [OF assms] obtain m where "e = LLMProviderError m" by blast
  with Inl show ?thesis by (simp add: answer_text_def)
qed (simp add: answer_text_def)

text \<open>A plan of the planner is executed to the end.\<close>

lemma planned_execution:
  assumes "create_plan reg zone_info generate query i tz dflt now False = Inr p"
  shows "plan_model_validate (plan_dump p) = Inr p"
    and "\<exists>out core' calls'. dag_execute reg user cid i p db calls = Inr (out, core', calls')"
proof -
  from create_plan_Inr [OF assms] checked_plan_ok
  have ok: "plan_model_validate (plan_dump p) = Inr p" "registry_validate_plan reg p = Inr ()" by blast+
  then show "plan_model_validate (plan_dump p) = Inr p" by simp
  from dag_execute_trace [OF ok] show "\<exists>out core' calls'. dag_execute reg user cid i p db calls = Inr (out, core', calls')"
    by (metis prod_cases3)
qed

text \<open>The three ways a request ends.\<close>

lemma run_query_cases:
  obtains (failed) e where "run_query env user query cid context base db calls = (Inl e, base, calls)"
  | (clarified) i where "requires_clarification i" "run_query env user query cid context base db calls =
        (Inr (clarification_response cid i),
         add_message cid ''assistant'' (clarification_text i) (qe_started env) db, calls)"
  | (executed) i p out core' calls' ans where
        "plan_model_validate (plan_dump p) = Inr p"
        "dag_execute (query_agents env user) user cid i p (core db) calls = Inr (out, core', calls')"
        "run_query env user query cid context base db calls =
          (Inr (executed_response cid i out ans),
           add_message cid ''assistant'' ans (qe_answered env) (db\<lparr>core := core'\<rparr>), calls')"
proof (cases "groq_provider env")
  case (Inl e)
  with failed show thesis by (simp add: run_query_def)
next
  case provider: (Inr generate)
  show thesis
  proof (cases "classify (qe_zone_info env) generate query context (qe_now env) (qe_timezone env)")
    case (Inl e)
    with provider failed show thesis by (simp add: run_query_def)
  next
    case intent: (Inr i)
    show thesis
    proof (cases "requires_clarification i")
      case True
      with provider intent clarified show thesis by (simp add: run_query_def)
    next
      case plain: False
      show thesis
      proof (cases "query_registry env user")
        case (Inl e)
        with provider intent plain failed show thesis by (simp add: run_query_def)
      next
        case reg: (Inr reg)
        then have registry: "query_registry env user = Inr (query_agents env user)"
          by (auto simp: query_registry_def open_google_registry_def split: sum.splits)
        show thesis
        proof (cases "create_plan (query_agents env user) (qe_zone_info env) generate query i (qe_timezone env)
            (qe_duration env) (qe_now env) False")
          case (Inl e)
          with provider intent plain registry failed show thesis by (simp add: run_query_def)
        next
          case (Inr p)
          from planned_execution(2) [OF Inr] obtain out core' calls' where
            run: "dag_execute (query_agents env user) user cid i p (core db) calls = Inr (out, core', calls')" by blast
          from answer_text_total [OF provider] obtain ans where
            "answer_text (qe_float env) generate query (out_results out) = Inr ans" by blast
          with provider intent plain registry Inr run executed [OF planned_execution(1) [OF Inr] run, of ans] show thesis
            by (simp add: run_query_def)
        qed
      qed
    qed
  qed
qed

section \<open>Failures\<close>

text \<open>
  C9. A request answered with an error has had no effect: the database is the one before it, with
  no conversation, message or execution of the request, and no agent was called. So no error comes
  from the executor or the synthesizer: once a plan exists, the request is answered. A conversation
  that is not the user's is answered with 404.
\<close>

theorem failed_query_changes_nothing:
  assumes "submit_query env user req db calls = (Inl e, db', calls')"
  shows "db' = db \<and> calls' = calls \<and>
    (e = HTTPError 404 ''Conversation not found'' \<longleftrightarrow>
       (case req_conversation req of None \<Rightarrow> False
        | Some cid \<Rightarrow> \<not> list_ex (\<lambda>c. conv_id c = cid \<and> conv_user c = user) (conversations db)))"
proof (cases "load_or_create_conversation user (req_conversation req) db")
  case (Inl f)
  with assms show ?thesis
    by (auto simp: submit_query_def load_or_create_conversation_def find_None_iff list_ex_iff split: option.splits)
next
  case (Inr r)
  obtain cid db1 where r: "r = (cid, db1)" by (cases r)
  have owned: "case req_conversation req of None \<Rightarrow> True
      | Some cid \<Rightarrow> list_ex (\<lambda>c. conv_id c = cid \<and> conv_user c = user) (conversations db)"
    using Inr by (auto simp: load_or_create_conversation_def list_ex_iff find_Some_iff split: option.splits)
  let ?run = "run_query env user (req_query req) cid (recent_context (qe_newest env) cid db1) db
      (add_message cid ''user'' (req_query req) (qe_started env) db1) calls"
  have run: "?run = (Inl e, db', calls')" using assms Inr r by (simp add: submit_query_def)
  have "e \<noteq> HTTPError 404 m" for m
    using run by (auto simp: run_query_def query_failure_def split: sum.splits py_error.splits if_splits)
  moreover have "db' = db \<and> calls' = calls"
    by (rule run_query_cases [of env user "req_query req" cid "recent_context (qe_newest env) cid db1" db
          "add_message cid ''user'' (req_query req) (qe_started env) db1" calls]) (use run in auto)
  ultimately show ?thesis using owned by (auto split: option.splits)
qed

section \<open>Reports\<close>

text \<open>What a dispatched step of the application's agents can end with.\<close>

lemma dispatched_status:
  assumes "two_valued_agents reg" and "registry_execute reg n svc op args = r"
  shows "status (step_result_of s r) \<in> {COMPLETED, FAILED}"
proof (cases r)
  case (Called a)
  with assms(2) obtain agent args' where agent: "reg_agents reg svc = Some agent" "a = agent_execute agent n op args'"
    by (auto simp: registry_execute_Called)
  show ?thesis
  proof (cases a)
    case (Returned x)
    with agent assms(1) have "agent_status x \<in> {COMPLETED, FAILED}" unfolding two_valued_agents_def by metis
    with Returned Called show ?thesis by (auto simp: step_result_of_def)
  qed (simp add: Called step_result_of_def)
qed (simp add: step_result_of_def)

definition awaits :: "database \<Rightarrow> nat \<Rightarrow> nat \<Rightarrow> step_result \<Rightarrow> bool" where
  "awaits db user x r \<longleftrightarrow> list_ex (\<lambda>a. appr_user a = user \<and> appr_execution a = x \<and>
     appr_status a = ''awaiting_approval'' \<and> result_step_id r = appr_step a \<and>
     data r = [(''approval_id'', JStr (uuid_str (appr_id a)))]) (approvals db)"

lemma execution_result:
  assumes "plan_model_validate v = Inr p" and "two_valued_agents reg"
    and "dag_execute reg user conversation i p db calls = Inr (out, db', calls')"
    and "r \<in> set (out_results out)"
  shows "status r \<in> {COMPLETED, FAILED, SKIPPED} \<or>
    status r = AWAITING_APPROVAL \<and> awaits db' user (out_execution_id out) r"
proof -
  from dag_execute_Inr [OF assms(1,3)] obtain tr
    where legal: "legal (requires_approval reg) (registry_execute reg) (steps p) tr"
      and cover: "set (map (\<lambda>x. step_id (fst x)) tr) = set (plan_ids p)"
      and out: "outcome_of_trace (next_id db) user conversation i p db calls tr (out, db', calls')" .
  have dist: "distinct (plan_ids p)" using accepted_closed(1) [OF assms(1)] by (rule valid_plan_distinct)
  from assms(4) obtain k where "k < length (out_results out)" "r = out_results out ! k"
    by (auto simp: in_set_conv_nth)
  with list_all2_nthD2 [OF outcome_of_traceD(10) [OF out]]
  have "dict_get (map (\<lambda>(s, d). (step_id s, decision_result s d)) tr) (step_id (steps p ! k)) = Some r" by simp
  then obtain t d where d: "(t, d) \<in> set tr" "r = decision_result t d" by (auto dest!: map_of_SomeD)
  note decided = trace_elem(2) [OF out legal cover dist d(1)]
  show ?thesis
  proof (cases d)
    case (Gate aid args)
    have "new_approval aid (next_id db) user t args \<in> set (approvals db')"
      using d(1) Gate unfolding outcome_of_traceD(2) [OF out] by force
    with d(2) Gate outcome_of_traceD(8) [OF out] show ?thesis
      by (auto simp: awaiting_result_def awaits_def list_ex_iff new_approval_def intro!: bexI)
  next
    case (Dispatch n args res)
    with decided have "registry_execute reg n (service t) (operation t) args = res" by (simp add: decided_def)
    from dispatched_status [OF assms(2) this] d(2) Dispatch show ?thesis by auto
  qed (use d(2) in \<open>simp_all add: skipped_result_def unresolved_result_def\<close>)
qed

definition report_step :: "dict \<Rightarrow> json" where
  "report_step e = py_get e ''step_id''"

lemma report_steps:
  "map report_step (actions_taken rs) = map (\<lambda>r. JStr (result_step_id r)) (filter (\<lambda>r. status r = COMPLETED) rs)"
  "map report_step (pending_approvals rs) = map (\<lambda>r. JStr (result_step_id r)) (filter (\<lambda>r. status r = AWAITING_APPROVAL) rs)"
  "map report_step (reported_errors rs) =
     map (\<lambda>r. JStr (result_step_id r)) (filter (\<lambda>r. status r = FAILED \<or> status r = SKIPPED) rs)"
  by (simp_all add: report_step_def actions_taken_def pending_approvals_def pending_entry_def reported_errors_def
      dict_get_or_def)

lemma each_reported_once:
  assumes "\<forall>r \<in> set rs. status r \<in> {COMPLETED, FAILED, SKIPPED, AWAITING_APPROVAL}"
  shows "mset (map report_step (actions_taken rs @ pending_approvals rs @ reported_errors rs)) =
    mset (map (\<lambda>r. JStr (result_step_id r)) rs)"
  using assms unfolding map_append report_steps by (induction rs) auto

text \<open>A pending approval as the answer shows it.\<close>

definition shows_approval :: "database \<Rightarrow> nat \<Rightarrow> nat \<Rightarrow> dict \<Rightarrow> bool" where
  "shows_approval db user x e \<longleftrightarrow> list_ex (\<lambda>a. appr_user a = user \<and> appr_execution a = x \<and>
     appr_status a = ''awaiting_approval'' \<and>
     e = [(''step_id'', JStr (appr_step a)), (''approval_id'', JStr (uuid_str (appr_id a)))]) (approvals db)"

lemma pending_entry_shown: "awaits db user x r \<Longrightarrow> shows_approval db user x (pending_entry r)"
  by (auto simp: awaits_def shows_approval_def list_ex_iff pending_entry_def dict_get_or_def
      sanitized_approval_preview_def)

section \<open>Executed requests\<close>

lemma submit_query_cases:
  assumes "submit_query env user req db calls = (Inr resp, db', calls')"
  obtains (clarified) cid db1 i where
      "load_or_create_conversation user (req_conversation req) db = Inr (cid, db1)" "requires_clarification i"
      "resp = clarification_response cid i" "calls' = calls"
      "db' = add_message cid ''assistant'' (clarification_text i) (qe_started env)
        (add_message cid ''user'' (req_query req) (qe_started env) db1)"
  | (executed) cid db1 i p out core' ans where
      "load_or_create_conversation user (req_conversation req) db = Inr (cid, db1)"
      "plan_model_validate (plan_dump p) = Inr p"
      "dag_execute (query_agents env user) user cid i p (core db1) calls = Inr (out, core', calls')"
      "resp = executed_response cid i out ans"
      "db' = add_message cid ''assistant'' ans (qe_answered env)
        ((add_message cid ''user'' (req_query req) (qe_started env) db1)\<lparr>core := core'\<rparr>)"
proof -
  from assms obtain cid db1 where conv: "load_or_create_conversation user (req_conversation req) db = Inr (cid, db1)"
    and run: "run_query env user (req_query req) cid (recent_context (qe_newest env) cid db1) db
      (add_message cid ''user'' (req_query req) (qe_started env) db1) calls = (Inr resp, db', calls')"
    by (auto simp: submit_query_def split: sum.splits)
  show thesis
  proof (cases rule: run_query_cases [of env user "req_query req" cid "recent_context (qe_newest env) cid db1" db
      "add_message cid ''user'' (req_query req) (qe_started env) db1" calls])
    case (failed e)
    with run show thesis by simp
  next
    case (clarified i)
    with run that(1) [OF conv] show thesis by simp
  next
    case (executed i p out core' calls'' ans)
    with run that(2) [OF conv] show thesis by (simp add: add_message_def)
  qed
qed

text \<open>
  C10. The answer to an executed request accounts for the whole plan. The execution it names is
  stored for the user and the conversation with a valid plan; every step of the plan occurs exactly
  once among the actions taken, the pending approvals and the errors; and every pending approval it
  shows is stored for the user, for this execution, awaiting a decision, under the id shown.
\<close>

theorem executed_query_reports_plan:
  assumes "submit_query env user req db calls = (Inr resp, db', calls')" and "qr_execution resp = Some x"
  shows "\<exists>row p. row \<in> set (executions (core db')) \<and> exec_id row = x \<and> exec_user row = user \<and>
    exec_conversation row = qr_conversation resp \<and> plan_model_validate (exec_plan row) = Inr p \<and>
    mset (map report_step (qr_actions resp @ qr_pending resp @ qr_errors resp)) =
      mset (map (\<lambda>s. JStr (step_id s)) (steps p)) \<and>
    list_all (shows_approval (core db') user x) (qr_pending resp)"
  using assms(1)
proof (cases rule: submit_query_cases)
  case (clarified cid db1 i)
  with assms(2) show ?thesis by (simp add: clarification_response_def)
next
  case (executed cid db1 i p out core' ans)
  note run = executed(3)
  have x: "x = out_execution_id out" using assms(2) executed(4) by (simp add: executed_response_def)
  have core: "core db' = core'" using executed(5) by (simp add: add_message_def)
  from dag_execute_Inr [OF executed(2) run] obtain tr where
    out: "outcome_of_trace (next_id (core db1)) user cid i p (core db1) calls tr (out, core', calls')" .
  let ?row = "(new_execution x user cid i p)\<lparr>exec_status := status_value (final_status (out_results out))\<rparr>"
  have "?row \<in> set (executions core')"
    unfolding outcome_of_traceD(7) [OF out] x outcome_of_traceD(8) [OF out]
    by (simp add: new_execution_def)
  moreover have "exec_id ?row = x \<and> exec_user ?row = user \<and> exec_conversation ?row = qr_conversation resp \<and>
      plan_model_validate (exec_plan ?row) = Inr p"
    using executed(2,4) by (simp add: new_execution_def executed_response_def)
  moreover
  have two: "two_valued_agents (query_agents env user)" by (rule google_agents_two_valued)
  note results = execution_result [OF executed(2) two run]
  have "list_all2 (\<lambda>s r. result_step_id r = step_id s) (steps p) (out_results out)"
    using outcome_of_traceD(10) [OF out] by (elim list_all2_mono) (auto dest!: map_of_SomeD simp: decision_result_id)
  then have "map (\<lambda>r. JStr (result_step_id r)) (out_results out) = map (\<lambda>s. JStr (step_id s)) (steps p)"
    by (auto simp: list_all2_conv_all_nth intro!: nth_equalityI)
  with each_reported_once [of "out_results out"] results
  have "mset (map report_step (qr_actions resp @ qr_pending resp @ qr_errors resp)) =
      mset (map (\<lambda>s. JStr (step_id s)) (steps p))"
    using executed(4) by (fastforce simp: executed_response_def)
  moreover have "list_all (shows_approval core' user x) (qr_pending resp)"
    using results pending_entry_shown x executed(4)
    by (fastforce simp: executed_response_def pending_approvals_def list_all_iff)
  ultimately show ?thesis unfolding core by blast
qed

section \<open>Conversations\<close>

definition owns :: "app_db \<Rightarrow> nat \<Rightarrow> nat \<Rightarrow> bool" where
  "owns db user cid \<longleftrightarrow> list_ex (\<lambda>c. conv_id c = cid \<and> conv_user c = user) (conversations db)"

lemma load_or_create_owned:
  assumes "load_or_create_conversation user requested db = Inr (cid, db1)"
  shows "owns db1 user cid" and "messages db1 = messages db"
    and "executions (core db1) = executions (core db)" and "approvals (core db1) = approvals (core db)"
  using assms
  by (auto simp: load_or_create_conversation_def add_conversation_def Let_def owns_def list_ex_iff find_Some_iff
      split: option.splits)

text \<open>
  C11. Every answered request is recorded: exactly two messages are added, the query of the user and
  the answer returned, in the conversation named in the answer, which belongs to the user. A request
  answered with a clarification question makes no call and stores no execution or approval.
\<close>

theorem answered_query_recorded:
  assumes "submit_query env user req db calls = (Inr resp, db', calls')"
  shows "owns db' user (qr_conversation resp) \<and>
    (\<exists>t. messages db' = messages db @
       [\<lparr>msg_conversation = qr_conversation resp, msg_role = ''user'', msg_content = req_query req,
         msg_created = qe_started env\<rparr>,
        \<lparr>msg_conversation = qr_conversation resp, msg_role = ''assistant'', msg_content = qr_response resp,
         msg_created = t\<rparr>]) \<and>
    (qr_execution resp = None \<longrightarrow> calls' = calls \<and> executions (core db') = executions (core db) \<and>
       approvals (core db') = approvals (core db) \<and> requires_clarification (qr_intent resp))"
  using assms
proof (cases rule: submit_query_cases)
  case (clarified cid db1 i)
  with load_or_create_owned [OF clarified(1)] show ?thesis
    by (simp add: clarification_response_def add_message_def owns_def)
next
  case (executed cid db1 i p out core' ans)
  with load_or_create_owned [OF executed(1)] show ?thesis
    by (simp add: executed_response_def add_message_def owns_def)
qed

text \<open>\<open>ORDER BY created_at DESC\<close>; the order of equal times is left open.\<close>

definition orders_newest_first :: "(message_row list \<Rightarrow> message_row list) \<Rightarrow> bool" where
  "orders_newest_first newest \<longleftrightarrow> (\<forall>ms. mset (newest ms) = mset ms \<and>
     sorted_wrt (\<lambda>a b. msg_created b \<le> msg_created a) (newest ms))"

text \<open>
  C12. The context given to the language model consists of messages of the conversation only, which
  belongs to the user: the at most five most recent ones, oldest first. Every message of the
  conversation that is left out is no newer than those given.
\<close>

theorem context_is_recent_and_own:
  assumes "load_or_create_conversation user requested db = Inr (cid, db1)" and "orders_newest_first newest"
  shows "owns db1 user cid \<and>
    (\<exists>given rest. recent_context newest cid db1 = map (\<lambda>m. (msg_role m, msg_content m)) given \<and>
       mset (given @ rest) = mset (filter (\<lambda>m. msg_conversation m = cid) (messages db)) \<and>
       length given = min 5 (length (filter (\<lambda>m. msg_conversation m = cid) (messages db))) \<and>
       sorted (map msg_created given) \<and>
       list_all (\<lambda>m. list_all (\<lambda>r. msg_created r \<le> msg_created m) rest) given)"
proof
  note loaded = load_or_create_owned [OF assms(1)]
  show "owns db1 user cid" by (rule loaded(1))
  let ?ms = "filter (\<lambda>m. msg_conversation m = cid) (messages db)"
  let ?new = "newest ?ms"
  from assms(2) have new: "mset ?new = mset ?ms" "sorted_wrt (\<lambda>a b. msg_created b \<le> msg_created a) ?new"
    unfolding orders_newest_first_def by blast+
  then have parts: "sorted_wrt (\<lambda>a b. msg_created b \<le> msg_created a) (take 5 ?new)"
    "\<forall>m \<in> set (take 5 ?new). \<forall>r \<in> set (drop 5 ?new). msg_created r \<le> msg_created m"
    using sorted_wrt_append [of "\<lambda>a b. msg_created b \<le> msg_created a" "take 5 ?new" "drop 5 ?new"] by simp_all
  have "recent_context newest cid db1 = map (\<lambda>m. (msg_role m, msg_content m)) (rev (take 5 ?new))"
    by (simp add: recent_context_def conversation_messages_def loaded(2))
  moreover have "mset (rev (take 5 ?new) @ drop 5 ?new) = mset ?ms"
    using new(1) by (simp only: mset_append mset_rev mset_append [symmetric] append_take_drop_id)
  moreover have "length (rev (take 5 ?new)) = min 5 (length ?ms)"
    using mset_eq_length [OF new(1)] by (simp add: min.commute)
  moreover have "sorted (map msg_created (rev (take 5 ?new)))"
    using parts(1) by (simp add: sorted_map sorted_wrt_rev)
  moreover have "list_all (\<lambda>m. list_all (\<lambda>r. msg_created r \<le> msg_created m) (drop 5 ?new)) (rev (take 5 ?new))"
    using parts(2) by (simp add: list_all_iff)
  ultimately show "\<exists>given rest. recent_context newest cid db1 = map (\<lambda>m. (msg_role m, msg_content m)) given \<and>
      mset (given @ rest) = mset ?ms \<and> length given = min 5 (length ?ms) \<and> sorted (map msg_created given) \<and>
      list_all (\<lambda>m. list_all (\<lambda>r. msg_created r \<le> msg_created m) rest) given" by blast
qed

section \<open>Sample requests\<close>

definition sample_newest :: "message_row list \<Rightarrow> message_row list" where
  "sample_newest ms = rev (sort_key msg_created ms)"

text \<open>The model answers by the first letters of the prompt.\<close>

definition sample_content :: "string \<Rightarrow> json option" where
  "sample_content s =
     (if s = ''You'' then Some (JObj sample_model_intent)
      else if s = ''Cre'' then Some (plan_dump sample_folder_plan)
      else Some (JObj [(''response'', JStr ''The folder awaits your approval.'')]))"

definition sample_query_env :: query_env where
  "sample_query_env =
     \<lparr>qe_api_key = Some ''key'', qe_completion = \<lambda>prompt _. Inr (Some (take 3 prompt)),
      qe_json_loads = sample_content, qe_zone_info = \<lambda>_. Inr sample_zone, qe_timezone = ''Asia/Kolkata'',
      qe_duration = 30, qe_now = sample_reference, qe_newest = sample_newest, qe_started = 10, qe_answered = 11,
      qe_fernet = \<lambda>_. Some \<lparr>tc_encrypt = \<lambda>s. s, tc_decrypt = Some\<rparr>, qe_encryption_key = ''k'',
      qe_world = sample_world, qe_float = \<lambda>_. ''0.0''\<rparr>"

definition sample_app_db :: app_db where
  "sample_app_db = \<lparr>conversations = [\<lparr>conv_id = 8, conv_user = 7\<rparr>],
     messages = [\<lparr>msg_conversation = 8, msg_role = ''user'', msg_content = ''hello'', msg_created = 1\<rparr>,
       \<lparr>msg_conversation = 9, msg_role = ''user'', msg_content = ''private'', msg_created = 2\<rparr>],
     core = empty_database\<lparr>next_id := 20\<rparr>\<rparr>"

definition sample_find_email :: query_request where
  "sample_find_email = \<lparr>req_query = ''find email'', req_conversation = Some 8\<rparr>"

lemma sample_newest_orders: "orders_newest_first sample_newest"
proof -
  have "\<forall>ms. sorted_wrt (\<lambda>a b. msg_created a \<le> msg_created b) (sort_key msg_created ms)"
    using sorted_sort_key [of msg_created] unfolding sorted_map by blast
  then show ?thesis by (simp add: orders_newest_first_def sample_newest_def sorted_wrt_rev)
qed

lemma context_is_recent_and_own_witness:
  "owns sample_app_db 7 8 \<and> recent_context sample_newest 8 sample_app_db = [(''user'', ''hello'')] \<and>
   (\<exists>(given :: message_row list) (rest :: message_row list). recent_context sample_newest 8 sample_app_db = map (\<lambda>m. (msg_role m, msg_content m)) given \<and>
      length given = 1 \<and> sorted (map msg_created given) \<and>
      list_all (\<lambda>m. list_all (\<lambda>r. msg_created r \<le> msg_created m) rest) given)"
proof -
  have "load_or_create_conversation 7 (Some 8) sample_app_db = Inr (8, sample_app_db)"
    and len: "length (filter (\<lambda>m. msg_conversation m = 8) (messages sample_app_db)) = 1"
    by (simp_all add: load_or_create_conversation_def sample_app_db_def)
  from context_is_recent_and_own [OF this(1) sample_newest_orders] obtain given rest :: "message_row list" where
    "owns sample_app_db 7 8"
    "recent_context sample_newest 8 sample_app_db = map (\<lambda>m. (msg_role m, msg_content m)) given"
    "length given = min 5 (length (filter (\<lambda>m. msg_conversation m = 8) (messages sample_app_db)))"
    "sorted (map msg_created given)" "list_all (\<lambda>m. list_all (\<lambda>r. msg_created r \<le> msg_created m) rest) given"
    by blast
  moreover from this(3) have "length given = 1" by (simp only: len)
  moreover have "recent_context sample_newest 8 sample_app_db = [(''user'', ''hello'')]"
    by (simp add: recent_context_def conversation_messages_def sample_newest_def sample_app_db_def)
  ultimately show ?thesis by (intro conjI exI [of _ given] exI [of _ rest])
qed

lemma failed_query_changes_nothing_witness:
  "submit_query sample_query_env 7 \<lparr>req_query = ''find email'', req_conversation = Some 9\<rparr> sample_app_db [] =
     (Inl (HTTPError 404 ''Conversation not found''), sample_app_db, []) \<and>
   \<not> list_ex (\<lambda>c. conv_id c = 9 \<and> conv_user c = 7) (conversations sample_app_db)"
proof -
  have run: "submit_query sample_query_env 7 \<lparr>req_query = ''find email'', req_conversation = Some 9\<rparr> sample_app_db [] =
     (Inl (HTTPError 404 ''Conversation not found''), sample_app_db, [])"
    by (simp add: submit_query_def load_or_create_conversation_def sample_app_db_def)
  from failed_query_changes_nothing [OF this] run show ?thesis by simp
qed

lemma sample_registry: "query_registry sample_query_env 7 = Inr (query_agents sample_query_env 7)"
  by (simp add: query_registry_def open_google_registry_def new_cipher_def sample_query_env_def)

definition sample_model :: "string \<Rightarrow> json \<Rightarrow> py_error + dict" where
  "sample_model = generate_json (\<lambda>prompt _. Inr (Some (take 3 prompt)) :: py_error + string option) sample_content"

definition sample_mail_intent :: intent where
  "sample_mail_intent = \<lparr>intent_name = ''find_mail'', required_services = [GMAIL], extracted_entities = [],
     requires_clarification = False, clarification_question = None\<rparr>"

lemma sample_provider: "groq_provider sample_query_env = Inr sample_model"
  by (simp add: groq_provider_def sample_query_env_def sample_model_def)

lemma sample_model_answers:
  "classify_attempts sample_model payload ''find email'' intent_prompts = Inr sample_mail_intent"
  "sample_model (planner_prompt False) payload = Inr [(''steps'', JList (map step_dump (steps sample_folder_plan)))]"
  "checked_plan (query_agents sample_query_env 7) sample_mail_intent ''find email'' sample_zone ''Asia/Kolkata'' 30
     sample_reference [(''steps'', JList (map step_dump (steps sample_folder_plan)))] = Inr sample_folder_plan"
  by code_simp+

lemma sample_query_run:
  "\<exists>resp db' calls'. submit_query sample_query_env 7 sample_find_email sample_app_db [] = (Inr resp, db', calls') \<and>
     qr_execution resp = Some 20"
proof -
  have aware: "aware_utc sample_reference = sample_reference" by (simp add: aware_utc_def sample_reference_def)
  have plan: "create_plan (query_agents sample_query_env 7) (\<lambda>_. Inr sample_zone) sample_model ''find email''
      sample_mail_intent ''Asia/Kolkata'' 30 sample_reference False = Inr sample_folder_plan"
    by (simp add: create_plan.simps [where repair = False] aware sample_local sample_model_answers)
  let ?env = sample_query_env and ?db = "add_message 8 ''user'' ''find email'' 10 sample_app_db"
  from planned_execution [OF plan] obtain out core' calls' where
    run: "dag_execute (query_agents ?env 7) 7 8 sample_mail_intent sample_folder_plan (core ?db) [] =
      Inr (out, core', calls')"
    and valid: "plan_model_validate (plan_dump sample_folder_plan) = Inr sample_folder_plan" by blast
  from dag_execute_Inr [OF valid run] obtain tr where
    out: "outcome_of_trace (next_id (core ?db)) 7 8 sample_mail_intent sample_folder_plan (core ?db) [] tr
      (out, core', calls')" .
  have xid: "out_execution_id out = 20" using outcome_of_traceD(8) [OF out] by (simp add: sample_app_db_def add_message_def)
  obtain ans where ans: "answer_text (\<lambda>_. ''0.0'') sample_model ''find email'' (out_results out) = Inr ans"
    using answer_text_total [OF sample_provider] by blast
  have conv: "load_or_create_conversation 7 (Some 8) sample_app_db = Inr (8, sample_app_db)"
    by (simp add: load_or_create_conversation_def sample_app_db_def)
  have env: "qe_zone_info ?env = (\<lambda>_. Inr sample_zone)" "qe_timezone ?env = ''Asia/Kolkata''" "qe_duration ?env = 30"
    "qe_now ?env = sample_reference" "qe_started ?env = 10" "qe_float ?env = (\<lambda>_. ''0.0'')"
    by (simp_all add: sample_query_env_def)
  have "classify (\<lambda>_. Inr sample_zone) sample_model ''find email'' context sample_reference ''Asia/Kolkata'' =
      Inr sample_mail_intent" for "context"
    by (simp add: classify_def sample_no_hints sample_model_answers(1))
  with plan run ans conv show ?thesis
    by (simp add: submit_query_def run_query_def sample_find_email_def sample_provider sample_registry env sample_mail_intent_def
        executed_response_def xid)
qed

lemma executed_query_reports_plan_witness:
  "\<exists>resp db' calls' row p. submit_query sample_query_env 7 sample_find_email sample_app_db [] = (Inr resp, db', calls') \<and>
     row \<in> set (executions (core db')) \<and> exec_id row = 20 \<and> exec_user row = 7 \<and>
     plan_model_validate (exec_plan row) = Inr p \<and>
     mset (map report_step (qr_actions resp @ qr_pending resp @ qr_errors resp)) = mset (map (\<lambda>s. JStr (step_id s)) (steps p))"
proof -
  from sample_query_run obtain resp db' calls' where
    run: "submit_query sample_query_env 7 sample_find_email sample_app_db [] = (Inr resp, db', calls')"
    and x: "qr_execution resp = Some 20" by blast
  from executed_query_reports_plan [OF run x] run show ?thesis by blast
qed

lemma answered_query_recorded_witness:
  "\<exists>resp db' calls'. submit_query sample_query_env 7 sample_find_email sample_app_db [] = (Inr resp, db', calls') \<and>
     owns db' 7 (qr_conversation resp) \<and> length (messages db') = 4"
proof -
  from sample_query_run obtain resp db' calls' where
    run: "submit_query sample_query_env 7 sample_find_email sample_app_db [] = (Inr resp, db', calls')" by blast
  from answered_query_recorded [OF run] have "owns db' 7 (qr_conversation resp)" "length (messages db') = 4"
    by (auto simp: sample_app_db_def)
  with run show ?thesis by blast
qed

end
