(* ===== verification/Normalization.thy ===== *)
theory Normalization
  imports Gmail_Agent Index_Store
begin

text \<open>
  \<open>app/retrieval/normalization.py\<close>: the index item made of a message, an event or a file as the
  Google services return it. Values are untyped, so that every access may raise; \<open>str\<close> of a value
  is \<open>py_str\<close>. \<open>parse_email\<close> is \<open>parsedate_to_datetime\<close>, \<open>None\<close> where it raises, and the decoding
  of base64 is the one of the client, \<open>decode_base64\<close>.
\<close>

abbreviation api_str :: "google_api \<Rightarrow> json \<Rightarrow> string" where
  "api_str api v \<equiv> py_str (float_text api) v"

definition labeled_text :: "(string \<times> string) list \<Rightarrow> string" where
  "labeled_text labels =
     py_join [CHR 0x0A] (map (\<lambda>(name, v). name @ '': '' @ v) (filter (\<lambda>(name, v). v \<noteq> []) labels))"

definition parse_datetime :: "json \<Rightarrow> datetime option" where
  "parse_datetime v =
     (case v of JStr s \<Rightarrow> if s = [] then None else datetime_fromisoformat (replace_z s) | _ \<Rightarrow> None)"

definition email_datetime :: "(string \<Rightarrow> datetime option) \<Rightarrow> string \<Rightarrow> string" where
  "email_datetime parse_email s =
     (if s = [] then [] else (case parse_email s of None \<Rightarrow> s | Some t \<Rightarrow> isoformat t))"

section \<open>Messages\<close>

definition header_entry :: "google_api \<Rightarrow> json \<Rightarrow> agent_exception + string \<times> string" where
  "header_entry api h =
     and_then (attr_get h ''name'' (JStr [])) (\<lambda>name.
     and_then (attr_get h ''value'' (JStr [])) (\<lambda>v.
     Inr (py_lower (api_str api name), api_str api v)))"

definition message_headers :: "google_api \<Rightarrow> json \<Rightarrow> agent_exception + (string \<times> string) list" where
  "message_headers api payload =
     and_then (attr_get payload ''headers'' (JList [])) (\<lambda>hs.
     and_then (iterate hs) (\<lambda>hs.
     and_then (map_res (header_entry api) hs) (\<lambda>hs. Inr (dict_of [] hs))))"

text \<open>Only a \<open>ValueError\<close> or a \<open>TypeError\<close> of the decoding is caught.\<close>

definition decode_quietly :: "google_api \<Rightarrow> json \<Rightarrow> agent_exception + string" where
  "decode_quietly api encoded =
     (case decode_part api (JStr (api_str api encoded)) of
        Inl (Python (ValueError _)) \<Rightarrow> Inr []
      | Inl (Python TypeError) \<Rightarrow> Inr []
      | r \<Rightarrow> r)"

function gmail_text :: "google_api \<Rightarrow> json \<Rightarrow> agent_exception + string" and
  gmail_parts :: "google_api \<Rightarrow> json list \<Rightarrow> agent_exception + string" where
  "gmail_text api (JObj payload) =
     (let parts =
        (case dict_get payload ''parts'' of
           None \<Rightarrow> Inr []
         | Some (JList ps) \<Rightarrow> gmail_parts api ps
         | Some (JObj []) \<Rightarrow> Inr []
         | Some (JStr []) \<Rightarrow> Inr []
         | Some (JObj _) \<Rightarrow> Inl (Python AttributeError)
         | Some (JStr _) \<Rightarrow> Inl (Python AttributeError)
         | Some _ \<Rightarrow> Inl (Python TypeError)) in
      if py_get payload ''mimeType'' = JStr ''text/plain'' then
        and_then (attr_get (dict_get_or payload ''body'' (JObj [])) ''data'' JNull) (\<lambda>encoded.
        if py_truthy encoded then decode_quietly api encoded else parts)
      else parts)"
| "gmail_text api JNull = Inl (Python AttributeError)"
| "gmail_text api (JBool b) = Inl (Python AttributeError)"
| "gmail_text api (JInt i) = Inl (Python AttributeError)"
| "gmail_text api (JFloat r) = Inl (Python AttributeError)"
| "gmail_text api (JStr s) = Inl (Python AttributeError)"
| "gmail_text api (JList xs) = Inl (Python AttributeError)"
| "gmail_parts api [] = Inr []"
| "gmail_parts api (p # ps) =
     and_then (gmail_text api p) (\<lambda>s. if s \<noteq> [] then Inr s else gmail_parts api ps)"
  by pat_completeness auto
termination
  by (relation "measure (\<lambda>x. case x of Inl (_, v) \<Rightarrow> size v | Inr (_, vs) \<Rightarrow> size_list size vs)")
    (auto dest: size_dict_get)

definition header_or :: "(string \<times> string) list \<Rightarrow> string \<Rightarrow> string \<Rightarrow> string" where
  "header_or headers k dflt = (let s = dict_get_or headers k [] in if s = [] then dflt else s)"

definition normalize_gmail ::
  "google_api \<Rightarrow> (string \<Rightarrow> datetime option) \<Rightarrow> dict \<Rightarrow> agent_exception + normalized_item" where
  "normalize_gmail api parse_email message =
     (let payload = py_or (py_get message ''payload'') (JObj []) in
      and_then (message_headers api payload) (\<lambda>headers.
      and_then (gmail_text api payload) (\<lambda>plain.
      let subject = header_or headers ''subject'' ''(no subject)'';
          body = take 50000 (if plain = [] then api_str api (py_or (py_get message ''snippet'') (JStr []))
                             else plain);
          sender = header_or headers ''from'' [];
          recipients = header_or headers ''to'' [];
          sent_at = email_datetime parse_email (header_or headers ''date'' []) in
      and_then (subscript (JObj message) ''id'') (\<lambda>ident.
      Inr \<lparr>ni_service = ''gmail'', ni_external_id = api_str api ident, ni_title = subject,
        ni_text = labeled_text [(''Subject'', subject), (''Sender'', sender), (''Recipients'', recipients),
          (''Date'', sent_at), (''Body'', body)],
        ni_metadata = [(''sender'', JStr sender), (''recipients'', JStr recipients), (''date'', JStr sent_at),
          (''thread_id'', py_get message ''threadId''),
          (''label_ids'', dict_get_or message ''labelIds'' (JList []))],
        ni_created = None, ni_updated = None\<rparr>))))"

section \<open>Events\<close>

definition event_moment :: "json \<Rightarrow> string \<Rightarrow> agent_exception + json" where
  "event_moment event k =
     and_then (attr_get event k (JObj [])) (\<lambda>moment.
     and_then (attr_get moment ''dateTime'' JNull) (\<lambda>t.
     and_then (attr_get moment ''date'' JNull) (\<lambda>d.
     Inr (py_or t (py_or d (JStr []))))))"

fun attendee_emails :: "google_api \<Rightarrow> json list \<Rightarrow> agent_exception + string list" where
  "attendee_emails api [] = Inr []"
| "attendee_emails api (a # as) =
     and_then (attr_get a ''email'' JNull) (\<lambda>email.
     and_then (attendee_emails api as) (\<lambda>rest.
     Inr (if py_truthy email then api_str api email # rest else rest)))"

definition normalize_calendar :: "google_api \<Rightarrow> json \<Rightarrow> agent_exception + normalized_item" where
  "normalize_calendar api event =
     and_then (attr_get event ''summary'' JNull) (\<lambda>summary.
     and_then (event_moment event ''start'') (\<lambda>start.
     and_then (event_moment event ''end'') (\<lambda>stop.
     and_then (attr_get event ''attendees'' (JList [])) (\<lambda>guests.
     and_then (iterate guests) (\<lambda>guests.
     and_then (attendee_emails api guests) (\<lambda>attendees.
     and_then (attr_get event ''description'' JNull) (\<lambda>description.
     and_then (subscript event ''id'') (\<lambda>ident.
     and_then (attr_get event ''status'' JNull) (\<lambda>st.
     and_then (attr_get event ''created'' JNull) (\<lambda>created.
     and_then (attr_get event ''updated'' JNull) (\<lambda>updated.
     let title = api_str api (py_or summary (JStr ''(untitled event)'')) in
     Inr \<lparr>ni_service = ''google_calendar'', ni_external_id = api_str api ident, ni_title = title,
       ni_text = labeled_text [(''Title'', title),
         (''Description'', take 20000 (api_str api (py_or description (JStr [])))),
         (''Start'', api_str api start), (''End'', api_str api stop),
         (''Attendees'', py_join '', '' attendees)],
       ni_metadata = [(''start'', start), (''end'', stop), (''attendees'', JList (map JStr attendees)),
         (''status'', st)],
       ni_created = parse_datetime created, ni_updated = parse_datetime updated\<rparr>)))))))))))"

section \<open>Files\<close>

definition normalize_drive :: "google_api \<Rightarrow> json \<Rightarrow> string option \<Rightarrow> agent_exception + normalized_item" where
  "normalize_drive api file text_content =
     (case file of
        JObj d \<Rightarrow>
          and_then (subscript file ''id'') (\<lambda>ident.
          let title = api_str api (py_or (py_get d ''name'') (JStr ''(unnamed file)''));
              mime_type = api_str api (py_or (py_get d ''mimeType'') (JStr []));
              description = api_str api (py_or (py_get d ''description'') (JStr []));
              safe_text = take 100000 (case text_content of None \<Rightarrow> [] | Some s \<Rightarrow> s) in
          Inr \<lparr>ni_service = ''google_drive'', ni_external_id = api_str api ident, ni_title = title,
            ni_text = labeled_text [(''Filename'', title), (''MIMEType'', mime_type),
              (''Description'', description),
              (''Modified'', api_str api (py_or (py_get d ''modifiedTime'') (JStr []))),
              (''Content'', safe_text)],
            ni_metadata = [(''mime_type'', JStr mime_type), (''modified_time'', py_get d ''modifiedTime''),
              (''created_time'', py_get d ''createdTime''), (''parents'', dict_get_or d ''parents'' (JList [])),
              (''web_view_link'', py_get d ''webViewLink'')],
            ni_created = parse_datetime (py_get d ''createdTime''),
            ni_updated = parse_datetime (py_get d ''modifiedTime'')\<rparr>)
      | _ \<Rightarrow> Inl (Python AttributeError))"

end
