(* ===== verification/Sync_Service.thy ===== *)
theory Sync_Service
  imports Normalization Search Clock
begin

text \<open>
  \<open>app/sync/service.py\<close>: the service that copies mail, events and files into the index and keeps
  the state of each service in the table \<open>sync_state\<close>.

  A computation works on the requests sent so far and the index of the session, and ends with a value
  or an exception; \<open>None\<close> is a run that does not return, which the paging loops allow: a page with a
  token and without items brings a loop no further. \<open>sy_now\<close> is the clock, read after the requests
  sent so far and the items counted so far. Exceptions of the database itself are left out.
\<close>

record sync_env =
  sy_api :: google_api
  sy_embedder :: embedder
  sy_parse_email :: "string \<Rightarrow> datetime option"
  sy_now :: "google_request list \<Rightarrow> int \<Rightarrow> datetime"
  sy_gmail_max :: int
  sy_drive_max :: int
  sy_lookback :: int
  sy_lookahead :: int
  sy_other_error :: string

type_synonym sync_state = "google_request list \<times> index_db"
type_synonym 'a sync_io = "sync_state \<Rightarrow> (sync_state \<times> (agent_exception + 'a)) option"

definition sync_return :: "'a \<Rightarrow> 'a sync_io" where
  "sync_return x st = Some (st, Inr x)"

definition sync_bind :: "'a sync_io \<Rightarrow> ('a \<Rightarrow> 'b sync_io) \<Rightarrow> 'b sync_io" where
  "sync_bind m f st =
     (case m st of
        None \<Rightarrow> None
      | Some (st', Inl e) \<Rightarrow> Some (st', Inl e)
      | Some (st', Inr x) \<Rightarrow> f x st')"

definition sync_lift :: "agent_exception + 'a \<Rightarrow> 'a sync_io" where
  "sync_lift r st = Some (st, r)"

definition sync_request :: "'a google_io \<Rightarrow> 'a sync_io" where
  "sync_request m st = (case m (fst st) of (hist, r) \<Rightarrow> Some ((hist, snd st), r))"

definition sync_clock :: "sync_env \<Rightarrow> datetime sync_io" where
  "sync_clock env st = Some (st, Inr (sy_now env (fst st) 0))"

definition sync_index :: "sync_env \<Rightarrow> nat \<Rightarrow> int \<Rightarrow> normalized_item \<Rightarrow> unit sync_io" where
  "sync_index env user cnt i st =
     (case index_item (sy_embedder env) user (sy_now env (fst st) cnt) i (snd st) of
        None \<Rightarrow> None
      | Some (Inl e) \<Rightarrow> Some (st, Inl (Python e))
      | Some (Inr (_, ix)) \<Rightarrow> Some ((fst st, ix), Inr ()))"

section \<open>Pages\<close>

text \<open>The items of one page, up to \<open>maximum\<close> in all; \<open>step\<close> fetches and indexes one.\<close>

fun index_items :: "int option \<Rightarrow> (int \<Rightarrow> json \<Rightarrow> unit sync_io) \<Rightarrow> json list \<Rightarrow> int \<Rightarrow> int sync_io" where
  "index_items maximum step [] cnt = sync_return cnt"
| "index_items maximum step (x # xs) cnt =
     sync_bind (step cnt x) (\<lambda>_.
     (case maximum of
        None \<Rightarrow> index_items maximum step xs (cnt + 1)
      | Some m \<Rightarrow>
          if m \<le> cnt + 1 then sync_return (cnt + 1) else index_items maximum step xs (cnt + 1)))"

definition sync_page ::
  "google_api \<Rightarrow> string \<Rightarrow> (int \<Rightarrow> json \<Rightarrow> dict) \<Rightarrow> string \<Rightarrow> int option \<Rightarrow> (int \<Rightarrow> json \<Rightarrow> unit sync_io) \<Rightarrow>
   int \<Rightarrow> json \<Rightarrow> (int \<times> json) sync_io" where
  "sync_page api method params key maximum step cnt token =
     sync_bind (sync_request (call api method (params cnt token))) (\<lambda>response.
     sync_bind (sync_lift (iterate (dict_get_or response key (JList [])))) (\<lambda>found.
     sync_bind (index_items maximum step found cnt) (\<lambda>cnt.
     sync_return (cnt, py_get response ''nextPageToken''))))"

definition limit_reached :: "int option \<Rightarrow> int \<Rightarrow> bool" where
  "limit_reached maximum cnt \<longleftrightarrow> (case maximum of None \<Rightarrow> False | Some m \<Rightarrow> m \<le> cnt)"

partial_function (option) sync_pages ::
  "(int \<Rightarrow> json \<Rightarrow> (int \<times> json) sync_io) \<Rightarrow> int option \<Rightarrow> int \<Rightarrow> json \<Rightarrow> (int \<times> json) sync_io" where
  "sync_pages page maximum cnt token st =
     (if limit_reached maximum cnt then Some (st, Inr (cnt, token))
      else Option.bind (page cnt token st) (\<lambda>(st', r).
        case r of
          Inl e \<Rightarrow> Some (st', Inl e)
        | Inr (cnt', token') \<Rightarrow>
            if \<not> py_truthy token' \<or> limit_reached maximum cnt' then Some (st', Inr (cnt', token'))
            else sync_pages page maximum cnt' token' st'))"

section \<open>The three services\<close>

text \<open>\<open>int(since.timestamp())\<close>, from the first of January 1970.\<close>

definition epoch_seconds :: "datetime \<Rightarrow> int" where
  "epoch_seconds t =
     (let us = utc_micros t - 719163 * day_micros in
      if 0 \<le> us then us div 1000000 else - (- us div 1000000))"

definition message_step :: "sync_env \<Rightarrow> nat \<Rightarrow> int \<Rightarrow> json \<Rightarrow> unit sync_io" where
  "message_step env user cnt reference =
     sync_bind (sync_lift (subscript reference ''id'')) (\<lambda>ident.
     sync_bind (sync_request (call (sy_api env) ''gmail.users.messages.get''
       [(''userId'', JStr ''me''), (''id'', ident), (''format'', JStr ''full'')])) (\<lambda>message.
     sync_bind (sync_lift (normalize_gmail (sy_api env) (sy_parse_email env) message))
       (sync_index env user cnt)))"

definition message_list_arguments :: "int \<Rightarrow> datetime option \<Rightarrow> int \<Rightarrow> json \<Rightarrow> dict" where
  "message_list_arguments maximum since cnt token =
     [(''userId'', JStr ''me''), (''maxResults'', JInt (min 100 (maximum - cnt))), (''pageToken'', token)] @
     (case since of None \<Rightarrow> [] | Some t \<Rightarrow> [(''q'', JStr (''after:'' @ string_of_int (epoch_seconds t)))])"

definition sync_gmail :: "sync_env \<Rightarrow> nat \<Rightarrow> datetime option \<Rightarrow> (int \<times> json) sync_io" where
  "sync_gmail env user since =
     sync_bind (sync_request (build_client (sy_api env) ''gmail'')) (\<lambda>_.
     sync_pages
       (sync_page (sy_api env) ''gmail.users.messages.list'' (message_list_arguments (sy_gmail_max env) since)
         ''messages'' (Some (sy_gmail_max env)) (message_step env user))
       (Some (sy_gmail_max env)) 0 JNull)"

definition event_step :: "sync_env \<Rightarrow> nat \<Rightarrow> int \<Rightarrow> json \<Rightarrow> unit sync_io" where
  "event_step env user cnt event =
     sync_bind (sync_lift (normalize_calendar (sy_api env) event)) (sync_index env user cnt)"

definition days_from :: "datetime \<Rightarrow> int \<Rightarrow> agent_exception + datetime" where
  "days_from t days =
     (case add_minutes t (1440 * days) of None \<Rightarrow> Inl (Python OverflowError) | Some u \<Rightarrow> Inr u)"

definition event_list_arguments :: "datetime \<Rightarrow> datetime \<Rightarrow> int \<Rightarrow> json \<Rightarrow> dict" where
  "event_list_arguments time_min time_max cnt token =
     [(''calendarId'', JStr ''primary''), (''timeMin'', JStr (isoformat time_min)),
      (''timeMax'', JStr (isoformat time_max)), (''singleEvents'', JBool True),
      (''orderBy'', JStr ''startTime''), (''maxResults'', JInt 250), (''pageToken'', token)]"

definition sync_calendar :: "sync_env \<Rightarrow> nat \<Rightarrow> (int \<times> json) sync_io" where
  "sync_calendar env user =
     sync_bind (sync_request (build_client (sy_api env) ''calendar'')) (\<lambda>_.
     sync_bind (sync_clock env) (\<lambda>now.
     sync_bind (sync_lift (days_from now (- sy_lookback env))) (\<lambda>time_min.
     sync_bind (sync_lift (days_from now (sy_lookahead env))) (\<lambda>time_max.
     sync_bind (sync_pages
       (sync_page (sy_api env) ''calendar.events.list'' (event_list_arguments time_min time_max)
         ''items'' None (event_step env user)) None 0 JNull) (\<lambda>(cnt, _).
     sync_return (cnt, JNull))))))"

definition drive_text :: "google_api \<Rightarrow> json \<Rightarrow> string option sync_io" where
  "drive_text api file =
     sync_bind (sync_lift (attr_get file ''mimeType'' JNull)) (\<lambda>mime_type.
     if mime_type = JStr ''application/vnd.google-apps.document'' \<or> mime_type = JStr ''text/plain'' then
       sync_bind (sync_lift (subscript file ''id'')) (\<lambda>ident.
       sync_bind (sync_request
         (if mime_type = JStr ''text/plain'' then download api ''drive.files.get'' [(''fileId'', ident)]
          else download api ''drive.files.export'' [(''fileId'', ident), (''mimeType'', JStr ''text/plain'')]))
       (\<lambda>content.
       sync_return (Some (case content of Inl bytes \<Rightarrow> decode_utf8 api bytes | Inr v \<Rightarrow> api_str api v))))
     else sync_return None)"

definition file_step :: "sync_env \<Rightarrow> nat \<Rightarrow> int \<Rightarrow> json \<Rightarrow> unit sync_io" where
  "file_step env user cnt file =
     sync_bind (drive_text (sy_api env) file) (\<lambda>content.
     sync_bind (sync_lift (normalize_drive (sy_api env) file content)) (sync_index env user cnt))"

definition file_query :: "datetime option \<Rightarrow> agent_exception + string" where
  "file_query since =
     (case since of
        None \<Rightarrow> Inr ''trashed = false''
      | Some t \<Rightarrow>
          (case astimezone utc_zone t of
             None \<Rightarrow> Inl (Python OverflowError)
           | Some u \<Rightarrow> Inr (''trashed = false and modifiedTime > '' @ [CHR 0x27] @ isoformat u @ [CHR 0x27])))"

definition file_list_arguments :: "int \<Rightarrow> string \<Rightarrow> int \<Rightarrow> json \<Rightarrow> dict" where
  "file_list_arguments maximum query cnt token =
     [(''q'', JStr query), (''pageSize'', JInt (min 100 (maximum - cnt))), (''pageToken'', token),
      (''fields'', JStr (''nextPageToken,files(id,name,mimeType,description,modifiedTime,createdTime,'' @
        ''parents,webViewLink,size,trashed)''))]"

definition sync_drive :: "sync_env \<Rightarrow> nat \<Rightarrow> datetime option \<Rightarrow> (int \<times> json) sync_io" where
  "sync_drive env user since =
     sync_bind (sync_request (build_client (sy_api env) ''drive'')) (\<lambda>_.
     sync_bind (sync_lift (file_query since)) (\<lambda>query.
     sync_pages
       (sync_page (sy_api env) ''drive.files.list'' (file_list_arguments (sy_drive_max env) query)
         ''files'' (Some (sy_drive_max env)) (file_step env user))
       (Some (sy_drive_max env)) 0 JNull))"

section \<open>The state of a service\<close>

record sync_db =
  sd_states :: "sync_row list"
  sd_index :: index_db

definition is_state_of :: "nat \<Rightarrow> string \<Rightarrow> sync_row \<Rightarrow> bool" where
  "is_state_of user svc r \<longleftrightarrow> ss_user r = user \<and> ss_service r = svc"

definition new_sync_row :: "nat \<Rightarrow> string \<Rightarrow> sync_row" where
  "new_sync_row user svc =
     \<lparr>ss_user = user, ss_service = svc, ss_status = ''pending'', ss_cursor = JNull, ss_last_success = None,
      ss_last_attempt = None, ss_error = JNull\<rparr>"

text \<open>\<open>_state\<close>: the row of the service, added when there is none.\<close>

definition sync_state_row :: "nat \<Rightarrow> string \<Rightarrow> sync_row list \<Rightarrow> sync_row \<times> sync_row list" where
  "sync_state_row user svc rows =
     (case List.find (is_state_of user svc) rows of
        Some r \<Rightarrow> (r, rows)
      | None \<Rightarrow> (new_sync_row user svc, rows @ [new_sync_row user svc]))"

definition write_state :: "nat \<Rightarrow> string \<Rightarrow> (sync_row \<Rightarrow> sync_row) \<Rightarrow> sync_row list \<Rightarrow> sync_row list" where
  "write_state user svc f rows =
     map (\<lambda>r. if is_state_of user svc r then f r else r) (snd (sync_state_row user svc rows))"

definition mark_running :: "datetime \<Rightarrow> sync_row \<Rightarrow> sync_row" where
  "mark_running now r = r\<lparr>ss_status := ''running'', ss_last_attempt := Some now, ss_error := JNull\<rparr>"

definition mark_completed :: "json \<Rightarrow> datetime \<Rightarrow> sync_row \<Rightarrow> sync_row" where
  "mark_completed cursor now r =
     r\<lparr>ss_status := ''completed'', ss_cursor := cursor, ss_last_success := Some now, ss_error := JNull\<rparr>"

definition mark_failed :: "string \<Rightarrow> sync_row \<Rightarrow> sync_row" where
  "mark_failed kind r = r\<lparr>ss_status := ''failed'', ss_error := JObj [(''type'', JStr kind)]\<rparr>"

text \<open>A last success without a time zone is not used.\<close>

definition previous_success :: "nat \<Rightarrow> string \<Rightarrow> sync_row list \<Rightarrow> datetime option" where
  "previous_success user svc rows =
     (case ss_last_success (fst (sync_state_row user svc rows)) of
        None \<Rightarrow> None | Some t \<Rightarrow> if is_aware t then Some t else None)"

text \<open>\<open>type(exc).__name__\<close>.\<close>

definition exception_name :: "sync_env \<Rightarrow> agent_exception \<Rightarrow> string" where
  "exception_name env e =
     (case e of
        Python (ValueError _) \<Rightarrow> ''ValueError''
      | Python (KeyError _) \<Rightarrow> ''KeyError''
      | Python TypeError \<Rightarrow> ''TypeError''
      | Python (RuntimeError _) \<Rightarrow> ''RuntimeError''
      | Python (LLMProviderError _) \<Rightarrow> ''LLMProviderError''
      | Python AttributeError \<Rightarrow> ''AttributeError''
      | Python OverflowError \<Rightarrow> ''OverflowError''
      | HttpError _ \<Rightarrow> ''HttpError''
      | OtherError \<Rightarrow> sy_other_error env)"

definition sync_work :: "sync_env \<Rightarrow> nat \<Rightarrow> service \<Rightarrow> datetime option \<Rightarrow> (int \<times> json) sync_io" where
  "sync_work env user svc since =
     (if svc = GMAIL then sync_gmail env user since
      else if svc = GOOGLE_CALENDAR then sync_calendar env user
      else sync_drive env user since)"

definition sync_services :: "service list" where
  "sync_services = [GMAIL, GOOGLE_CALENDAR, GOOGLE_DRIVE]"

record sync_result =
  sr_status :: string
  sr_indexed :: int

definition sync_service ::
  "sync_env \<Rightarrow> nat \<Rightarrow> service \<Rightarrow> google_request list \<times> sync_db \<Rightarrow>
   ((google_request list \<times> sync_db) \<times> (py_error + sync_result)) option" where
  "sync_service env user svc st =
     (if svc \<notin> set sync_services
      then Some (st, Inl (ValueError (''Unsupported sync service: '' @ service_value svc)))
      else
        (case st of (hist, db) \<Rightarrow>
          let name = service_value svc;
              running = write_state user name (mark_running (sy_now env hist 0)) (sd_states db) in
          case sync_work env user svc (previous_success user name (sd_states db)) (hist, sd_index db) of
            None \<Rightarrow> None
          | Some ((hist', ix), Inr (cnt, cursor)) \<Rightarrow>
              Some ((hist', \<lparr>sd_states = write_state user name (mark_completed cursor (sy_now env hist' cnt)) running,
                      sd_index = ix\<rparr>),
                    Inr \<lparr>sr_status = ''completed'', sr_indexed = cnt\<rparr>)
          | Some ((hist', _), Inl e) \<Rightarrow>
              Some ((hist', \<lparr>sd_states = write_state user name (mark_failed (exception_name env e)) running,
                      sd_index = sd_index db\<rparr>),
                    Inr \<lparr>sr_status = ''failed'', sr_indexed = 0\<rparr>)))"

fun sync_each ::
  "sync_env \<Rightarrow> nat \<Rightarrow> service list \<Rightarrow> google_request list \<times> sync_db \<Rightarrow>
   ((google_request list \<times> sync_db) \<times> (py_error + (string \<times> sync_result) list)) option" where
  "sync_each env user [] st = Some (st, Inr [])"
| "sync_each env user (svc # svcs) st =
     (case sync_service env user svc st of
        None \<Rightarrow> None
      | Some (st', Inl e) \<Rightarrow> Some (st', Inl e)
      | Some (st', Inr r) \<Rightarrow>
          (case sync_each env user svcs st' of
             None \<Rightarrow> None
           | Some (st'', Inl e) \<Rightarrow> Some (st'', Inl e)
           | Some (st'', Inr rs) \<Rightarrow> Some (st'', Inr ((service_value svc, r) # rs))))"

definition sync_user ::
  "sync_env \<Rightarrow> nat \<Rightarrow> google_request list \<times> sync_db \<Rightarrow>
   ((google_request list \<times> sync_db) \<times> (py_error + (string \<times> sync_result) list)) option" where
  "sync_user env user st = sync_each env user sync_services st"

section \<open>The status endpoint\<close>

text \<open>\<open>sync_status\<close> of \<open>app/api/routes/sync.py\<close>: the last row of a service counts.\<close>

record sync_service_status =
  st_service :: string
  st_status :: string
  st_last_attempted :: "string option"
  st_last_successful :: "string option"
  st_error :: json

definition sync_status :: "nat \<Rightarrow> sync_row list \<Rightarrow> sync_service_status list" where
  "sync_status user rows =
     (let by_service = dict_of [] (map (\<lambda>r. (ss_service r, r)) (filter (\<lambda>r. ss_user r = user) rows)) in
      map (\<lambda>svc. case dict_get by_service (service_value svc) of
          None \<Rightarrow> \<lparr>st_service = service_value svc, st_status = ''pending'', st_last_attempted = None,
            st_last_successful = None, st_error = JNull\<rparr>
        | Some r \<Rightarrow> \<lparr>st_service = service_value svc, st_status = ss_status r,
            st_last_attempted = map_option isoformat (ss_last_attempt r),
            st_last_successful = map_option isoformat (ss_last_success r), st_error = ss_error r\<rparr>) sync_services)"

end
