(* ===== verification/Sync_Properties.thy ===== *)
theory Sync_Properties
  imports Sync_Service
begin

text \<open>
  What a sync guarantees: the rows of other users are never touched, a failed sync leaves the index
  as it was, the limits on the number of items hold, and the paging ends when pages make progress.

  Invariants of the index are proved once for every computation of \<open>Sync_Service\<close>, in a locale whose
  only law is that indexing an item keeps the invariant.
\<close>

section \<open>Invariants of the index\<close>

definition keeps :: "(index_db \<Rightarrow> bool) \<Rightarrow> 'a sync_io \<Rightarrow> bool" where
  "keeps good m \<longleftrightarrow> (\<forall>st st' r. m st = Some (st', r) \<longrightarrow> good (snd st) \<longrightarrow> good (snd st'))"

named_theorems keeps_intros

lemma keeps_return [keeps_intros]: "keeps good (sync_return x)"
  by (simp add: keeps_def sync_return_def)

lemma keeps_lift [keeps_intros]: "keeps good (sync_lift r)"
  by (simp add: keeps_def sync_lift_def)

lemma keeps_request [keeps_intros]: "keeps good (sync_request m)"
  by (auto simp: keeps_def sync_request_def split: prod.splits)

lemma keeps_clock [keeps_intros]: "keeps good (sync_clock env)"
  by (simp add: keeps_def sync_clock_def)

lemma keeps_bind [keeps_intros]:
  assumes "keeps good m" and "\<And>x. keeps good (f x)"
  shows "keeps good (sync_bind m f)"
  using assms unfolding keeps_def sync_bind_def
  by (fastforce split: option.splits prod.splits sum.splits)

lemma keeps_if [keeps_intros]: "keeps good a \<Longrightarrow> keeps good b \<Longrightarrow> keeps good (if c then a else b)"
  by simp

lemma keeps_index_items [keeps_intros]:
  assumes "\<And>n x. keeps good (step n x)"
  shows "keeps good (index_items maximum step xs n)"
proof (induction xs arbitrary: n)
  case (Cons x xs)
  then show ?case by (auto intro!: keeps_intros assms split: option.split)
qed (simp add: keeps_return)

lemma keeps_page [keeps_intros]:
  assumes "\<And>n x. keeps good (step n x)"
  shows "keeps good (sync_page api method params key maximum step n token)"
  unfolding sync_page_def by (intro keeps_intros assms)

lemma keeps_pages [keeps_intros]:
  assumes page: "\<And>n token. keeps good (page n token)"
  shows "keeps good (sync_pages page maximum n token)"
proof -
  have "good (snd st) \<longrightarrow> good (snd (fst y))" if "sync_pages page maximum n token st = Some y" for st y
  proof -
    have "(\<forall>n token. keeps good (page n token)) \<longrightarrow> good (snd st) \<longrightarrow> good (snd (fst y))"
    proof (rule sync_pages.raw_induct [where P = "\<lambda>pg mx k tok st y.
      (\<forall>n token. keeps good (pg n token)) \<longrightarrow> good (snd st) \<longrightarrow> good (snd (fst y))", OF _ that])
    fix pages pg mx k tok st y
    assume IH: "\<And>pg mx k tok st y. pages pg mx k tok st = Some y \<Longrightarrow>
        (\<forall>n token. keeps good (pg n token)) \<longrightarrow> good (snd st) \<longrightarrow> good (snd (fst y))"
      and body: "(if limit_reached mx k then Some (st, Inr (k, tok))
        else Option.bind (pg k tok st) (\<lambda>(st', r). case r of
          Inl e \<Rightarrow> Some (st', Inl e)
        | Inr (k', tok') \<Rightarrow>
            if \<not> py_truthy tok' \<or> limit_reached mx k' then Some (st', Inr (k', tok'))
            else pages pg mx k' tok' st')) = Some y"
    show "(\<forall>n token. keeps good (pg n token)) \<longrightarrow> good (snd st) \<longrightarrow> good (snd (fst y))"
    proof (intro impI)
      assume pg: "\<forall>n token. keeps good (pg n token)" and st: "good (snd st)"
      show "good (snd (fst y))"
      proof (cases "limit_reached mx k")
        case False
        with body obtain st' r where step: "pg k tok st = Some (st', r)" by (cases "pg k tok st") auto
        with pg st have "good (snd st')" unfolding keeps_def by blast
        with False step body IH pg show ?thesis by (auto split: sum.splits prod.splits if_splits)
      qed (use body st in auto)
    qed
    qed
    with page show ?thesis by blast
  qed
  with page show ?thesis unfolding keeps_def by fastforce
qed

locale index_invariant =
  fixes good :: "index_db \<Rightarrow> bool" and user :: nat
  assumes index_keeps: "good ix \<Longrightarrow> index_item e user now i ix = Some (Inr (ident, ix')) \<Longrightarrow> good ix'"
begin

lemma keeps_index: "keeps good (sync_index env user n i)"
  using index_keeps by (auto simp: keeps_def sync_index_def split: option.splits sum.splits)

lemma keeps_steps:
  "keeps good (message_step env user n x)" "keeps good (event_step env user n x)" "keeps good (file_step env user n x)"
  unfolding message_step_def event_step_def file_step_def drive_text_def
  by (intro keeps_intros keeps_index)+

lemma keeps_calendar: "keeps good (sync_calendar env user)"
proof -
  have "keeps good (case x of (n, t) \<Rightarrow> sync_return (n, JNull))" for x :: "int \<times> json"
    by (cases x) (simp add: keeps_return)
  then show ?thesis
    unfolding sync_calendar_def by (intro keeps_intros keeps_steps)
qed

lemma keeps_work: "keeps good (sync_work env user svc since)"
  unfolding sync_work_def sync_gmail_def sync_drive_def
  by (intro keeps_intros keeps_steps keeps_calendar)

lemma service_keeps:
  assumes "sync_service env user svc (hist, db) = Some ((hist', db'), r)" and "good (sd_index db)"
  shows "good (sd_index db')"
  using assms keeps_work [of env svc "previous_success user (service_value svc) (sd_states db)"]
  by (fastforce simp: sync_service_def keeps_def Let_def split: if_splits option.splits sum.splits prod.splits)

lemma each_keeps:
  assumes "sync_each env user svcs (hist, db) = Some ((hist', db'), r)" and "good (sd_index db)"
  shows "good (sd_index db')"
  using assms
proof (induction svcs arbitrary: hist db r)
  case (Cons svc svcs)
  from Cons.prems(1) obtain hist1 db1 q where first: "sync_service env user svc (hist, db) = Some ((hist1, db1), q)"
    by (auto split: option.splits)
  from service_keeps [OF this Cons.prems(2)] have good: "good (sd_index db1)" .
  from Cons.prems(1) first good Cons.IH show ?case by (auto split: option.splits sum.splits)
qed simp

end

text \<open>The tables stay consistent, and nothing of another user changes.\<close>

definition others_kept :: "nat \<Rightarrow> index_db \<Rightarrow> index_db \<Rightarrow> bool" where
  "others_kept user before ix \<longleftrightarrow> index_ok ix \<and>
     (\<forall>other. other \<noteq> user \<longrightarrow> own_items other ix = own_items other before \<and>
        own_chunks other ix = own_chunks other before)"

interpretation sync_others: index_invariant "others_kept user before" user for user before
proof
  fix ix e now i ident ix'
  assume kept: "others_kept user before ix" and run: "index_item e user now i ix = Some (Inr (ident, ix'))"
  from kept have ok: "index_ok ix" by (simp add: others_kept_def)
  show "others_kept user before ix'"
    unfolding others_kept_def
    using index_item_frame(1) [OF ok run] index_item_own [OF ok run] kept unfolding others_kept_def by metis
qed

section \<open>The rows of the table\<close>

definition state_key :: "sync_row \<Rightarrow> nat \<times> string" where
  "state_key r = (ss_user r, ss_service r)"

definition states_ok :: "sync_row list \<Rightarrow> bool" where
  "states_ok rows \<longleftrightarrow> distinct (map state_key rows)"

definition current_state :: "nat \<Rightarrow> string \<Rightarrow> sync_row list \<Rightarrow> sync_row" where
  "current_state user svc rows = fst (sync_state_row user svc rows)"

definition other_states :: "nat \<Rightarrow> string \<Rightarrow> sync_row list \<Rightarrow> sync_row list" where
  "other_states user svc rows = filter (\<lambda>r. \<not> is_state_of user svc r) rows"

lemma is_state_of_key: "is_state_of user svc r \<longleftrightarrow> state_key r = (user, svc)"
  by (simp add: is_state_of_def state_key_def)

lemma new_row_key: "state_key (new_sync_row user svc) = (user, svc)"
  by (simp add: state_key_def new_sync_row_def)

text \<open>After the lookup the row is there, once, and the others are as before.\<close>

lemma sync_state_row_split:
  assumes "states_ok rows"
  obtains before after where "snd (sync_state_row user svc rows) = before @ current_state user svc rows # after"
    "is_state_of user svc (current_state user svc rows)"
    "\<forall>r \<in> set (before @ after). \<not> is_state_of user svc r" "other_states user svc rows = before @ after"
    "distinct (map state_key (before @ after))"
proof (cases "List.find (is_state_of user svc) rows")
  case None
  then have others: "\<forall>r \<in> set rows. \<not> is_state_of user svc r" by (simp add: find_None_iff)
  with None assms show thesis
    by (intro that [of rows "[]"])
      (auto simp: sync_state_row_def current_state_def other_states_def states_ok_def is_state_of_key new_row_key)
next
  case (Some r)
  from find_Some_in [OF Some] have r: "r \<in> set rows" "is_state_of user svc r" by simp_all
  then obtain before after where split: "rows = before @ r # after" by (meson split_list)
  with assms r(2) have "\<forall>x \<in> set (before @ after). \<not> is_state_of user svc x"
    by (auto simp: states_ok_def is_state_of_key image_iff)
  moreover from this have "other_states user svc rows = before @ after"
    using split r(2) by (simp add: other_states_def)
  ultimately show thesis using Some split r(2) assms
    by (intro that [of before after])
      (simp_all add: sync_state_row_def current_state_def states_ok_def)
qed

lemma write_state_row:
  assumes "states_ok rows" and key: "\<And>r. state_key (f r) = state_key r"
  shows "states_ok (write_state user svc f rows)"
    and "current_state user svc (write_state user svc f rows) = f (current_state user svc rows)"
    and "other_states user svc (write_state user svc f rows) = other_states user svc rows"
    and "current_state user svc (write_state user svc f rows) \<in> set (write_state user svc f rows)"
proof -
  let ?r = "current_state user svc rows"
  from assms(1) obtain before after where split: "snd (sync_state_row user svc rows) = before @ ?r # after"
    and r: "is_state_of user svc ?r" and no: "\<forall>r \<in> set (before @ after). \<not> is_state_of user svc r"
    and others: "other_states user svc rows = before @ after" and dist: "distinct (map state_key (before @ after))"
    by (rule sync_state_row_split)
  have fr: "is_state_of user svc (f ?r)" using r key by (simp add: is_state_of_key)
  have unchanged: "map (\<lambda>r. if is_state_of user svc r then f r else r) xs = xs" if "set xs \<subseteq> set (before @ after)" for xs
    using no that by (intro map_idI) auto
  have new: "write_state user svc f rows = before @ f ?r # after"
    using r by (simp add: write_state_def split unchanged)
  have keys: "state_key (f ?r) \<notin> state_key ` set (before @ after)"
    using no r key by (auto simp: is_state_of_key)
  with dist show "states_ok (write_state user svc f rows)" by (auto simp: new states_ok_def)
  have "List.find (is_state_of user svc) before = None" using no by (simp add: find_None_iff)
  then have "List.find (is_state_of user svc) (before @ f ?r # after) = Some (f ?r)"
    using fr by (induction before) (auto split: if_splits)
  then show cur: "current_state user svc (write_state user svc f rows) = f ?r"
    by (simp add: current_state_def sync_state_row_def new)
  show "other_states user svc (write_state user svc f rows) = other_states user svc rows"
    using no fr unfolding others new by (simp add: other_states_def filter_id_conv)
  show "current_state user svc (write_state user svc f rows) \<in> set (write_state user svc f rows)"
    unfolding cur by (simp add: new)
qed

lemma mark_keys: "state_key (mark_running t r) = state_key r" "state_key (mark_completed c t r) = state_key r"
  "state_key (mark_failed k r) = state_key r"
  by (simp_all add: state_key_def mark_running_def mark_completed_def mark_failed_def)

text \<open>
  C27. A sync of a service that returns leaves its row in one of two ways. Completed: the row says so,
  without an error and with a time of success. Failed: the row says so, the time of the last success
  is the one before, and the index is exactly the one before, whatever had been indexed until then.
  The rows of other users and services are untouched, and there is one row per user and service.
\<close>

theorem sync_service_outcome:
  assumes "states_ok (sd_states db)" and "svc \<in> set sync_services"
    and "sync_service env user svc (hist, db) = Some ((hist', db'), r)"
  shows "states_ok (sd_states db') \<and>
    other_states user (service_value svc) (sd_states db') = other_states user (service_value svc) (sd_states db) \<and>
    current_state user (service_value svc) (sd_states db') \<in> set (sd_states db') \<and>
    (\<exists>res row. r = Inr res \<and> row = current_state user (service_value svc) (sd_states db') \<and>
      (sr_status res = ''completed'' \<and> ss_status row = ''completed'' \<and> ss_error row = JNull \<and>
         ss_last_success row \<noteq> None \<or>
       sr_status res = ''failed'' \<and> sr_indexed res = 0 \<and> ss_status row = ''failed'' \<and>
         ss_last_success row = ss_last_success (current_state user (service_value svc) (sd_states db)) \<and>
         sd_index db' = sd_index db))"
proof -
  let ?name = "service_value svc"
  let ?running = "write_state user ?name (mark_running (sy_now env hist 0)) (sd_states db)"
  note running = write_state_row [OF assms(1), of "mark_running (sy_now env hist 0)", OF mark_keys(1), of user ?name]
  from assms(2,3) consider
    (completed) cnt cursor where "r = Inr \<lparr>sr_status = ''completed'', sr_indexed = cnt\<rparr>"
      "sd_states db' = write_state user ?name (mark_completed cursor (sy_now env hist' cnt)) ?running"
  | (failed) e where "r = Inr \<lparr>sr_status = ''failed'', sr_indexed = 0\<rparr>" "sd_index db' = sd_index db"
      "sd_states db' = write_state user ?name (mark_failed (exception_name env e)) ?running"
    by (auto simp: sync_service_def Let_def split: option.splits sum.splits prod.splits)
  then show ?thesis
  proof cases
    case completed
    note written = write_state_row [OF running(1), of "mark_completed cursor (sy_now env hist' cnt)", OF mark_keys(2), of user ?name]
    from completed written running show ?thesis by (simp add: mark_completed_def)
  next
    case failed
    note written = write_state_row [OF running(1), of "mark_failed (exception_name env e)", OF mark_keys(3), of user ?name]
    from failed written running show ?thesis by (simp add: mark_failed_def mark_running_def)
  qed
qed

section \<open>A whole sync\<close>

lemma sync_service_rows:
  assumes "svc \<in> set sync_services" and "sync_service env user svc (hist, db) = Some ((hist', db'), r)"
  shows "\<exists>res. r = Inr res"
    and "filter (\<lambda>r. ss_user r \<noteq> user) (sd_states db') = filter (\<lambda>r. ss_user r \<noteq> user) (sd_states db)"
proof -
  have wrote: "filter (\<lambda>r. ss_user r \<noteq> user) (write_state user name f rows) = filter (\<lambda>r. ss_user r \<noteq> user) rows"
    if "\<And>r. state_key (f r) = state_key r" for name f rows
  proof -
    have "ss_user (f r) = ss_user r" for r using that [of r] by (simp add: state_key_def)
    then have "filter (\<lambda>r. ss_user r \<noteq> user) (map (\<lambda>r. if is_state_of user name r then f r else r) xs) =
        filter (\<lambda>r. ss_user r \<noteq> user) xs" for xs
      by (induction xs) (auto simp: is_state_of_def)
    then show ?thesis by (simp add: write_state_def sync_state_row_def new_sync_row_def split: option.split)
  qed
  from assms show "\<exists>res. r = Inr res"
    "filter (\<lambda>r. ss_user r \<noteq> user) (sd_states db') = filter (\<lambda>r. ss_user r \<noteq> user) (sd_states db)"
    by (auto simp: sync_service_def Let_def wrote mark_keys split: option.splits sum.splits prod.splits)
qed

lemma sync_each_rows:
  assumes "set svcs \<subseteq> set sync_services" and "sync_each env user svcs (hist, db) = Some ((hist', db'), r)"
  shows "(\<exists>rs. r = Inr rs \<and> map fst rs = map service_value svcs) \<and>
    filter (\<lambda>r. ss_user r \<noteq> user) (sd_states db') = filter (\<lambda>r. ss_user r \<noteq> user) (sd_states db)"
  using assms
proof (induction svcs arbitrary: hist db r)
  case (Cons svc svcs)
  from Cons.prems(2) obtain hist1 db1 q where first: "sync_service env user svc (hist, db) = Some ((hist1, db1), q)"
    by (auto split: option.splits)
  note rows = sync_service_rows [OF _ first]
  from Cons.prems(1) rows(1) obtain res where "q = Inr res" by auto
  with Cons.prems first Cons.IH [of hist1 db1] rows(2) show ?case
    by (auto split: option.splits sum.splits)
qed simp

text \<open>
  A sync of a user ends with one result for each of the three services, in order, whatever fails
  on the way; it keeps the tables of the index consistent, and changes no item, chunk or state of
  any other user.
\<close>

lemma sync_user_isolated:
  assumes "index_ok (sd_index db)" and "sync_user env user (hist, db) = Some ((hist', db'), r)" and "other \<noteq> user"
  shows "(\<exists>rs. r = Inr rs \<and> map fst rs = [''gmail'', ''google_calendar'', ''google_drive'']) \<and>
    index_ok (sd_index db') \<and> own_items other (sd_index db') = own_items other (sd_index db) \<and>
    own_chunks other (sd_index db') = own_chunks other (sd_index db) \<and>
    filter (\<lambda>r. ss_user r \<noteq> user) (sd_states db') = filter (\<lambda>r. ss_user r \<noteq> user) (sd_states db)"
proof -
  have "others_kept user (sd_index db) (sd_index db)" using assms(1) by (simp add: others_kept_def)
  with sync_others.each_keeps [OF assms(2) [unfolded sync_user_def]]
  have "others_kept user (sd_index db) (sd_index db')" .
  with assms(3) have "index_ok (sd_index db')" "own_items other (sd_index db') = own_items other (sd_index db)"
    "own_chunks other (sd_index db') = own_chunks other (sd_index db)"
    by (simp_all add: others_kept_def)
  with sync_each_rows [OF _ assms(2) [unfolded sync_user_def]] show ?thesis
    by (simp add: sync_services_def)
qed

section \<open>Limits\<close>

text \<open>One request for a message per item counted; \<open>f\<close> counts them.\<close>

definition is_message_get :: "google_request \<Rightarrow> bool" where
  "is_message_get r \<longleftrightarrow> api_method r = ''gmail.users.messages.get''"

definition message_gets :: "google_request list \<Rightarrow> int" where
  "message_gets hist = int (length (filter is_message_get hist))"

text \<open>A computation that counts from \<open>n\<close> on; \<open>f\<close> grows with the count when it is exact.\<close>

definition counts :: "bool \<Rightarrow> (sync_state \<Rightarrow> int) \<Rightarrow> int option \<Rightarrow> int \<Rightarrow> ('a \<Rightarrow> int) \<Rightarrow> 'a sync_io \<Rightarrow> bool" where
  "counts exact f maximum n number m \<longleftrightarrow> (\<forall>st st' x. m st = Some (st', Inr x) \<longrightarrow>
     n \<le> number x \<and> (\<forall>k. maximum = Some k \<longrightarrow> n \<le> k \<longrightarrow> number x \<le> k) \<and>
     (exact \<longrightarrow> f st' - number x = f st - n))"

lemma counts_index_items:
  assumes "\<And>n x st st'. exact \<Longrightarrow> step n x st = Some (st', Inr ()) \<Longrightarrow> f st' = f st + 1"
    and "\<not> limit_reached maximum n"
  shows "counts exact f maximum n id (index_items maximum step xs n)"
  using assms(2)
proof (induction xs arbitrary: n)
  case (Cons x xs)
  show ?case
    unfolding counts_def
  proof (intro allI impI)
    fix st st' n'
    assume run: "index_items maximum step (x # xs) n st = Some (st', Inr n')"
    then obtain st1 where step: "step n x st = Some (st1, Inr ())"
      by (auto simp: sync_bind_def split: option.splits sum.splits prod.splits)
    note one = assms(1) [OF _ step]
    show "n \<le> id n' \<and> (\<forall>k. maximum = Some k \<longrightarrow> n \<le> k \<longrightarrow> id n' \<le> k) \<and> (exact \<longrightarrow> f st' - id n' = f st - n)"
    proof (cases "limit_reached maximum (n + 1)")
      case True
      with run step have "st' = st1" "n' = n + 1"
        by (auto simp: sync_bind_def limit_reached_def sync_return_def split: option.splits)
      with one Cons.prems True show ?thesis by (auto simp: limit_reached_def split: option.splits)
    next
      case False
      with run step have "index_items maximum step xs (n + 1) st1 = Some (st', Inr n')"
        by (auto simp: sync_bind_def limit_reached_def split: option.splits)
      from Cons.IH [OF False, unfolded counts_def, rule_format, OF this] one False show ?thesis by (auto simp: limit_reached_def split: option.splits)
    qed
  qed
qed (simp add: counts_def sync_return_def)

lemma counts_page:
  assumes step: "\<And>n x st st'. exact \<Longrightarrow> step n x st = Some (st', Inr ()) \<Longrightarrow> f st' = f st + 1"
    and other: "\<And>hist ix params. f (hist @ [Request method params], ix) = f (hist, ix)"
    and "\<not> limit_reached maximum n"
  shows "counts exact f maximum n fst (sync_page api method params key maximum step n token)"
  unfolding counts_def
proof (intro allI impI)
  fix st st' x
  assume run: "sync_page api method params key maximum step n token st = Some (st', Inr x)"
  obtain hist ix where st: "st = (hist, ix)" by (cases st)
  from run obtain found n' where
    items: "index_items maximum step found n (hist @ [Request method (params n token)], ix) = Some (st', Inr n')"
    and x: "fst x = n'"
    by (auto simp: sync_page_def sync_bind_def sync_request_def call_def sync_lift_def sync_return_def st
        split: option.splits sum.splits prod.splits)
  have "counts exact f maximum n id (index_items maximum step found n)"
    by (rule counts_index_items) (use step assms(3) in blast)+
  from this [unfolded counts_def, rule_format, OF items]
  show "n \<le> fst x \<and> (\<forall>k. maximum = Some k \<longrightarrow> n \<le> k \<longrightarrow> fst x \<le> k) \<and> (exact \<longrightarrow> f st' - fst x = f st - n)"
    unfolding x st by (simp add: other)
qed

lemma counts_pages:
  assumes page: "\<And>n token. \<not> limit_reached maximum n \<Longrightarrow> counts exact f maximum n fst (page n token)"
  shows "counts exact f maximum n fst (sync_pages page maximum n token)"
  unfolding counts_def
proof (intro allI impI)
  fix st st' x
  assume run: "sync_pages page maximum n token st = Some (st', Inr x)"
  have all: "(\<forall>n token. \<not> limit_reached maximum n \<longrightarrow> counts exact f maximum n fst (page n token)) \<longrightarrow>
      snd y = Inr x \<longrightarrow> n \<le> fst x \<and> (\<forall>k. maximum = Some k \<longrightarrow> n \<le> k \<longrightarrow> fst x \<le> k) \<and>
      (exact \<longrightarrow> f (fst y) - fst x = f st - n)"
    if run: "sync_pages page maximum n token st = Some y" for y
  proof (rule sync_pages.raw_induct [where P = "\<lambda>pg mx n tok st y.
      (\<forall>n token. \<not> limit_reached mx n \<longrightarrow> counts exact f mx n fst (pg n token)) \<longrightarrow>
      snd y = Inr x \<longrightarrow> n \<le> fst x \<and> (\<forall>k. mx = Some k \<longrightarrow> n \<le> k \<longrightarrow> fst x \<le> k) \<and>
      (exact \<longrightarrow> f (fst y) - fst x = f st - n)", OF _ run])
    fix pages pg mx n tok st and y :: "sync_state \<times> (agent_exception + int \<times> json)"
    assume IH: "\<And>pg mx n tok st y. pages pg mx n tok st = Some y \<Longrightarrow>
        (\<forall>n token. \<not> limit_reached mx n \<longrightarrow> counts exact f mx n fst (pg n token)) \<longrightarrow>
        snd y = Inr x \<longrightarrow> n \<le> fst x \<and> (\<forall>k. mx = Some k \<longrightarrow> n \<le> k \<longrightarrow> fst x \<le> k) \<and>
        (exact \<longrightarrow> f (fst y) - fst x = f st - n)"
      and body: "(if limit_reached mx n then Some (st, Inr (n, tok))
        else Option.bind (pg n tok st) (\<lambda>(st', r). case r of
          Inl e \<Rightarrow> Some (st', Inl e)
        | Inr (n', tok') \<Rightarrow>
            if \<not> py_truthy tok' \<or> limit_reached mx n' then Some (st', Inr (n', tok'))
            else pages pg mx n' tok' st')) = Some y"
    show "(\<forall>n token. \<not> limit_reached mx n \<longrightarrow> counts exact f mx n fst (pg n token)) \<longrightarrow>
        snd y = Inr x \<longrightarrow> n \<le> fst x \<and> (\<forall>k. mx = Some k \<longrightarrow> n \<le> k \<longrightarrow> fst x \<le> k) \<and>
        (exact \<longrightarrow> f (fst y) - fst x = f st - n)"
    proof (intro impI)
      assume pg: "\<forall>n token. \<not> limit_reached mx n \<longrightarrow> counts exact f mx n fst (pg n token)" and y: "snd y = Inr x"
      show "n \<le> fst x \<and> (\<forall>k. mx = Some k \<longrightarrow> n \<le> k \<longrightarrow> fst x \<le> k) \<and> (exact \<longrightarrow> f (fst y) - fst x = f st - n)"
      proof (cases "limit_reached mx n")
        case True
        with body y show ?thesis by auto
      next
        case False
        with body y obtain st1 n1 tok1 where step: "pg n tok st = Some (st1, Inr (n1, tok1))"
          by (cases "pg n tok st") (auto split: sum.splits)
        from pg False have "counts exact f mx n fst (pg n tok)" by blast
        from this [unfolded counts_def, rule_format, OF step]
        have first: "n \<le> n1" "\<forall>k. mx = Some k \<longrightarrow> n \<le> k \<longrightarrow> n1 \<le> k" "exact \<longrightarrow> f st1 - n1 = f st - n" by simp_all
        show ?thesis
        proof (cases "\<not> py_truthy tok1 \<or> limit_reached mx n1")
          case True
          with body step False have "y = (st1, Inr (n1, tok1))" by auto
          with first y show ?thesis by auto
        next
          case more: False
          with body step False have "pages pg mx n1 tok1 st1 = Some y" by auto
          from IH [OF this] pg y first show ?thesis by fastforce
        qed
      qed
    qed
  qed
  from all [OF run] page
  show "n \<le> fst x \<and> (\<forall>k. maximum = Some k \<longrightarrow> n \<le> k \<longrightarrow> fst x \<le> k) \<and> (exact \<longrightarrow> f st' - fst x = f st - n)"
    by simp
qed

definition sync_limit :: "sync_env \<Rightarrow> service \<Rightarrow> int option" where
  "sync_limit env svc =
     (if svc = GMAIL then Some (sy_gmail_max env)
      else if svc = GOOGLE_DRIVE then Some (sy_drive_max env) else None)"

lemma message_step_gets:
  assumes "message_step env user n x st = Some (st', Inr ())"
  shows "message_gets (fst st') = message_gets (fst st) + 1"
  using assms
  by (auto simp: message_step_def sync_bind_def sync_request_def call_def sync_lift_def sync_index_def
      message_gets_def is_message_get_def split: option.splits sum.splits prod.splits)

text \<open>
  C30. A sync of the mail or the files counts at most the configured number of items, however many
  pages the service offers; the mail sync requests exactly one message per item it counts.
\<close>

theorem sync_respects_limits:
  assumes "sync_work env user svc since (hist, ix) = Some ((hist', ix'), Inr (cnt, cursor))"
    and "sync_limit env svc = Some k" and "0 \<le> k"
  shows "0 \<le> cnt \<and> cnt \<le> k \<and> (svc = GMAIL \<longrightarrow> message_gets hist' = message_gets hist + cnt)"
proof (cases "svc = GMAIL")
  case True
  with assms(2) have k: "k = sy_gmail_max env" by (simp add: sync_limit_def)
  let ?page = "sync_page (sy_api env) ''gmail.users.messages.list'' (message_list_arguments (sy_gmail_max env) since)
    ''messages'' (Some (sy_gmail_max env)) (message_step env user)"
  from assms(1) True have run: "sync_pages ?page (Some k) 0 JNull (hist, ix) = Some ((hist', ix'), Inr (cnt, cursor))"
    by (auto simp: sync_work_def sync_gmail_def sync_bind_def sync_request_def build_client_def k split: option.splits)
  have "counts True (\<lambda>st. message_gets (fst st)) (Some k) n fst (?page n token)" if "\<not> limit_reached (Some k) n" for n token
    using that unfolding k
    by (intro counts_page) (simp_all add: message_step_gets, simp_all add: message_gets_def is_message_get_def)
  from counts_pages [OF this, unfolded counts_def, rule_format, OF _ run] assms(3) True show ?thesis by auto
next
  case False
  with assms(2) have svc: "svc = GOOGLE_DRIVE" and k: "k = sy_drive_max env" by (auto simp: sync_limit_def split: if_splits)
  from assms(1) svc obtain query hist1 where run: "sync_pages (sync_page (sy_api env) ''drive.files.list''
      (file_list_arguments (sy_drive_max env) query) ''files'' (Some k) (file_step env user)) (Some k) 0 JNull (hist1, ix) =
      Some ((hist', ix'), Inr (cnt, cursor))"
    by (auto simp: sync_work_def sync_drive_def sync_bind_def sync_request_def build_client_def sync_lift_def k
        split: option.splits sum.splits)
  have "counts False (\<lambda>_. 0) (Some k) n fst (sync_page (sy_api env) ''drive.files.list''
      (file_list_arguments (sy_drive_max env) query) ''files'' (Some k) (file_step env user) n token)"
    if "\<not> limit_reached (Some k) n" for n token
    using that by (intro counts_page) simp_all
  from counts_pages [OF this, unfolded counts_def, rule_format, OF _ run] assms(3) False show ?thesis by auto
qed

section \<open>Termination\<close>

definition requests_of :: "string \<Rightarrow> google_request list \<Rightarrow> nat" where
  "requests_of method hist = length (filter (\<lambda>r. api_method r = method) hist)"

text \<open>A computation that returns, after at most \<open>c\<close> requests of a method.\<close>

definition returns_within :: "string \<Rightarrow> nat \<Rightarrow> 'a sync_io \<Rightarrow> bool" where
  "returns_within method c m \<longleftrightarrow> (\<forall>st. \<exists>st' r. m st = Some (st', r) \<and>
     requests_of method (fst st') \<le> requests_of method (fst st) + c)"

named_theorems returns_intros

lemma returns_basic [returns_intros]:
  "returns_within method 0 (sync_return x)" "returns_within method 0 (sync_lift r)"
  "returns_within method 0 (sync_clock env)" "returns_within method 0 (sync_request (build_client api name))"
  by (simp_all add: returns_within_def sync_return_def sync_lift_def sync_clock_def sync_request_def build_client_def)

lemma returns_other [returns_intros]:
  "k \<noteq> method \<Longrightarrow> returns_within method 0 (sync_request (call api k params))"
  "k \<noteq> method \<Longrightarrow> returns_within method 0 (sync_request (download api k params))"
  by (auto simp: returns_within_def sync_request_def call_def download_def requests_of_def)

lemma returns_listing: "returns_within method 1 (sync_request (call api method params))"
  by (auto simp: returns_within_def sync_request_def call_def requests_of_def)

lemma returns_bind:
  assumes "returns_within method c m" and "\<And>x. returns_within method d (g x)"
  shows "returns_within method (c + d) (sync_bind m g)"
  unfolding returns_within_def
proof
  fix st
  from assms(1) obtain st1 r where first: "m st = Some (st1, r)"
    "requests_of method (fst st1) \<le> requests_of method (fst st) + c" unfolding returns_within_def by blast
  show "\<exists>st' r. sync_bind m g st = Some (st', r) \<and> requests_of method (fst st') \<le> requests_of method (fst st) + (c + d)"
  proof (cases r)
    case (Inl e)
    with first show ?thesis by (auto simp: sync_bind_def)
  next
    case (Inr x)
    from assms(2) obtain st2 r2 where "g x st1 = Some (st2, r2)"
      "requests_of method (fst st2) \<le> requests_of method (fst st1) + d" unfolding returns_within_def by blast
    with first Inr show ?thesis by (auto simp: sync_bind_def)
  qed
qed

lemma returns_bind_free [returns_intros]:
  "returns_within method 0 m \<Longrightarrow> (\<And>x. returns_within method d (g x)) \<Longrightarrow> returns_within method d (sync_bind m g)"
  using returns_bind [of _ 0 m d g] by simp

lemma returns_bind_last:
  "returns_within method c m \<Longrightarrow> (\<And>x. returns_within method 0 (g x)) \<Longrightarrow> returns_within method c (sync_bind m g)"
  using returns_bind [of _ c m 0 g] by simp

lemma returns_if [returns_intros]:
  "returns_within method c a \<Longrightarrow> returns_within method c b \<Longrightarrow> returns_within method c (if q then a else b)"
  by simp

lemma returns_index [returns_intros]: "returns_within method 0 (sync_index env user n i)"
proof -
  have "index_item e user now i ix \<noteq> None" for e now ix
  proof -
    obtain texts where "chunk_text (ni_text i) 850 100 = Some (Inr texts)" by (rule chunk_text_default)
    then show ?thesis by (simp add: index_item_def split: prod.splits)
  qed
  then show ?thesis by (auto simp: returns_within_def sync_index_def split: option.splits sum.splits)
qed

lemma returns_items [returns_intros]:
  assumes "\<And>n x. returns_within method 0 (step n x)"
  shows "returns_within method 0 (index_items maximum step xs n)"
proof (induction xs arbitrary: n)
  case (Cons x xs)
  then show ?case by (auto intro!: returns_intros assms split: option.split)
qed (simp add: returns_basic)

definition list_method :: "service \<Rightarrow> string" where
  "list_method svc =
     (if svc = GMAIL then ''gmail.users.messages.list''
      else if svc = GOOGLE_CALENDAR then ''calendar.events.list'' else ''drive.files.list'')"

lemma returns_steps:
  "returns_within ''gmail.users.messages.list'' 0 (message_step env user n x)"
  "returns_within ''calendar.events.list'' 0 (event_step env user n x)"
  "returns_within ''drive.files.list'' 0 (file_step env user n x)"
  unfolding message_step_def event_step_def file_step_def drive_text_def by (intro returns_intros; simp add: returns_other)+

text \<open>
  Listings are finite: every page token stands before a finite number of further pages, and a page
  that names a next page leads to a token with fewer pages behind it. Pages may be empty.
\<close>

definition finite_listing :: "google_api \<Rightarrow> string \<Rightarrow> (json \<Rightarrow> nat) \<Rightarrow> bool" where
  "finite_listing api method pages \<longleftrightarrow> (\<forall>hist params d.
     api_answer api hist (Request method params) = Inr d \<longrightarrow> py_truthy (py_get d ''nextPageToken'') \<longrightarrow>
     pages (py_get d ''nextPageToken'') < pages (py_get params ''pageToken''))"

lemma page_progress:
  assumes "finite_listing api method pages" and "py_get (params n token) ''pageToken'' = token"
    and "sync_page api method params key maximum step n token st = Some (st', Inr (n', token'))"
    and "py_truthy token'"
  shows "pages token' < pages token"
proof -
  obtain hist ix where st: "st = (hist, ix)" by (cases st)
  from assms(3) obtain response where
    "api_answer api hist (Request method (params n token)) = Inr response"
    "token' = py_get response ''nextPageToken''"
    by (auto simp: sync_page_def sync_bind_def sync_request_def call_def sync_lift_def sync_return_def st
        split: option.splits sum.splits prod.splits)
  with assms(1,2,4) show ?thesis unfolding finite_listing_def by metis
qed

lemma returns_pages:
  assumes listing: "finite_listing api method pages" and token: "\<And>n token. py_get (params n token) ''pageToken'' = token"
    and step: "\<And>n x. returns_within method 0 (step n x)"
  shows "returns_within method (Suc (pages token)) (sync_pages (sync_page api method params key maximum step) maximum n token)"
proof -
  let ?page = "sync_page api method params key maximum step"
  have page: "returns_within method 1 (?page n token)" for n token
    unfolding sync_page_def by (rule returns_bind_last [OF returns_listing]) (intro returns_intros step)
  have "\<exists>st' r. sync_pages ?page maximum n token st = Some (st', r) \<and>
      requests_of method (fst st') \<le> requests_of method (fst st) + Suc (pages token)" for st
  proof (induction "pages token" arbitrary: n token st rule: less_induct)
    case less
    show ?case
    proof (cases "limit_reached maximum n")
      case True
      then show ?thesis by (simp add: sync_pages.simps)
    next
      case below: False
      from page [of n token] obtain st1 r where first: "?page n token st = Some (st1, r)"
        and one: "requests_of method (fst st1) \<le> requests_of method (fst st) + 1"
        unfolding returns_within_def by blast
      show ?thesis
      proof (cases "\<exists>n1 token1. r = Inr (n1, token1) \<and> py_truthy token1 \<and> \<not> limit_reached maximum n1")
        case True
        then obtain n1 token1 where r: "r = Inr (n1, token1)" "py_truthy token1" "\<not> limit_reached maximum n1" by blast
        have fewer: "pages token1 < pages token"
          by (rule page_progress [OF listing token first [unfolded r(1)] r(2)])
        from less [OF this, of n1 st1] obtain st' r' where
          "sync_pages ?page maximum n1 token1 st1 = Some (st', r')"
          "requests_of method (fst st') \<le> requests_of method (fst st1) + Suc (pages token1)" by blast
        with below first r one fewer show ?thesis by (simp add: sync_pages.simps [of _ _ n])
      next
        case False
        with below first have "sync_pages ?page maximum n token st = Some (st1, r)"
          by (auto simp: sync_pages.simps [of _ _ n] split: sum.splits)
        with one show ?thesis by auto
      qed
    qed
  qed
  then show ?thesis by (simp add: returns_within_def)
qed

lemma list_arguments_token:
  "py_get (message_list_arguments k since n token) ''pageToken'' = token"
  "py_get (event_list_arguments a b n token) ''pageToken'' = token"
  "py_get (file_list_arguments k query n token) ''pageToken'' = token"
  by (simp_all add: message_list_arguments_def event_list_arguments_def file_list_arguments_def dict_get_or_def)

lemma sync_work_returns:
  assumes "finite_listing (sy_api env) (list_method svc) pages" and "svc \<in> set sync_services"
  shows "returns_within (list_method svc) (Suc (pages JNull)) (sync_work env user svc since)"
proof -
  from assms(2) consider "svc = GMAIL" | "svc = GOOGLE_CALENDAR" | "svc = GOOGLE_DRIVE"
    by (auto simp: sync_services_def)
  then show ?thesis
  proof cases
    case 1
    with assms(1) show ?thesis unfolding sync_work_def sync_gmail_def
      by (simp add: list_method_def, intro returns_intros returns_pages list_arguments_token returns_steps)
  next
    case 2
    have "returns_within (list_method svc) 0 (case x of (n, u) \<Rightarrow> sync_return (n, JNull))" for x :: "int \<times> json"
      by (cases x) (simp add: returns_basic)
    with 2 assms(1) show ?thesis unfolding sync_work_def sync_calendar_def
      by (simp add: list_method_def,
        intro returns_intros returns_bind_last [where m = "sync_pages _ _ _ _"] returns_pages list_arguments_token returns_steps)
  next
    case 3
    with assms(1) show ?thesis unfolding sync_work_def sync_drive_def
      by (simp add: list_method_def, intro returns_intros returns_pages list_arguments_token returns_steps)
  qed
qed

text \<open>
  C31. When listings are finite, every sync returns, whatever fails on the way and however many pages
  are empty: it asks for no more pages than the listing has, and the chunking of each item ends.
\<close>

theorem sync_returns:
  assumes "finite_listing (sy_api env) (list_method svc) pages"
  shows "\<exists>hist' db' r. sync_service env user svc (hist, db) = Some ((hist', db'), r) \<and>
    requests_of (list_method svc) hist' \<le> requests_of (list_method svc) hist + (pages JNull + 1)"
proof (cases "svc \<in> set sync_services")
  case True
  from sync_work_returns [OF assms True] obtain hist' ix r where
    "sync_work env user svc (previous_success user (service_value svc) (sd_states db)) (hist, sd_index db) =
       Some ((hist', ix), r)"
    "requests_of (list_method svc) hist' \<le> requests_of (list_method svc) hist + (pages JNull + 1)"
    unfolding returns_within_def by (metis fst_conv surj_pair Suc_eq_plus1)
  with True show ?thesis by (cases r) (auto simp: sync_service_def Let_def)
qed (simp add: sync_service_def)

section \<open>Samples\<close>

text \<open>A mailbox with one message, a model that embeds everything as zero, and a client that fails.\<close>

definition zero_embedder :: embedder where
  "zero_embedder = \<lparr>emb_dimensions = 2, emb_encode = map (\<lambda>_. [0, 0])\<rparr>"

definition sample_mailbox :: google_api where
  "sample_mailbox = answering [(''id'', JStr ''m1''), (''snippet'', JStr ''Hello''),
     (''messages'', JList [JObj [(''id'', JStr ''m1'')]])]"

definition sample_sync_env :: sync_env where
  "sample_sync_env = \<lparr>sy_api = sample_mailbox, sy_embedder = zero_embedder, sy_parse_email = \<lambda>_. None,
     sy_now = \<lambda>_ _. sample_instant, sy_gmail_max = 5, sy_drive_max = 5, sy_lookback = 30, sy_lookahead = 30,
     sy_other_error = ''Error''\<rparr>"

definition failing_sync_env :: sync_env where
  "failing_sync_env = sample_sync_env\<lparr>sy_api := sample_mailbox\<lparr>client_error := \<lambda>_ _. Some (HttpError (Some 500))\<rparr>\<rparr>"

definition sample_sync_db :: sync_db where
  "sample_sync_db = \<lparr>sd_states = [new_sync_row 7 ''gmail'', (new_sync_row 8 ''gmail'')\<lparr>ss_status := ''completed''\<rparr>],
     sd_index = empty_index\<rparr>"

lemma zero_index: "\<exists>ident ix'. index_item zero_embedder user now i ix = Some (Inr (ident, ix'))"
proof -
  obtain texts where texts: "chunk_text (ni_text i) 850 100 = Some (Inr texts)" "\<forall>c \<in> set texts. py_strip c \<noteq> []"
    by (rule chunk_text_default)
  obtain ident db1 where up: "upsert_item user now i ix = (ident, db1)" by (cases "upsert_item user now i ix")
  have "(if texts = [] then Inr [] else embed_texts zero_embedder texts) = Inr (map (\<lambda>_. [0, 0]) texts)"
    using texts(2) by (auto simp: embed_texts_def zero_embedder_def list_ex_iff)
  with texts(1) up show ?thesis by (simp add: index_item_def replace_chunks_def)
qed

lemma sample_sync_run:
  "\<exists>hist' ix'. sync_work sample_sync_env 7 GMAIL None ([], empty_index) = Some ((hist', ix'), Inr (1, JNull))"
proof -
  obtain item where item: "normalize_gmail sample_mailbox (\<lambda>_. None) [(''id'', JStr ''m1''), (''snippet'', JStr ''Hello''),
     (''messages'', JList [JObj [(''id'', JStr ''m1'')]])] = Inr item"
    by (simp add: normalize_gmail_def message_headers_def and_then_def attr_get_def dict_get_or_def py_or_def
        subscript_def Let_def)
  obtain ident ix' where "index_item zero_embedder 7 sample_instant item empty_index = Some (Inr (ident, ix'))"
    using zero_index by blast
  with item show ?thesis
    by (simp add: sync_work_def sync_gmail_def sync_bind_def sync_request_def build_client_def sync_pages.simps
        sync_page_def limit_reached_def sample_sync_env_def call_def sync_lift_def dict_get_or_def message_step_def
        subscript_def sync_index_def sync_return_def sample_mailbox_def answering_def)
qed

lemma sync_respects_limits_witness:
  "\<exists>hist' ix'. sync_work sample_sync_env 7 GMAIL None ([], empty_index) = Some ((hist', ix'), Inr (1, JNull)) \<and>
     message_gets hist' = message_gets [] + 1 \<and> (1 :: int) \<le> 5"
proof -
  from sample_sync_run obtain hist' ix' where
    run: "sync_work sample_sync_env 7 GMAIL None ([], empty_index) = Some ((hist', ix'), Inr (1, JNull))" by blast
  have "sync_limit sample_sync_env GMAIL = Some 5" by (simp add: sync_limit_def sample_sync_env_def)
  from sync_respects_limits [OF run this] run show ?thesis by auto
qed

lemma sync_service_outcome_witness:
  "\<exists>hist' db' r. sync_service failing_sync_env 7 GMAIL ([], sample_sync_db) = Some ((hist', db'), r) \<and>
     states_ok (sd_states db') \<and> ss_status (current_state 7 ''gmail'' (sd_states db')) = ''failed'' \<and>
     sd_index db' = sd_index sample_sync_db"
proof -
  have ok: "states_ok (sd_states sample_sync_db)"
    by (simp add: states_ok_def sample_sync_db_def state_key_def new_sync_row_def)
  obtain hist' db' where run: "sync_service failing_sync_env 7 GMAIL ([], sample_sync_db) =
      Some ((hist', db'), Inr \<lparr>sr_status = ''failed'', sr_indexed = 0\<rparr>)"
    by (simp add: sync_service_def sync_services_def sync_work_def sync_gmail_def sync_bind_def sync_request_def
        build_client_def failing_sync_env_def sample_sync_env_def sample_mailbox_def answering_def Let_def)
  from sync_service_outcome [OF ok _ run] run show ?thesis by (auto simp: sync_services_def)
qed

lemma failing_sync_user_returns: "\<exists>st q. sync_user failing_sync_env 7 ([], sample_sync_db) = Some (st, q)"
  by (simp add: sync_user_def sync_service_def sync_services_def sync_work_def sync_gmail_def sync_calendar_def
      sync_drive_def sync_bind_def sync_request_def build_client_def failing_sync_env_def sample_sync_env_def
      sample_mailbox_def answering_def Let_def)

text \<open>A mailbox whose first page is empty and names a second one.\<close>

definition paged_mailbox :: google_api where
  "paged_mailbox = sample_mailbox\<lparr>api_answer := \<lambda>hist r.
     if api_method r = ''gmail.users.messages.list'' \<and> py_get (api_params r) ''pageToken'' = JNull
     then Inr [(''nextPageToken'', JStr ''p2'')]
     else api_answer sample_mailbox hist r\<rparr>"

lemma sync_returns_witness:
  "\<exists>hist' db' r. sync_service (sample_sync_env\<lparr>sy_api := paged_mailbox\<rparr>) 7 GMAIL ([], sample_sync_db) =
     Some ((hist', db'), r) \<and> requests_of ''gmail.users.messages.list'' hist' \<le> 2"
proof -
  have "finite_listing (sy_api (sample_sync_env\<lparr>sy_api := paged_mailbox\<rparr>)) (list_method GMAIL)
      (\<lambda>t. if t = JNull then 1 else 0)"
    by (auto simp: finite_listing_def list_method_def sample_sync_env_def paged_mailbox_def sample_mailbox_def
        answering_def dict_get_or_def split: if_splits)
  from sync_returns [OF this, of 7 "[]" sample_sync_db] show ?thesis
    by (simp add: list_method_def requests_of_def numeral_2_eq_2)
qed

end
