(* ===== verification/Sync_Lock.thy ===== *)
theory Sync_Lock
  imports Main
begin

text \<open>
  The lock around a sync in \<open>app/workers/tasks.py\<close>, as the workers and Redis run it side by side.

  A worker draws a random value, tries \<open>SET key value NX EX ttl\<close>, and skips the sync when the key is
  there. Otherwise it runs the sync while a renewal task extends the expiry every \<open>ttl // 3\<close> seconds
  as long as the key holds the worker's value; at the end it cancels the renewal and deletes the key if it
  still holds that value. Every command of Redis, the Lua scripts included, is one step. Time passes
  in steps of one second, and the key expires by itself. Times are in seconds; \<open>secrets.token_urlsafe\<close>
  never repeats, so the value is the number of the worker. A renewal that is late or lost is a renewal
  that does not happen while time passes.
\<close>

section \<open>Redis\<close>

record redis_lock =
  lock_value :: nat
  lock_expires :: int

text \<open>The key, if it has not expired.\<close>

definition live :: "int \<Rightarrow> redis_lock option \<Rightarrow> redis_lock option" where
  "live now l = (case l of None \<Rightarrow> None | Some k \<Rightarrow> if now < lock_expires k then Some k else None)"

text \<open>\<open>SET ... NX EX ttl\<close>: the new key, and whether it was set.\<close>

definition set_nx :: "int \<Rightarrow> int \<Rightarrow> nat \<Rightarrow> redis_lock option \<Rightarrow> redis_lock option \<times> bool" where
  "set_nx now ttl v l =
     (case live now l of
        None \<Rightarrow> (Some \<lparr>lock_value = v, lock_expires = now + ttl\<rparr>, True)
      | Some k \<Rightarrow> (Some k, False))"

text \<open>The script of \<open>_renew_sync_lock\<close>: \<open>expire\<close> if the value is the worker's.\<close>

definition renew_lock :: "int \<Rightarrow> int \<Rightarrow> nat \<Rightarrow> redis_lock option \<Rightarrow> redis_lock option \<times> bool" where
  "renew_lock now ttl v l =
     (case live now l of
        None \<Rightarrow> (None, False)
      | Some k \<Rightarrow> if lock_value k = v then (Some (k\<lparr>lock_expires := now + ttl\<rparr>), True) else (Some k, False))"

text \<open>The script of \<open>_release_sync_lock\<close>: \<open>del\<close> if the value is the worker's.\<close>

definition release_lock :: "int \<Rightarrow> nat \<Rightarrow> redis_lock option \<Rightarrow> redis_lock option \<times> bool" where
  "release_lock now v l =
     (case live now l of
        None \<Rightarrow> (None, False)
      | Some k \<Rightarrow> if lock_value k = v then (None, True) else (Some k, False))"

text \<open>\<open>interval = max(1, ttl_seconds // 3)\<close>.\<close>

definition renewal_interval :: "int \<Rightarrow> int" where
  "renewal_interval ttl = max 1 (ttl div 3)"

section \<open>Workers\<close>

datatype phase = Idle | Syncing | Done | Skipped

record worker =
  wk_phase :: phase
  wk_renewing :: bool
  wk_next_renewal :: int

record lock_system =
  sys_now :: int
  sys_lock :: "redis_lock option"
  sys_worker :: "nat \<Rightarrow> worker"

definition initial_lock_system :: lock_system where
  "initial_lock_system = \<lparr>sys_now = 0, sys_lock = None,
     sys_worker = \<lambda>_. \<lparr>wk_phase = Idle, wk_renewing = False, wk_next_renewal = 0\<rparr>\<rparr>"

definition start_sync :: "int \<Rightarrow> nat \<Rightarrow> lock_system \<Rightarrow> lock_system" where
  "start_sync ttl w s =
     (case set_nx (sys_now s) ttl w (sys_lock s) of
        (l, acquired) \<Rightarrow> s\<lparr>sys_lock := l,
          sys_worker := (sys_worker s)(w :=
            if acquired then \<lparr>wk_phase = Syncing, wk_renewing = True,
              wk_next_renewal = sys_now s + renewal_interval ttl\<rparr>
            else (sys_worker s w)\<lparr>wk_phase := Skipped\<rparr>)\<rparr>)"

text \<open>One turn of the renewal loop; it ends when the lock is no longer the worker's.\<close>

definition renew_sync :: "int \<Rightarrow> nat \<Rightarrow> lock_system \<Rightarrow> lock_system" where
  "renew_sync ttl w s =
     (case renew_lock (sys_now s) ttl w (sys_lock s) of
        (l, renewed) \<Rightarrow> s\<lparr>sys_lock := l,
          sys_worker := (sys_worker s)(w := (sys_worker s w)\<lparr>wk_renewing := renewed,
            wk_next_renewal := sys_now s + renewal_interval ttl\<rparr>)\<rparr>)"

definition finish_sync :: "nat \<Rightarrow> lock_system \<Rightarrow> lock_system" where
  "finish_sync w s =
     (case release_lock (sys_now s) w (sys_lock s) of
        (l, _) \<Rightarrow> s\<lparr>sys_lock := l,
          sys_worker := (sys_worker s)(w := (sys_worker s w)\<lparr>wk_phase := Done, wk_renewing := False\<rparr>)\<rparr>)"

text \<open>
  Steps of the whole system. With \<open>punctual\<close>, a renewal that is due happens before more time passes.
\<close>

inductive lock_step :: "int \<Rightarrow> bool \<Rightarrow> lock_system \<Rightarrow> lock_system \<Rightarrow> bool" for ttl punctual where
  start: "wk_phase (sys_worker s w) = Idle \<Longrightarrow> lock_step ttl punctual s (start_sync ttl w s)"
| renew: "wk_phase (sys_worker s w) = Syncing \<Longrightarrow> wk_renewing (sys_worker s w) \<Longrightarrow>
    wk_next_renewal (sys_worker s w) \<le> sys_now s \<Longrightarrow> lock_step ttl punctual s (renew_sync ttl w s)"
| finish: "wk_phase (sys_worker s w) = Syncing \<Longrightarrow> lock_step ttl punctual s (finish_sync w s)"
| tick: "(punctual \<Longrightarrow> \<forall>w. wk_phase (sys_worker s w) = Syncing \<longrightarrow> wk_renewing (sys_worker s w) \<longrightarrow>
      sys_now s < wk_next_renewal (sys_worker s w)) \<Longrightarrow>
    lock_step ttl punctual s (s\<lparr>sys_now := sys_now s + 1\<rparr>)"

definition lock_reachable :: "int \<Rightarrow> bool \<Rightarrow> lock_system \<Rightarrow> bool" where
  "lock_reachable ttl punctual = (lock_step ttl punctual)\<^sup>*\<^sup>* initial_lock_system"

definition syncing :: "lock_system \<Rightarrow> nat \<Rightarrow> bool" where
  "syncing s w \<longleftrightarrow> wk_phase (sys_worker s w) = Syncing"

section \<open>Mutual exclusion\<close>

text \<open>The lock of a syncing worker is live, and its renewal is due before it expires.\<close>

definition holds_lock :: "lock_system \<Rightarrow> nat \<Rightarrow> bool" where
  "holds_lock s w \<longleftrightarrow> wk_renewing (sys_worker s w) \<and> sys_now s \<le> wk_next_renewal (sys_worker s w) \<and>
     (case sys_lock s of None \<Rightarrow> False
      | Some k \<Rightarrow> lock_value k = w \<and> wk_next_renewal (sys_worker s w) < lock_expires k)"

definition exclusive :: "lock_system \<Rightarrow> bool" where
  "exclusive s \<longleftrightarrow> (\<forall>w. syncing s w \<longrightarrow> holds_lock s w)"

lemma renewal_before_expiry: "2 \<le> ttl \<Longrightarrow> renewal_interval ttl < ttl \<and> 0 < renewal_interval ttl"
  by (auto simp: renewal_interval_def)

lemma exclusive_live:
  assumes "exclusive s" and "syncing s w"
  obtains k where "sys_lock s = Some k" "lock_value k = w" "sys_now s < lock_expires k" "live (sys_now s) (sys_lock s) = Some k"
  using assms by (force simp: exclusive_def holds_lock_def live_def split: option.splits)

lemma exclusive_one: "exclusive s \<Longrightarrow> syncing s v \<Longrightarrow> syncing s w \<Longrightarrow> v = w"
  by (metis exclusive_live option.inject)

lemma exclusive_start:
  assumes "2 \<le> ttl" and "exclusive s" and "wk_phase (sys_worker s w) = Idle"
  shows "exclusive (start_sync ttl w s)"
proof (cases "live (sys_now s) (sys_lock s)")
  case None
  then have "\<not> syncing s v" for v using assms(2) by (metis exclusive_live option.distinct(1))
  with None renewal_before_expiry [OF assms(1)] show ?thesis
    by (auto simp: exclusive_def holds_lock_def syncing_def start_sync_def set_nx_def)
next
  case (Some k)
  then have "sys_lock s = Some k" by (auto simp: live_def split: option.splits if_splits)
  with Some assms(2) show ?thesis
    by (auto simp: exclusive_def holds_lock_def syncing_def start_sync_def set_nx_def)
qed

lemma exclusive_renew:
  assumes "2 \<le> ttl" and "exclusive s" and "syncing s w"
  shows "exclusive (renew_sync ttl w s)"
proof -
  from assms(2,3) obtain k where k: "live (sys_now s) (sys_lock s) = Some k" "lock_value k = w" by (rule exclusive_live)
  show ?thesis
    unfolding exclusive_def
  proof (intro allI impI)
    fix v assume "syncing (renew_sync ttl w s) v"
    then have "syncing s v" by (auto simp: syncing_def renew_sync_def split: prod.splits if_splits)
    then have "v = w" by (rule exclusive_one [OF assms(2) _ assms(3)])
    with k renewal_before_expiry [OF assms(1)] show "holds_lock (renew_sync ttl w s) v"
      by (simp add: holds_lock_def renew_sync_def renew_lock_def)
  qed
qed

lemma exclusive_finish:
  assumes "exclusive s" and "syncing s w"
  shows "exclusive (finish_sync w s)"
proof -
  have "v = w" if "syncing s v" for v using exclusive_one [OF assms(1) that assms(2)] .
  then show ?thesis
    by (auto simp: exclusive_def holds_lock_def syncing_def finish_sync_def split: prod.splits)
qed

lemma exclusive_tick:
  assumes "exclusive s"
    and "\<forall>w. wk_phase (sys_worker s w) = Syncing \<longrightarrow> wk_renewing (sys_worker s w) \<longrightarrow>
      sys_now s < wk_next_renewal (sys_worker s w)"
  shows "exclusive (s\<lparr>sys_now := sys_now s + 1\<rparr>)"
  unfolding exclusive_def
proof (intro allI impI)
  fix w assume "syncing (s\<lparr>sys_now := sys_now s + 1\<rparr>) w"
  then have w: "syncing s w" by (simp add: syncing_def)
  with assms(1) have "holds_lock s w" by (simp add: exclusive_def)
  with assms(2) w show "holds_lock (s\<lparr>sys_now := sys_now s + 1\<rparr>) w"
    by (auto simp: holds_lock_def syncing_def split: option.splits)
qed

lemma lock_step_exclusive:
  assumes "lock_step ttl True s s'" and "2 \<le> ttl" and "exclusive s"
  shows "exclusive s'"
  using assms(1)
proof (cases rule: lock_step.cases)
  case (start w)
  with exclusive_start assms(2,3) show ?thesis by simp
next
  case (renew w)
  with exclusive_renew assms(2,3) show ?thesis by (simp add: syncing_def)
next
  case (finish w)
  with exclusive_finish assms(3) show ?thesis by (simp add: syncing_def)
next
  case tick
  with exclusive_tick assms(3) show ?thesis by simp
qed

lemma reachable_exclusive:
  assumes "lock_reachable ttl True s" and "2 \<le> ttl"
  shows "exclusive s"
  using assms(1) unfolding lock_reachable_def
proof (induction rule: rtranclp_induct)
  case base
  show ?case by (simp add: exclusive_def syncing_def initial_lock_system_def)
next
  case (step s s')
  with lock_step_exclusive assms(2) show ?case by blast
qed

text \<open>
  C29. As long as renewals happen when they are due, at most one worker at a time syncs a user, in
  every interleaving of the workers, their renewals and the passing of time; and while it syncs, the
  lock is there and holds its value. The expiry must be at least two seconds.
\<close>

theorem sync_lock_excludes:
  assumes "lock_reachable ttl True s" and "2 \<le> ttl" and "syncing s v"
  shows "(syncing s w \<longrightarrow> w = v) \<and> map_option lock_value (live (sys_now s) (sys_lock s)) = Some v"
proof -
  note ex = reachable_exclusive [OF assms(1,2)]
  from ex assms(3) obtain k where "live (sys_now s) (sys_lock s) = Some k" "lock_value k = v" by (rule exclusive_live)
  with exclusive_one [OF ex assms(3)] show ?thesis by auto
qed

lemma sync_lock_excludes_witness:
  "\<exists>s. lock_reachable 900 True s \<and> syncing s 3 \<and> map_option lock_value (live (sys_now s) (sys_lock s)) = Some 3"
proof -
  let ?s = "start_sync 900 3 initial_lock_system"
  have "lock_step 900 True initial_lock_system ?s"
    by (rule lock_step.start) (simp add: initial_lock_system_def)
  then have "lock_reachable 900 True ?s" unfolding lock_reachable_def by blast
  moreover have "syncing ?s 3"
    by (simp add: syncing_def start_sync_def set_nx_def live_def initial_lock_system_def)
  ultimately show ?thesis using sync_lock_excludes [of 900 ?s 3] by auto
qed

section \<open>A lost lock\<close>

lemma ticks_reachable:
  assumes "lock_reachable ttl False s"
  shows "lock_reachable ttl False (s\<lparr>sys_now := sys_now s + int n\<rparr>)"
proof (induction n)
  case (Suc n)
  have "lock_step ttl False (s\<lparr>sys_now := sys_now s + int n\<rparr>)
      ((s\<lparr>sys_now := sys_now s + int n\<rparr>)\<lparr>sys_now := sys_now (s\<lparr>sys_now := sys_now s + int n\<rparr>) + 1\<rparr>)"
    by (rule lock_step.tick) simp
  with Suc have "lock_reachable ttl False (s\<lparr>sys_now := sys_now s + int n + 1\<rparr>)"
    unfolding lock_reachable_def by (simp add: rtranclp.rtrancl_into_rtrancl)
  then show ?case by (simp add: add.assoc add.commute [of 1])
qed (simp add: assms)

text \<open>
  C32. When renewals are late, the lock does not exclude: for every expiry two workers can sync the same
  user at once, since a worker goes on after its lock has expired. But it never removes the
  lock of another: at its end the live lock of the other is still there.
\<close>

theorem late_renewal_loses_lock:
  assumes "0 < ttl"
  shows "\<exists>s. lock_reachable ttl False s \<and> syncing s 0 \<and> syncing s 1 \<and>
    map_option lock_value (live (sys_now s) (sys_lock s)) = Some 1 \<and>
    map_option lock_value (live (sys_now s) (sys_lock (finish_sync 0 s))) = Some 1"
proof -
  let ?s0 = "start_sync ttl 0 initial_lock_system"
  let ?s1 = "?s0\<lparr>sys_now := sys_now ?s0 + int (nat ttl)\<rparr>"
  let ?s2 = "start_sync ttl 1 ?s1"
  have "lock_step ttl False initial_lock_system ?s0"
    by (rule lock_step.start) (simp add: initial_lock_system_def)
  then have "lock_reachable ttl False ?s0" unfolding lock_reachable_def by blast
  then have "lock_reachable ttl False ?s1" by (rule ticks_reachable)
  moreover have "lock_step ttl False ?s1 ?s2"
    by (rule lock_step.start) (simp add: initial_lock_system_def start_sync_def set_nx_def live_def)
  ultimately have "lock_reachable ttl False ?s2" unfolding lock_reachable_def by (rule rtranclp.rtrancl_into_rtrancl)
  moreover have "syncing ?s2 0 \<and> syncing ?s2 1 \<and> map_option lock_value (live (sys_now ?s2) (sys_lock ?s2)) = Some 1 \<and>
      map_option lock_value (live (sys_now ?s2) (sys_lock (finish_sync 0 ?s2))) = Some 1"
    using assms by (simp add: syncing_def start_sync_def set_nx_def live_def initial_lock_system_def
        finish_sync_def release_lock_def)
  ultimately show ?thesis by blast
qed

lemma late_renewal_loses_lock_witness:
  "\<exists>s. lock_reachable 900 False s \<and> syncing s 0 \<and> syncing s 1"
  using late_renewal_loses_lock [of 900] by auto

end
