(* ===== verification/Redis_Cache.thy ===== *)
theory Redis_Cache
  imports Py_Text
begin

text \<open>
  \<open>app/core/cache.py\<close>: JSON values under namespaced keys in Redis, with an expiry in seconds.

  A stored payload stands for the JSON value it encodes: \<open>json.loads\<close> reads back what \<open>json.dumps\<close>
  wrote, and a \<open>json\<close> of the model is finite and has string keys, so that \<open>_validate_json_value\<close>
  accepts it. What the connection pool does is left out; a client is there from \<open>start\<close> to \<open>close\<close>.
\<close>

record redis_cache =
  rc_namespace :: string
  rc_started :: bool

record redis_entry =
  re_value :: json
  re_expires :: int

type_synonym redis_store = "(string \<times> redis_entry) list"

definition new_cache :: "string \<Rightarrow> py_error + redis_cache" where
  "new_cache key_namespace =
     (let namespace = strip_with (\<lambda>c. c = CHR '':'') (py_strip key_namespace) in
      if namespace = [] then Inl (ValueError ''Redis key namespace must not be empty'')
      else Inr \<lparr>rc_namespace = namespace, rc_started = False\<rparr>)"

definition start_cache :: "redis_cache \<Rightarrow> redis_cache" where
  "start_cache c = c\<lparr>rc_started := True\<rparr>"

definition close_cache :: "redis_cache \<Rightarrow> redis_cache" where
  "close_cache c = c\<lparr>rc_started := False\<rparr>"

definition require_client :: "redis_cache \<Rightarrow> py_error + unit" where
  "require_client c =
     (if rc_started c then Inr () else Inl (RuntimeError ''Redis cache has not been started''))"

definition namespaced_key :: "redis_cache \<Rightarrow> string \<Rightarrow> py_error + string" where
  "namespaced_key c key =
     (if py_strip key = [] then Inl (ValueError ''cache key must be a non-empty string'')
      else Inr (rc_namespace c @ '':'' @ key))"

definition client_key :: "redis_cache \<Rightarrow> string \<Rightarrow> py_error + string" where
  "client_key c key = (case require_client c of Inl e \<Rightarrow> Inl e | Inr _ \<Rightarrow> namespaced_key c key)"

text \<open>The entry, if it has not expired.\<close>

definition live_entry :: "int \<Rightarrow> redis_store \<Rightarrow> string \<Rightarrow> redis_entry option" where
  "live_entry now store k =
     (case dict_get store k of
        None \<Rightarrow> None | Some e \<Rightarrow> if now < re_expires e then Some e else None)"

text \<open>\<open>None\<close> of Python is \<open>JNull\<close>, as the value \<open>null\<close> is.\<close>

definition get_json :: "redis_cache \<Rightarrow> int \<Rightarrow> redis_store \<Rightarrow> string \<Rightarrow> py_error + json" where
  "get_json c now store key =
     (case client_key c key of
        Inl e \<Rightarrow> Inl e
      | Inr k \<Rightarrow> Inr (case live_entry now store k of None \<Rightarrow> JNull | Some e \<Rightarrow> re_value e))"

definition set_json :: "redis_cache \<Rightarrow> int \<Rightarrow> string \<Rightarrow> json \<Rightarrow> int \<Rightarrow> redis_store \<Rightarrow> py_error + redis_store" where
  "set_json c now key v ttl_seconds store =
     (if ttl_seconds \<le> 0 then Inl (ValueError ''ttl_seconds must be a positive integer'')
      else (case client_key c key of
              Inl e \<Rightarrow> Inl e
            | Inr k \<Rightarrow> Inr (dict_set k \<lparr>re_value = v, re_expires = now + ttl_seconds\<rparr> store)))"

definition delete_key :: "redis_cache \<Rightarrow> int \<Rightarrow> string \<Rightarrow> redis_store \<Rightarrow> py_error + bool \<times> redis_store" where
  "delete_key c now key store =
     (case client_key c key of
        Inl e \<Rightarrow> Inl e
      | Inr k \<Rightarrow> Inr (live_entry now store k \<noteq> None, dict_pop k store))"

section \<open>Laws\<close>

lemma client_key_inj: "client_key c key = Inr k \<Longrightarrow> client_key c key' = Inr k \<Longrightarrow> key = key'"
  by (auto simp: client_key_def namespaced_key_def split: sum.splits if_splits)

lemma get_after_set:
  assumes "set_json c now key v ttl store = Inr store'"
  shows "get_json c t store' key = Inr (if t < now + ttl then v else JNull)"
    and "key' \<noteq> key \<Longrightarrow> get_json c t store' key' = get_json c t store key'"
proof -
  from assms obtain k where k: "client_key c key = Inr k"
    and store': "store' = dict_set k \<lparr>re_value = v, re_expires = now + ttl\<rparr> store"
    by (auto simp: set_json_def split: if_splits sum.splits)
  show "get_json c t store' key = Inr (if t < now + ttl then v else JNull)"
    by (simp add: get_json_def k store' live_entry_def dict_get_set)
  assume "key' \<noteq> key"
  then show "get_json c t store' key' = get_json c t store key'"
    using client_key_inj [OF k, of key']
    by (cases "client_key c key'") (auto simp: get_json_def store' live_entry_def dict_get_set)
qed

lemma get_after_delete:
  assumes "delete_key c now key store = Inr (b, store')"
  shows "get_json c t store' key = Inr JNull"
    and "key' \<noteq> key \<Longrightarrow> get_json c t store' key' = get_json c t store key'"
proof -
  from assms obtain k where k: "client_key c key = Inr k" and store': "store' = dict_pop k store"
    by (auto simp: delete_key_def split: sum.splits)
  show "get_json c t store' key = Inr JNull"
    by (simp add: get_json_def k store' live_entry_def dict_get_pop)
  assume "key' \<noteq> key"
  then show "get_json c t store' key' = get_json c t store key'"
    using client_key_inj [OF k, of key']
    by (cases "client_key c key'") (auto simp: get_json_def store' live_entry_def dict_get_pop)
qed

section \<open>The interface\<close>

text \<open>
  What the components that keep JSON values under keys rely on: a value is read back until it
  expires, a key that was deleted is gone, and the other keys are not touched.
\<close>

locale json_store =
  fixes get :: "int \<Rightarrow> 's \<Rightarrow> string \<Rightarrow> py_error + json"
    and put :: "int \<Rightarrow> string \<Rightarrow> json \<Rightarrow> int \<Rightarrow> 's \<Rightarrow> py_error + 's"
    and remove :: "int \<Rightarrow> string \<Rightarrow> 's \<Rightarrow> py_error + bool \<times> 's"
  assumes put_get: "put now key v ttl st = Inr st' \<Longrightarrow> get t st' key = Inr (if t < now + ttl then v else JNull)"
    and put_other: "put now key v ttl st = Inr st' \<Longrightarrow> key' \<noteq> key \<Longrightarrow> get t st' key' = get t st key'"
    and remove_get: "remove now key st = Inr (b, st') \<Longrightarrow> get t st' key = Inr JNull"
    and remove_other: "remove now key st = Inr (b, st') \<Longrightarrow> key' \<noteq> key \<Longrightarrow> get t st' key' = get t st key'"
begin

definition absent :: "string \<Rightarrow> 's \<Rightarrow> bool" where
  "absent key st \<longleftrightarrow> (\<forall>t v. get t st key = Inr v \<longrightarrow> v = JNull)"

lemma absent_removed: "remove now key st = Inr (b, st') \<Longrightarrow> absent key st'"
  by (simp add: absent_def remove_get)

lemma absent_put: "absent key st \<Longrightarrow> put now key' v ttl st = Inr st' \<Longrightarrow> key \<noteq> key' \<Longrightarrow> absent key st'"
  by (simp add: absent_def put_other)

lemma absent_remove:
  assumes "absent key st" and "remove now key' st = Inr (b, st')"
  shows "absent key st'"
proof (cases "key = key'")
  case True
  with absent_removed assms(2) show ?thesis by blast
next
  case False
  with assms remove_other [OF assms(2)] show ?thesis by (simp add: absent_def)
qed

lemma absent_get: "absent key st \<Longrightarrow> get t st key = Inr v \<Longrightarrow> v = JNull"
  by (simp add: absent_def)

end

interpretation redis: json_store "get_json c" "set_json c" "delete_key c" for c
  by unfold_locales (auto intro: get_after_set(2) get_after_delete(2) simp: get_after_set(1) get_after_delete(1))

end
