(* ===== verification/Google_Login.thy ===== *)
theory Google_Login
  imports Query_Route Redis_Cache Token_Cipher
begin

text \<open>
  The sign-in with Google of \<open>app/api/routes/auth.py\<close>: \<open>google_login\<close> stores the state of an attempt
  in Redis, \<open>google_callback\<close> takes it, exchanges the code, stores the encrypted tokens of the user
  and opens a session, which the session check of the other endpoints reads.

  Parameters: the OAuth client (the URL and the code verifier of an attempt, the exchange of the
  code, the profile), the Fernet cipher, and the random tokens. A request for a token may raise a
  \<open>Warning\<close> that carries a token with more scopes than asked for.
\<close>

section \<open>The client\<close>

record oauth_credentials =
  oc_token :: "string option"
  oc_refresh :: "string option"
  oc_expiry :: "datetime option"
  oc_scopes :: "string list option"

text \<open>\<open>ScopeChanged\<close>: the token of the warning, and the credentials once it is put into the flow.\<close>

datatype fetch_result =
    Fetched oauth_credentials
  | ScopeChanged json "oauth_credentials option"
  | FetchFailed

record login_env =
  le_client_id :: string
  le_client_secret :: string
  le_state_ttl :: int
  le_session_ttl :: int
  le_authorization :: "string \<Rightarrow> string \<times> string"
  le_fetch_token :: "string \<Rightarrow> string \<Rightarrow> string \<Rightarrow> fetch_result"
  le_profile :: "oauth_credentials \<Rightarrow> dict option"
  le_fernet :: "string \<Rightarrow> token_cipher option"
  le_encryption_key :: string

definition google_scopes :: "string list" where
  "google_scopes =
     [''openid'', ''https://www.googleapis.com/auth/userinfo.email'',
      ''https://www.googleapis.com/auth/userinfo.profile'', ''https://www.googleapis.com/auth/gmail.modify'',
      ''https://www.googleapis.com/auth/calendar.events'', ''https://www.googleapis.com/auth/drive'']"

definition scope_set :: "json \<Rightarrow> string list" where
  "scope_set v =
     (case v of
        JStr s \<Rightarrow> py_split s
      | JList xs \<Rightarrow> List.map_filter (\<lambda>x. case x of JStr s \<Rightarrow> Some s | _ \<Rightarrow> None) xs
      | _ \<Rightarrow> [])"

definition accept_granted_scope_expansion :: "json \<Rightarrow> bool" where
  "accept_granted_scope_expansion token \<longleftrightarrow>
     (case token of
        JObj d \<Rightarrow> list_all (\<lambda>s. s \<in> set (scope_set (py_get d ''scope''))) google_scopes
      | _ \<Rightarrow> False)"

definition exchange_code :: "login_env \<Rightarrow> string \<Rightarrow> string \<Rightarrow> string \<Rightarrow> (oauth_credentials \<times> dict) option" where
  "exchange_code env state verifier code =
     (case (case le_fetch_token env state verifier code of
              Fetched c \<Rightarrow> Some c
            | ScopeChanged token c \<Rightarrow> if accept_granted_scope_expansion token then c else None
            | FetchFailed \<Rightarrow> None) of
        None \<Rightarrow> None
      | Some c \<Rightarrow> (case le_profile env c of None \<Rightarrow> None | Some profile \<Rightarrow> Some (c, profile)))"

definition oauth_configured :: "login_env \<Rightarrow> bool" where
  "oauth_configured env \<longleftrightarrow> le_client_id env \<noteq> [] \<and> le_client_secret env \<noteq> []"

definition not_configured :: http_error where
  "not_configured = HTTPError 503 ''Google OAuth is not configured''"

section \<open>Starting\<close>

definition google_login ::
  "login_env \<Rightarrow> redis_cache \<Rightarrow> int \<Rightarrow> string \<Rightarrow> redis_store \<Rightarrow> (http_error + string) \<times> redis_store" where
  "google_login env c now state store =
     (if \<not> oauth_configured env then (Inl not_configured, store)
      else
        (case le_authorization env state of
           (url, verifier) \<Rightarrow>
             if verifier = [] then (Inl (HTTPError 500 ''Google authentication could not be started''), store)
             else
               (case set_json c now (''oauth-state:'' @ state) (JObj [(''code_verifier'', JStr verifier)])
                       (le_state_ttl env) store of
                  Inl e \<Rightarrow> (Inl (Unhandled e), store)
                | Inr store' \<Rightarrow> (Inr url, store'))))"

section \<open>Users and credentials\<close>

record user_row =
  usr_id :: nat
  usr_email :: string

record credential_row =
  cr_user :: nat
  cr_access :: string
  cr_refresh :: string
  cr_scopes :: "string list"
  cr_expiry :: datetime

record login_db =
  users :: "user_row list"
  credential_rows :: "credential_row list"
  next_user :: nat

definition find_or_add_user :: "string \<Rightarrow> login_db \<Rightarrow> nat \<times> login_db" where
  "find_or_add_user email db =
     (case List.find (\<lambda>u. usr_email u = email) (users db) of
        Some u \<Rightarrow> (usr_id u, db)
      | None \<Rightarrow>
          (next_user db, db\<lparr>users := users db @ [\<lparr>usr_id = next_user db, usr_email = email\<rparr>],
             next_user := Suc (next_user db)\<rparr>))"

definition scopes_or_default :: "oauth_credentials \<Rightarrow> string list" where
  "scopes_or_default cred =
     (case oc_scopes cred of None \<Rightarrow> google_scopes | Some xs \<Rightarrow> if xs = [] then google_scopes else xs)"

definition aware_expiry :: "datetime \<Rightarrow> datetime" where
  "aware_expiry t = (if utcoffset t = None then t\<lparr>utcoffset := Some 0\<rparr> else t)"

text \<open>
  A missing refresh token keeps the stored one. Neither token is empty where it is encrypted, so the
  cipher does not raise.
\<close>

definition offered_refresh :: "oauth_credentials \<Rightarrow> string option" where
  "offered_refresh cred = (case oc_refresh cred of None \<Rightarrow> None | Some t \<Rightarrow> if t = [] then None else Some t)"

definition store_credentials ::
  "token_cipher \<Rightarrow> nat \<Rightarrow> string \<Rightarrow> datetime \<Rightarrow> oauth_credentials \<Rightarrow> login_db \<Rightarrow> http_error + login_db" where
  "store_credentials cipher user token expiry cred db =
     (let encrypt = tc_encrypt cipher; refresh = offered_refresh cred in
      case List.find (\<lambda>r. cr_user r = user) (credential_rows db) of
        None \<Rightarrow>
          (case refresh of
             None \<Rightarrow> Inl (HTTPError 502 ''Google did not return a refresh token'')
           | Some t \<Rightarrow>
               Inr (db\<lparr>credential_rows := credential_rows db @
                 [\<lparr>cr_user = user, cr_access = encrypt token, cr_refresh = encrypt t,
                   cr_scopes = scopes_or_default cred, cr_expiry = aware_expiry expiry\<rparr>]\<rparr>))
      | Some _ \<Rightarrow>
          Inr (db\<lparr>credential_rows := map (\<lambda>r. if cr_user r = user
            then r\<lparr>cr_access := encrypt token,
                   cr_refresh := (case refresh of None \<Rightarrow> cr_refresh r | Some t \<Rightarrow> encrypt t),
                   cr_scopes := scopes_or_default cred, cr_expiry := aware_expiry expiry\<rparr>
            else r) (credential_rows db)\<rparr>))"

section \<open>The callback\<close>

text \<open>What an exchange gives: the user and the tables, or an error.\<close>

definition admit_user :: "login_env \<Rightarrow> oauth_credentials \<Rightarrow> dict \<Rightarrow> login_db \<Rightarrow> http_error + nat \<times> login_db" where
  "admit_user env cred profile db =
     (case py_get profile ''email'' of
        JStr email \<Rightarrow>
          if email = [] then Inl (HTTPError 502 ''Google account did not provide an email'')
          else
            (case (oc_token cred, oc_expiry cred) of
               (Some token, Some expiry) \<Rightarrow>
                 if token = [] then Inl (HTTPError 502 ''Google returned incomplete credentials'')
                 else
                   (case new_cipher (le_fernet env) (le_encryption_key env) of
                      Inl _ \<Rightarrow> Inl (HTTPError 503 ''Credential encryption is not configured'')
                    | Inr cipher \<Rightarrow>
                        (case find_or_add_user email db of
                           (user, db1) \<Rightarrow>
                             (case store_credentials cipher user token expiry cred db1 of
                                Inl e \<Rightarrow> Inl e | Inr db2 \<Rightarrow> Inr (user, db2))))
             | _ \<Rightarrow> Inl (HTTPError 502 ''Google returned incomplete credentials''))
      | _ \<Rightarrow> Inl (HTTPError 502 ''Google account did not provide an email''))"

definition google_callback ::
  "login_env \<Rightarrow> redis_cache \<Rightarrow> int \<Rightarrow> string \<Rightarrow> string \<Rightarrow> string \<Rightarrow> login_db \<Rightarrow> redis_store \<Rightarrow>
   (http_error + nat \<times> string) \<times> login_db \<times> redis_store" where
  "google_callback env c now code state session_id db store =
     (if \<not> oauth_configured env then (Inl not_configured, db, store)
      else
        (case get_json c now store (''oauth-state:'' @ state) of
           Inl e \<Rightarrow> (Inl (Unhandled e), db, store)
         | Inr stored \<Rightarrow>
             (case delete_key c now (''oauth-state:'' @ state) store of
                Inl e \<Rightarrow> (Inl (Unhandled e), db, store)
              | Inr (_, store1) \<Rightarrow>
                  (case (case stored of JObj d \<Rightarrow> py_get d ''code_verifier'' | _ \<Rightarrow> JNull) of
                     JStr verifier \<Rightarrow>
                       (case exchange_code env state verifier code of
                          None \<Rightarrow> (Inl (HTTPError 502 ''Google authentication failed''), db, store1)
                        | Some (cred, profile) \<Rightarrow>
                            (case admit_user env cred profile db of
                               Inl e \<Rightarrow> (Inl e, db, store1)
                             | Inr (user, db') \<Rightarrow>
                                 (case set_json c now (''session:'' @ session_id)
                                         (JObj [(''user_id'', JStr (uuid_str user))]) (le_session_ttl env) store1 of
                                    Inl e \<Rightarrow> (Inl (Unhandled e), db', store1)
                                  | Inr store2 \<Rightarrow> (Inr (user, session_id), db', store2))))
                   | _ \<Rightarrow> (Inl (HTTPError 400 ''OAuth state is invalid''), db, store1)))))"

section \<open>Attempts are used once\<close>

text \<open>The requests of all browsers, one after the other, each at its time and with its random value.\<close>

datatype login_request =
    Begin int string
  | Callback int string string string

fun handle_login :: "login_env \<Rightarrow> redis_cache \<Rightarrow> login_request \<Rightarrow> login_db \<times> redis_store \<Rightarrow> login_db \<times> redis_store" where
  "handle_login env c (Begin now state) (db, store) = (db, snd (google_login env c now state store))"
| "handle_login env c (Callback now code state sid) (db, store) = snd (google_callback env c now code state sid db store)"

definition state_key :: "string \<Rightarrow> string" where
  "state_key state = ''oauth-state:'' @ state"

lemma state_key_neq: "state_key s \<noteq> ''session:'' @ sid" "state_key s = state_key s' \<longleftrightarrow> s = s'"
  by (simp_all add: state_key_def)

text \<open>The store after a callback that has looked at its state.\<close>

lemma callback_store:
  assumes "google_callback env c now code state sid db store = (r, db', store')"
  shows "store' = store \<or> (\<exists>b store1. delete_key c now (state_key state) store = Inr (b, store1) \<and>
    (store' = store1 \<or> (\<exists>v. set_json c now (''session:'' @ sid) v (le_session_ttl env) store1 = Inr store')))"
  using assms unfolding google_callback_def state_key_def
  by (auto split: if_splits sum.splits json.splits option.splits prod.splits)

lemma get_json_unusable: "client_key c key = Inl e \<Longrightarrow> get_json c t store key = Inl e"
  by (simp add: get_json_def)

lemma callback_uses_state:
  assumes "google_callback env c now code state sid db store = (r, db', store')" and "r \<noteq> Inl not_configured"
  shows "(\<exists>e. client_key c (state_key state) = Inl e) \<or>
    (\<exists>b store1. delete_key c now (state_key state) store = Inr (b, store1) \<and>
      (store' = store1 \<or> (\<exists>v. set_json c now (''session:'' @ sid) v (le_session_ttl env) store1 = Inr store')))"
proof (cases "client_key c (state_key state)")
  case (Inr k)
  then obtain x where "delete_key c now (state_key state) store = Inr x" by (auto simp: delete_key_def)
  moreover from Inr obtain v where "get_json c now store (state_key state) = Inr v" by (auto simp: get_json_def)
  ultimately show ?thesis using assms unfolding google_callback_def state_key_def
    by (auto split: if_splits json.splits option.splits prod.splits sum.splits)
qed blast

lemma callback_keeps_absent:
  assumes "google_callback env c now code state' sid db store = (r, db', store')" and "redis.absent c (state_key state) store"
  shows "redis.absent c (state_key state) store'"
  using callback_store [OF assms(1)] assms(2) redis.absent_remove redis.absent_put state_key_neq(1) by metis

lemma login_keeps_absent:
  assumes "redis.absent c (state_key state) store" and "state' \<noteq> state"
  shows "redis.absent c (state_key state) (snd (google_login env c now state' store))"
proof -
  have "state_key state \<noteq> ''oauth-state:'' @ state'" using assms(2) by (simp add: state_key_def)
  with assms(1) show ?thesis
    by (auto simp: google_login_def dest: redis.absent_put split: prod.splits sum.splits)
qed

lemma handled_keeps_absent:
  assumes "redis.absent c (state_key state) (snd s)" and "\<forall>n. request \<noteq> Begin n state"
  shows "redis.absent c (state_key state) (snd (handle_login env c request s))"
proof (cases request)
  case (Begin now state')
  with assms login_keeps_absent show ?thesis by (cases s) auto
next
  case (Callback now code state' sid)
  obtain r db' store' where "google_callback env c now code state' sid (fst s) (snd s) = (r, db', store')" by (rule prod_cases3)
  with callback_keeps_absent [OF this assms(1)] Callback show ?thesis by (cases s) auto
qed

lemma callback_absent:
  assumes "google_callback env c now code state sid db store = (r, db', store')" and "redis.absent c (state_key state) store"
  shows "isl r \<and> db' = db \<and> (store' = store \<or> (\<exists>b. delete_key c now (state_key state) store = Inr (b, store')))"
  using assms(1) redis.absent_get [OF assms(2)]
  by (auto simp: google_callback_def state_key_def split: if_splits sum.splits json.splits option.splits prod.splits)

text \<open>
  C39. The state of a sign-in attempt can be used once. After a callback with a state, whatever its
  outcome, and whatever requests follow, as long as no new attempt draws the same state, no
  callback with it signs anyone in, whoever sends it and whatever its code; it changes no table and
  opens no session.
\<close>

theorem oauth_state_single_use:
  assumes "google_callback env c now code state sid db store = (r, db1, store1)" and "r \<noteq> Inl not_configured"
    and "fold (handle_login env c) requests (db1, store1) = (db2, store2)" and "\<forall>n. Begin n state \<notin> set requests"
    and "google_callback env c later code' state sid' db2 store2 = (r3, db3, store3)"
  shows "isl r3 \<and> db3 = db2 \<and> (\<forall>t key. key \<noteq> ''oauth-state:'' @ state \<longrightarrow>
    get_json c t store3 key = get_json c t store2 key)"
proof -
  have first: "redis.absent c (state_key state) store1"
    using callback_uses_state [OF assms(1,2)] redis.absent_removed redis.absent_put state_key_neq(1)
    by (metis redis.absent_def get_json_unusable sum.distinct(1))
  have "redis.absent c (state_key state) (snd (fold (handle_login env c) requests s))"
    if "redis.absent c (state_key state) (snd s)" for s
    using assms(4) that
  proof (induction requests arbitrary: s)
    case (Cons q qs)
    have "redis.absent c (state_key state) (snd (handle_login env c q s))"
      using Cons.prems by (intro handled_keeps_absent) auto
    from Cons.IH [OF _ this] Cons.prems(1) show ?case by simp
  qed simp
  from this [of "(db1, store1)"] first assms(3) have "redis.absent c (state_key state) store2" by simp
  from callback_absent [OF assms(5) this] redis.remove_other show ?thesis unfolding state_key_def by metis
qed

section \<open>Sessions\<close>

definition login_db_ok :: "login_db \<Rightarrow> bool" where
  "login_db_ok db \<longleftrightarrow> distinct (map usr_id (users db)) \<and> distinct (map usr_email (users db)) \<and>
     list_all (\<lambda>u. usr_id u < next_user db) (users db) \<and> distinct (map cr_user (credential_rows db)) \<and>
     list_all (\<lambda>r. cr_user r \<in> set (map usr_id (users db))) (credential_rows db)"

lemma find_or_add_user_ok:
  assumes "login_db_ok db" and "find_or_add_user email db = (user, db')"
  shows "login_db_ok db'" and "\<lparr>usr_id = user, usr_email = email\<rparr> \<in> set (users db')"
    and "credential_rows db' = credential_rows db" and "set (users db) \<subseteq> set (users db')"
proof -
  have "login_db_ok db' \<and> \<lparr>usr_id = user, usr_email = email\<rparr> \<in> set (users db') \<and>
      credential_rows db' = credential_rows db \<and> set (users db) \<subseteq> set (users db')"
  proof (cases "List.find (\<lambda>u. usr_email u = email) (users db)")
    case None
    then have new: "email \<notin> set (map usr_email (users db))" by (auto simp: find_None_iff)
    from assms(1) have below: "\<And>u. u \<in> set (users db) \<Longrightarrow> usr_id u < next_user db"
      by (simp add: login_db_ok_def list_all_iff)
    then have "next_user db \<notin> set (map usr_id (users db))" by fastforce
    moreover have "\<And>u. u \<in> set (users db) \<Longrightarrow> usr_id u < Suc (next_user db)"
      using below by (simp add: less_SucI)
    moreover have user: "user = next_user db" and db': "db' = db\<lparr>users := users db @
        [\<lparr>usr_id = next_user db, usr_email = email\<rparr>], next_user := Suc (next_user db)\<rparr>"
      using assms(2) None by (auto simp: find_or_add_user_def)
    ultimately show ?thesis using assms(1) new
      by (simp add: login_db_ok_def list_all_iff subset_insertI)
  next
    case (Some u)
    then have "u \<in> set (users db)" "usr_email u = email" by (auto simp: find_Some_iff)
    moreover have "u = \<lparr>usr_id = usr_id u, usr_email = usr_email u\<rparr>" by simp
    ultimately have "\<lparr>usr_id = usr_id u, usr_email = email\<rparr> \<in> set (users db)" by metis
    with assms Some show ?thesis by (auto simp: find_or_add_user_def)
  qed
  then show "login_db_ok db'" "\<lparr>usr_id = user, usr_email = email\<rparr> \<in> set (users db')"
    "credential_rows db' = credential_rows db" "set (users db) \<subseteq> set (users db')" by blast+
qed

lemma store_credentials_ok:
  assumes "login_db_ok db" and "store_credentials cipher user token expiry cred db = Inr db'"
    and "user \<in> set (map usr_id (users db))"
  shows "login_db_ok db' \<and> users db' = users db \<and>
    list_ex (\<lambda>r. cr_user r = user \<and> cr_access r = tc_encrypt cipher token) (credential_rows db')"
proof (cases "List.find (\<lambda>r. cr_user r = user) (credential_rows db)")
  case None
  then have new: "user \<notin> set (map cr_user (credential_rows db))" by (auto simp: find_None_iff)
  from None assms(2) have "\<exists>t. db' = db\<lparr>credential_rows := credential_rows db @
      [\<lparr>cr_user = user, cr_access = tc_encrypt cipher token, cr_refresh = tc_encrypt cipher t,
        cr_scopes = scopes_or_default cred, cr_expiry = aware_expiry expiry\<rparr>]\<rparr>"
    by (auto simp: store_credentials_def Let_def split: option.splits if_splits)
  with assms(1,3) new show ?thesis by (auto simp: login_db_ok_def)
next
  case (Some r)
  then have r: "r \<in> set (credential_rows db)" "cr_user r = user" by (auto simp: find_Some_iff)
  from Some assms(2) obtain g where db': "db' = db\<lparr>credential_rows := map (\<lambda>r. if cr_user r = user then g r else r) (credential_rows db)\<rparr>"
    and g: "\<And>r. cr_user (g r) = cr_user r" "\<And>r. cr_access (g r) = tc_encrypt cipher token"
    by (auto simp: store_credentials_def Let_def)
  have keys: "map cr_user (credential_rows db') = map cr_user (credential_rows db)"
    using g(1) by (simp add: db')
  have "set (map cr_user (credential_rows db)) \<subseteq> set (map usr_id (users db))"
    using assms(1) by (auto simp: login_db_ok_def list_all_iff)
  then have "list_all (\<lambda>r. cr_user r \<in> set (map usr_id (users db))) (credential_rows db')"
    unfolding keys [symmetric] by (auto simp: list_all_iff)
  moreover have "g r \<in> set (credential_rows db')" using r by (force simp: db')
  then have "list_ex (\<lambda>r. cr_user r = user \<and> cr_access r = tc_encrypt cipher token) (credential_rows db')"
    using g r(2) by (auto simp: list_ex_iff)
  moreover have "users db' = users db" "next_user db' = next_user db" by (simp_all add: db')
  ultimately show ?thesis using assms(1) keys by (simp add: login_db_ok_def)
qed

text \<open>A request touches the keys of its own state and session only.\<close>

lemma other_key_callback:
  assumes "google_callback env c now code state sid db store = (r, db', store')"
    and "key \<noteq> state_key state" and "key \<noteq> ''session:'' @ sid"
  shows "get_json c t store' key = get_json c t store key"
  using callback_store [OF assms(1)]
proof (elim disjE exE conjE)
  fix b store1 v
  assume "delete_key c now (state_key state) store = Inr (b, store1)"
  note del = redis.remove_other [OF this assms(2), of t]
  show "store' = store1 \<Longrightarrow> ?thesis" by (simp add: del)
  assume "set_json c now (''session:'' @ sid) v (le_session_ttl env) store1 = Inr store'"
  from redis.put_other [OF this assms(3), of t] show ?thesis by (simp add: del)
qed simp

lemma other_key_login:
  assumes "key \<noteq> state_key state"
  shows "get_json c t (snd (google_login env c now state store)) key = get_json c t store key"
proof -
  have "snd (google_login env c now state store) = store \<or>
      (\<exists>v. set_json c now (state_key state) v (le_state_ttl env) store = Inr (snd (google_login env c now state store)))"
    unfolding state_key_def by (auto simp: google_login_def split: prod.splits sum.splits)
  with redis.put_other [OF _ assms] show ?thesis by metis
qed

lemma other_key_requests:
  assumes "\<forall>q \<in> set requests. case q of
      Begin n state \<Rightarrow> key \<noteq> state_key state
    | Callback n code state sid \<Rightarrow> key \<noteq> state_key state \<and> key \<noteq> ''session:'' @ sid"
  shows "get_json c t (snd (fold (handle_login env c) requests s)) key = get_json c t (snd s) key"
  using assms
proof (induction requests arbitrary: s)
  case (Cons q qs)
  have "get_json c t (snd (handle_login env c q s)) key = get_json c t (snd s) key"
  proof (cases q)
    case (Begin now state)
    with Cons.prems show ?thesis by (cases s) (simp add: other_key_login)
  next
    case (Callback now code state sid)
    obtain r db' store' where run: "google_callback env c now code state sid (fst s) (snd s) = (r, db', store')" by (rule prod_cases3)
    from other_key_callback [OF run] Cons.prems Callback have "get_json c t store' key = get_json c t (snd s) key" by simp
    with run Callback show ?thesis by (cases s) simp
  qed
  with Cons show ?case by simp
qed simp

lemma session_kept:
  assumes "\<forall>n code state. Callback n code state cookie \<notin> set requests"
  shows "get_json c t (snd (fold (handle_login env c) requests s)) (''session:'' @ cookie) = get_json c t (snd s) (''session:'' @ cookie)"
proof (rule other_key_requests, rule ballI)
  fix q assume "q \<in> set requests"
  with assms show "case q of
      Begin n state \<Rightarrow> ''session:'' @ cookie \<noteq> state_key state
    | Callback n code state sid \<Rightarrow> ''session:'' @ cookie \<noteq> state_key state \<and> ''session:'' @ cookie \<noteq> ''session:'' @ sid"
    by (cases q) (auto simp: state_key_def)
qed

text \<open>
  C40. A successful sign-in opens a session for the user of the Google account: until it expires the
  session check of the other endpoints gives this user for its cookie, whatever other sign-ins
  happen meanwhile. The tables stay consistent (one user per address, one row of credentials per user),
  no user is lost, and the access token stored is the encrypted one.
\<close>

theorem login_session_recognised:
  assumes "google_callback env c now code state sid db store = (Inr (user, cookie), db', store')"
    and "login_db_ok db" and "cookie \<noteq> []" and "parse_uuid (uuid_str user) = Some user"
    and "t < now + le_session_ttl env" and "\<forall>n code state. Callback n code state cookie \<notin> set requests"
  shows "current_user_id (get_json c t (snd (fold (handle_login env c) requests (db', store')))) parse_uuid (Some cookie) = Inr user \<and>
    (\<exists>cred profile email token cipher. le_profile env cred = Some profile \<and>
      py_get profile ''email'' = JStr email \<and> \<lparr>usr_id = user, usr_email = email\<rparr> \<in> set (users db') \<and>
      oc_token cred = Some token \<and> new_cipher (le_fernet env) (le_encryption_key env) = Inr cipher \<and>
      list_ex (\<lambda>r. cr_user r = user \<and> cr_access r = tc_encrypt cipher token) (credential_rows db')) \<and>
    login_db_ok db' \<and> set (users db) \<subseteq> set (users db')"
proof -
  from assms(1) obtain store1 verifier cred profile where
    exchange: "exchange_code env state verifier code = Some (cred, profile)"
    and admit: "admit_user env cred profile db = Inr (user, db')"
    and session: "set_json c now (''session:'' @ cookie) (JObj [(''user_id'', JStr (uuid_str user))])
      (le_session_ttl env) store1 = Inr store'"
    by (auto simp: google_callback_def split: if_splits sum.splits json.splits option.splits prod.splits)
  have "get_json c t (snd (fold (handle_login env c) requests (db', store'))) (''session:'' @ cookie) =
      Inr (JObj [(''user_id'', JStr (uuid_str user))])"
    unfolding session_kept [OF assms(6)] snd_conv redis.put_get [OF session] using assms(5) by simp
  with assms(3,4) have "current_user_id (get_json c t (snd (fold (handle_login env c) requests (db', store')))) parse_uuid (Some cookie) = Inr user"
    by (simp add: current_user_id_def dict_get_or_def)
  moreover from exchange have "le_profile env cred = Some profile"
    by (auto simp: exchange_code_def split: option.splits fetch_result.splits if_splits)
  moreover from admit obtain email token expiry cipher db1 where
    email: "py_get profile ''email'' = JStr email" and token: "oc_token cred = Some token" "new_cipher (le_fernet env) (le_encryption_key env) = Inr cipher"
    and found: "find_or_add_user email db = (user, db1)"
    and stored: "store_credentials cipher user token expiry cred db1 = Inr db'"
    by (auto simp: admit_user_def split: json.splits if_splits option.splits prod.splits sum.splits)
  note one = find_or_add_user_ok [OF assms(2) found]
  have "user \<in> set (map usr_id (users db1))" using one(2) by force
  from store_credentials_ok [OF one(1) stored this] one
  have "\<lparr>usr_id = user, usr_email = email\<rparr> \<in> set (users db')" "login_db_ok db'" "set (users db) \<subseteq> set (users db')"
    "list_ex (\<lambda>r. cr_user r = user \<and> cr_access r = tc_encrypt cipher token) (credential_rows db')" by simp_all
  ultimately show ?thesis using email token by blast
qed

section \<open>Samples\<close>

definition sample_cipher :: token_cipher where
  "sample_cipher = \<lparr>tc_encrypt = rev, tc_decrypt = \<lambda>s. Some (rev s)\<rparr>"

definition sample_login_env :: login_env where
  "sample_login_env = \<lparr>le_client_id = ''client'', le_client_secret = ''secret'', le_state_ttl = 600,
     le_session_ttl = 1000, le_authorization = \<lambda>_. (''https://accounts.google.com'', ''verifier''),
     le_fetch_token = \<lambda>_ _ _. Fetched \<lparr>oc_token = Some ''token'', oc_refresh = Some ''refresh'',
       oc_expiry = Some sample_reference, oc_scopes = None\<rparr>,
     le_profile = \<lambda>_. Some [(''email'', JStr ''ann@example.com'')], le_fernet = \<lambda>_. Some sample_cipher,
     le_encryption_key = ''key''\<rparr>"

definition sample_cache :: redis_cache where
  "sample_cache = \<lparr>rc_namespace = ''app'', rc_started = True\<rparr>"

definition sample_login_db :: login_db where
  "sample_login_db = \<lparr>users = [\<lparr>usr_id = 3, usr_email = ''bob@example.com''\<rparr>], credential_rows = [], next_user = 4\<rparr>"

definition sample_attempt :: redis_store where
  "sample_attempt = snd (google_login sample_login_env sample_cache 0 ''s1'' [])"

definition sample_callback :: "(http_error + nat \<times> string) \<times> login_db \<times> redis_store" where
  "sample_callback = google_callback sample_login_env sample_cache 5 ''code'' ''s1'' ''abc'' sample_login_db sample_attempt"

lemma sample_callback_run: "fst sample_callback = Inr (4, ''abc'')"
  by code_simp

lemma oauth_state_single_use_witness:
  "case fold (handle_login sample_login_env sample_cache) [Begin 6 ''s2'', Callback 7 ''code'' ''s1'' ''x''] (snd sample_callback) of
     (db, store) \<Rightarrow> isl (fst (google_callback sample_login_env sample_cache 8 ''code'' ''s1'' ''def'' db store))"
proof -
  let ?handle = "fold (handle_login sample_login_env sample_cache) [Begin 6 ''s2'', Callback 7 ''code'' ''s1'' ''x'']"
  obtain db1 store1 where after: "snd sample_callback = (db1, store1)" by (rule prod.exhaust)
  obtain db2 store2 where handled: "?handle (db1, store1) = (db2, store2)" by (rule prod.exhaust)
  obtain r3 db3 store3 where second: "google_callback sample_login_env sample_cache 8 ''code'' ''s1'' ''def''
      db2 store2 = (r3, db3, store3)" by (rule prod_cases3)
  have first: "google_callback sample_login_env sample_cache 5 ''code'' ''s1'' ''abc'' sample_login_db sample_attempt =
      (fst sample_callback, db1, store1)"
    using after by (simp add: sample_callback_def prod_eq_iff)
  have answered: "fst sample_callback \<noteq> Inl not_configured" by (simp add: sample_callback_run)
  have "isl r3" using oauth_state_single_use [OF first answered handled _ second] by simp
  then show ?thesis unfolding after handled by (simp add: second)
qed

lemma login_session_recognised_witness:
  "current_user_id (get_json sample_cache 100 (snd (fold (handle_login sample_login_env sample_cache)
       [Begin 6 ''s2'', Callback 7 ''code'' ''s2'' ''def''] (snd sample_callback))))
     (\<lambda>s. if s = uuid_str 4 then Some 4 else None) (Some ''abc'') = Inr 4"
proof -
  have run: "google_callback sample_login_env sample_cache 5 ''code'' ''s1'' ''abc'' sample_login_db sample_attempt =
      (Inr (4, ''abc''), fst (snd sample_callback), snd (snd sample_callback))"
    using sample_callback_run unfolding sample_callback_def by (metis prod.collapse)
  have "login_db_ok sample_login_db" by (simp add: login_db_ok_def sample_login_db_def)
  from login_session_recognised [OF run this, of "\<lambda>s. if s = uuid_str 4 then Some 4 else None" 100
      "[Begin 6 ''s2'', Callback 7 ''code'' ''s2'' ''def'']"]
  show ?thesis by (simp add: sample_login_env_def)
qed

end
