(* ===== verification/Google_Credentials.thy ===== *)
theory Google_Credentials
  imports Google_Login
begin

text \<open>
  \<open>GoogleClientFactory\<close> of \<open>app/integrations/google.py\<close>: the credentials the Google clients of a user
  are built with, read from the tables the sign-in wrote, refreshed when they have expired.

  The credentials object is a parameter: whether it is valid or expired now, and what refreshing it
  gives. The lock of the factory lets one load run at a time, so a load is one step.
\<close>

section \<open>The factory\<close>

datatype refresh_result =
    Refreshed oauth_credentials
  | RefreshError
  | RefreshRaised py_error

datatype client_error = GoogleCredentialError string | ClientRaised py_error

record client_env =
  ce_cipher :: token_cipher
  ce_valid :: "oauth_credentials \<Rightarrow> bool"
  ce_expired :: "oauth_credentials \<Rightarrow> bool"
  ce_refresh :: "oauth_credentials \<Rightarrow> refresh_result"

record client_factory =
  cf_user :: nat
  cf_credentials :: "oauth_credentials option"

definition new_factory :: "nat \<Rightarrow> client_factory" where
  "new_factory user = \<lparr>cf_user = user, cf_credentials = None\<rparr>"

definition to_utc :: "datetime \<Rightarrow> py_error + datetime" where
  "to_utc t = (case astimezone utc_zone t of None \<Rightarrow> Inl OverflowError | Some u \<Rightarrow> Inr u)"

definition naive_expiry :: "datetime \<Rightarrow> py_error + datetime" where
  "naive_expiry t =
     (if utcoffset t = None then Inr t
      else (case to_utc t of Inl e \<Rightarrow> Inl e | Inr u \<Rightarrow> Inr (u\<lparr>utcoffset := None\<rparr>)))"

definition utc_expiry :: "datetime \<Rightarrow> py_error + datetime" where
  "utc_expiry t = (if utcoffset t = None then Inr (t\<lparr>utcoffset := Some 0\<rparr>) else to_utc t)"

definition stored_row :: "nat \<Rightarrow> login_db \<Rightarrow> credential_row option" where
  "stored_row user db = List.find (\<lambda>r. cr_user r = user) (credential_rows db)"

definition credentials_of_row :: "token_cipher \<Rightarrow> credential_row \<Rightarrow> py_error + oauth_credentials" where
  "credentials_of_row c row =
     (case naive_expiry (cr_expiry row) of
        Inl e \<Rightarrow> Inl e
      | Inr expiry \<Rightarrow>
          (case decrypt_token c (cr_access row) of
             Inl e \<Rightarrow> Inl e
           | Inr token \<Rightarrow>
               (case decrypt_token c (cr_refresh row) of
                  Inl e \<Rightarrow> Inl e
                | Inr refresh \<Rightarrow>
                    Inr \<lparr>oc_token = Some token, oc_refresh = Some refresh, oc_expiry = Some expiry,
                      oc_scopes = Some (cr_scopes row)\<rparr>)))"

definition update_row :: "nat \<Rightarrow> (credential_row \<Rightarrow> credential_row) \<Rightarrow> login_db \<Rightarrow> login_db" where
  "update_row user f db =
     db\<lparr>credential_rows := map (\<lambda>r. if cr_user r = user then f r else r) (credential_rows db)\<rparr>"

text \<open>What is done with the answer to a refresh: the new access token and expiry are stored.\<close>

definition store_refreshed ::
  "token_cipher \<Rightarrow> nat \<Rightarrow> oauth_credentials \<Rightarrow> login_db \<Rightarrow> (client_error + oauth_credentials) \<times> login_db" where
  "store_refreshed c user cred db =
     (case (oc_token cred, oc_expiry cred) of
        (Some token, Some expiry) \<Rightarrow>
          if token = [] then
            (Inl (GoogleCredentialError ''Google token refresh returned incomplete credentials''), db)
          else
            (case encrypt_token c token of
               Inl e \<Rightarrow> (Inl (ClientRaised e), db)
             | Inr access \<Rightarrow>
                 (let db1 = update_row user (\<lambda>r. r\<lparr>cr_access := access\<rparr>) db in
                  case utc_expiry expiry of
                    Inl e \<Rightarrow> (Inl (ClientRaised e), db1)
                  | Inr t \<Rightarrow> (Inr cred, update_row user (\<lambda>r. r\<lparr>cr_expiry := t\<rparr>) db1)))
      | _ \<Rightarrow> (Inl (GoogleCredentialError ''Google token refresh returned incomplete credentials''), db))"

definition fresh_credentials ::
  "client_env \<Rightarrow> nat \<Rightarrow> oauth_credentials \<Rightarrow> login_db \<Rightarrow> (client_error + oauth_credentials) \<times> login_db" where
  "fresh_credentials env user cred db =
     (if ce_expired env cred then
        (case ce_refresh env cred of
           Refreshed cred' \<Rightarrow> store_refreshed (ce_cipher env) user cred' db
         | RefreshError \<Rightarrow>
             (Inl (GoogleCredentialError ''Google authorization has expired or been revoked''), db)
         | RefreshRaised e \<Rightarrow> (Inl (ClientRaised e), db))
      else (Inr cred, db))"

definition load_stored ::
  "client_env \<Rightarrow> client_factory \<Rightarrow> login_db \<Rightarrow> (client_error + oauth_credentials) \<times> client_factory \<times> login_db" where
  "load_stored env f db =
     (case stored_row (cf_user f) db of
        None \<Rightarrow> (Inl (GoogleCredentialError ''Google account is not connected''), f, db)
      | Some row \<Rightarrow>
          (case credentials_of_row (ce_cipher env) row of
             Inl e \<Rightarrow> (Inl (ClientRaised e), f, db)
           | Inr cred \<Rightarrow>
               (case fresh_credentials env (cf_user f) cred db of
                  (Inl e, db') \<Rightarrow> (Inl e, f, db')
                | (Inr cred', db') \<Rightarrow> (Inr cred', f\<lparr>cf_credentials := Some cred'\<rparr>, db'))))"

definition load_credentials ::
  "client_env \<Rightarrow> client_factory \<Rightarrow> login_db \<Rightarrow> (client_error + oauth_credentials) \<times> client_factory \<times> login_db" where
  "load_credentials env f db =
     (case cf_credentials f of
        Some cred \<Rightarrow> if ce_valid env cred then (Inr cred, f, db) else load_stored env f db
      | None \<Rightarrow> load_stored env f db)"

section \<open>Expiry\<close>

lemma clock_digits:
  fixes h :: nat
  assumes "mi < 60" and "s < 60"
  shows "((h * 60 + mi) * 60 + s) div 3600 = h"
    and "((h * 60 + mi) * 60 + s) div 60 mod 60 = mi"
    and "((h * 60 + mi) * 60 + s) mod 60 = s"
proof -
  have minutes: "((h * 60 + mi) * 60 + s) div 60 = h * 60 + mi" using assms(2) by simp
  have "((h * 60 + mi) * 60 + s) div (60 * 60) = (h * 60 + mi) div 60"
    unfolding div_mult2_eq minutes ..
  then show "((h * 60 + mi) * 60 + s) div 3600 = h" using assms(1) by simp
  show "((h * 60 + mi) * 60 + s) div 60 mod 60 = mi" unfolding minutes using assms(1) by simp
  show "((h * 60 + mi) * 60 + s) mod 60 = s" using assms(2) by (simp only: mod_mult_self3 mod_less)
qed

lemma datetime_of_local_micros:
  assumes "valid_datetime t"
  shows "datetime_of_micros (local_micros t) (utcoffset t) = Some t"
proof -
  let ?o = "ymd_to_ord (year t) (month t) (day t)"
  let ?sec = "(hour t * 60 + minute t) * 60 + second t" and ?us = "((hour t * 60 + minute t) * 60 + second t) * 1000000 + microsecond t"
  from assms have bounds: "hour t < 24" "minute t < 60" "second t < 60" "microsecond t < 1000000"
    and ymd: "valid_ymd (year t) (month t) (day t)" by (simp_all add: valid_datetime_def)
  have us: "?us < 86400000000" using bounds by simp
  have split: "local_micros t = int ?us + int ?o * 86400000000"
    by (simp add: local_micros_def algebra_simps)
  have days: "local_micros t div 86400000000 = int ?o" and rest: "local_micros t mod 86400000000 = int ?us"
    unfolding split using us by simp_all
  have sec: "?us div 1000000 = ?sec" "?us mod 1000000 = microsecond t" using bounds(4)
    by (simp, simp only: mod_mult_self3 mod_less)
  from ymd have y: "1 \<le> year t" "year t \<le> 9999" and md: "1 \<le> month t" "month t \<le> 12" "1 \<le> day t"
    "day t \<le> days_in_month (year t) (month t)" by (simp_all add: valid_ymd_def)
  have "?o \<le> days_before_year (Suc (year t))"
    using day_of_year_bound [OF md(1,2,4)] y(1) by (simp add: ymd_to_ord_def days_before_year_Suc days_before_month_13)
  also have "\<dots> \<le> days_before_year 10000" using y(2) by (intro days_before_year_mono) simp
  also have "\<dots> = max_ordinal" by (simp add: days_before_year_def max_ordinal_def)
  finally have "?o \<le> max_ordinal" .
  moreover have "1 \<le> ?o" using md(3) by (simp add: ymd_to_ord_def)
  moreover note ord_to_ymd_of_ymd [OF y(1) md]
  ultimately show ?thesis
    unfolding datetime_of_micros_def Let_def days rest nat_int sec clock_digits [OF bounds(2,3)] by simp
qed

text \<open>A time without a zone, stored as UTC and read back, is unchanged.\<close>

lemma naive_expiry_aware:
  assumes "utcoffset t = None" and "valid_datetime t"
  shows "naive_expiry (aware_expiry t) = Inr t"
proof -
  let ?u = "t\<lparr>utcoffset := Some 0\<rparr>"
  have "valid_datetime ?u" using assms(2) by (simp add: valid_datetime_def)
  from datetime_of_local_micros [OF this] have "astimezone utc_zone ?u = Some ?u"
    by (simp add: astimezone_def utc_zone_def utc_micros_def Let_def)
  then show ?thesis using assms(1) by (simp add: naive_expiry_def aware_expiry_def to_utc_def)
qed

section \<open>Rows\<close>

lemma stored_row_update:
  assumes "\<And>r. cr_user (g r) = cr_user r"
  shows "stored_row u (update_row v g db) = (if u = v then map_option g (stored_row u db) else stored_row u db)"
proof -
  have "List.find (\<lambda>r. cr_user r = u) (map (\<lambda>r. if cr_user r = v then g r else r) rows) =
      (if u = v then map_option g (List.find (\<lambda>r. cr_user r = u) rows) else List.find (\<lambda>r. cr_user r = u) rows)" for rows
    by (induction rows) (auto simp: assms)
  then show ?thesis by (simp add: stored_row_def update_row_def)
qed

lemma update_row_ok:
  assumes "\<And>r. cr_user (g r) = cr_user r" and "login_db_ok db"
  shows "login_db_ok (update_row v g db)"
proof -
  have keys: "map cr_user (credential_rows (update_row v g db)) = map cr_user (credential_rows db)"
    by (simp add: update_row_def assms(1))
  have "set (map cr_user (credential_rows db)) \<subseteq> set (map usr_id (users db))"
    using assms(2) by (auto simp: login_db_ok_def list_all_iff)
  then have "list_all (\<lambda>r. cr_user r \<in> set (map usr_id (users db))) (credential_rows (update_row v g db))"
    unfolding keys [symmetric] by (auto simp: list_all_iff)
  moreover have "distinct (map cr_user (credential_rows (update_row v g db)))"
    unfolding keys using assms(2) by (simp add: login_db_ok_def)
  moreover have "users (update_row v g db) = users db" "next_user (update_row v g db) = next_user db"
    by (simp_all add: update_row_def)
  ultimately show ?thesis using assms(2) by (simp add: login_db_ok_def)
qed

lemma update_row_fields [simp]:
  "users (update_row v g db) = users db" "next_user (update_row v g db) = next_user db"
  "(\<And>r. cr_refresh (g r) = cr_refresh r) \<Longrightarrow>
    map cr_refresh (credential_rows (update_row v g db)) = map cr_refresh (credential_rows db)"
  by (simp_all add: update_row_def)

section \<open>Loading\<close>

definition credentials_readable :: "token_cipher \<Rightarrow> login_db \<Rightarrow> bool" where
  "credentials_readable c db \<longleftrightarrow>
     list_all (\<lambda>r. \<not> isl (decrypt_token c (cr_access r)) \<and> \<not> isl (decrypt_token c (cr_refresh r))) (credential_rows db)"

lemma update_row_readable:
  assumes "credentials_readable c db"
    and "\<And>r. \<not> isl (decrypt_token c (cr_access r)) \<Longrightarrow> \<not> isl (decrypt_token c (cr_access (g r)))"
    and "\<And>r. cr_refresh (g r) = cr_refresh r"
  shows "credentials_readable c (update_row v g db)"
  using assms by (auto simp: credentials_readable_def update_row_def list_all_iff)

text \<open>What a load may do to the tables: the row of one user gets a new access token or expiry.\<close>

definition only_refreshes :: "token_cipher \<Rightarrow> nat \<Rightarrow> login_db \<Rightarrow> login_db \<Rightarrow> bool" where
  "only_refreshes c user db db' \<longleftrightarrow>
     (login_db_ok db \<longrightarrow> login_db_ok db') \<and> (credentials_readable c db \<longrightarrow> credentials_readable c db') \<and>
     users db' = users db \<and> map cr_refresh (credential_rows db') = map cr_refresh (credential_rows db) \<and>
     (\<forall>u. u \<noteq> user \<longrightarrow> stored_row u db' = stored_row u db)"

lemma only_refreshes_refl: "only_refreshes c user db db"
  by (simp add: only_refreshes_def)

lemma store_refreshed_effect:
  assumes "store_refreshed c user cred db = (r, db')" and "cipher_law c"
  shows "only_refreshes c user db db'"
    and "r = Inl e \<Longrightarrow> e \<noteq> ClientRaised OverflowError \<Longrightarrow> db' = db"
    and "r = Inr cred' \<Longrightarrow> stored_row user db = Some row \<Longrightarrow> \<exists>t row'. oc_token cred' = Some t \<and>
      stored_row user db' = Some row' \<and> decrypt_token c (cr_access row') = Inr t"
proof -
  have readable: "encrypt_token c t = Inr a \<Longrightarrow> \<not> isl (decrypt_token c a)" for t a
    using decrypt_encrypt [OF assms(2)] by fastforce
  from assms(1) show "only_refreshes c user db db'"
    by (auto simp: store_refreshed_def Let_def only_refreshes_def stored_row_update
        intro!: update_row_ok update_row_readable dest: readable
        split: option.splits if_splits sum.splits)
  from assms(1) show "r = Inl e \<Longrightarrow> e \<noteq> ClientRaised OverflowError \<Longrightarrow> db' = db"
    by (auto simp: store_refreshed_def Let_def utc_expiry_def to_utc_def split: option.splits if_splits sum.splits)
  from assms(1) show "r = Inr cred' \<Longrightarrow> stored_row user db = Some row \<Longrightarrow> \<exists>t row'. oc_token cred' = Some t \<and>
      stored_row user db' = Some row' \<and> decrypt_token c (cr_access row') = Inr t"
    by (auto simp: store_refreshed_def Let_def stored_row_update dest: decrypt_encrypt [OF assms(2)]
        split: option.splits if_splits sum.splits)
qed

lemma load_stored_effect:
  assumes "load_stored env f db = (r, f', db')" and "cipher_law (ce_cipher env)"
  shows "only_refreshes (ce_cipher env) (cf_user f) db db'"
    and "r = Inl e \<Longrightarrow> f' = f \<and> (e \<noteq> ClientRaised OverflowError \<longrightarrow> db' = db)"
    and "r = Inr cred \<Longrightarrow> f' = f\<lparr>cf_credentials := Some cred\<rparr> \<and> (\<exists>t row. oc_token cred = Some t \<and>
      stored_row (cf_user f) db' = Some row \<and> decrypt_token (ce_cipher env) (cr_access row) = Inr t)"
proof -
  show "only_refreshes (ce_cipher env) (cf_user f) db db'"
    using assms(1) store_refreshed_effect(1) [OF _ assms(2)]
    by (auto simp: load_stored_def fresh_credentials_def only_refreshes_refl
        split: option.splits sum.splits prod.splits if_splits refresh_result.splits)
  show "r = Inl e \<Longrightarrow> f' = f \<and> (e \<noteq> ClientRaised OverflowError \<longrightarrow> db' = db)"
    using assms(1) store_refreshed_effect(2) [OF _ assms(2)]
    by (auto simp: load_stored_def fresh_credentials_def
        split: option.splits sum.splits prod.splits if_splits refresh_result.splits)
  assume r: "r = Inr cred"
  with assms(1) obtain row cred0 where row: "stored_row (cf_user f) db = Some row"
    and cred0: "credentials_of_row (ce_cipher env) row = Inr cred0"
    and fresh: "fresh_credentials env (cf_user f) cred0 db = (Inr cred, db')"
    and f': "f' = f\<lparr>cf_credentials := Some cred\<rparr>"
    by (auto simp: load_stored_def split: option.splits sum.splits prod.splits)
  show "f' = f\<lparr>cf_credentials := Some cred\<rparr> \<and> (\<exists>t row. oc_token cred = Some t \<and>
      stored_row (cf_user f) db' = Some row \<and> decrypt_token (ce_cipher env) (cr_access row) = Inr t)"
  proof (cases "ce_expired env cred0")
    case True
    with fresh obtain cred1 where "store_refreshed (ce_cipher env) (cf_user f) cred1 db = (Inr cred, db')"
      by (auto simp: fresh_credentials_def split: refresh_result.splits)
    from store_refreshed_effect(3) [OF this assms(2) refl row] f' show ?thesis by blast
  next
    case False
    with fresh cred0 row f' show ?thesis
      by (auto simp: fresh_credentials_def credentials_of_row_def split: sum.splits)
  qed
qed

text \<open>
  C38. Loading the credentials of a user, whatever the refresh answers, changes the row of this user
  only: it keeps one readable row per user and every refresh token. An error leaves the tables and the
  factory as they were (but for an expiry beyond the year 9999). After a success with a new
  factory the stored row decrypts to the very token returned, so that the next factory starts from it.
\<close>

theorem load_credentials_effect:
  assumes "load_credentials env f db = (r, f', db')" and "cipher_law (ce_cipher env)"
    and "login_db_ok db" and "credentials_readable (ce_cipher env) db"
  shows "login_db_ok db' \<and> credentials_readable (ce_cipher env) db' \<and> users db' = users db \<and>
    map cr_refresh (credential_rows db') = map cr_refresh (credential_rows db) \<and>
    (\<forall>u. u \<noteq> cf_user f \<longrightarrow> stored_row u db' = stored_row u db) \<and>
    (\<forall>e. r = Inl e \<longrightarrow> f' = f \<and> (e = ClientRaised OverflowError \<or> db' = db)) \<and>
    (\<forall>cred. r = Inr cred \<longrightarrow> cf_credentials f' = Some cred \<and>
      (cf_credentials f = None \<longrightarrow> (\<exists>t row. oc_token cred = Some t \<and>
        stored_row (cf_user f) db' = Some row \<and> decrypt_token (ce_cipher env) (cr_access row) = Inr t)))"
proof (cases "\<exists>cred. cf_credentials f = Some cred \<and> ce_valid env cred")
  case True
  with assms show ?thesis by (auto simp: load_credentials_def)
next
  case False
  with assms(1) have run: "load_stored env f db = (r, f', db')"
    by (auto simp: load_credentials_def split: option.splits if_splits)
  note effect = load_stored_effect [OF run assms(2)]
  from effect(1) assms(3,4) have "login_db_ok db'" "credentials_readable (ce_cipher env) db'" "users db' = users db"
    "map cr_refresh (credential_rows db') = map cr_refresh (credential_rows db)"
    "\<forall>u. u \<noteq> cf_user f \<longrightarrow> stored_row u db' = stored_row u db" by (simp_all add: only_refreshes_def)
  moreover have "\<forall>e. r = Inl e \<longrightarrow> f' = f \<and> (e = ClientRaised OverflowError \<or> db' = db)"
    using effect(2) by blast
  moreover have "\<forall>cred. r = Inr cred \<longrightarrow> cf_credentials f' = Some cred \<and> (\<exists>t row. oc_token cred = Some t \<and>
      stored_row (cf_user f) db' = Some row \<and> decrypt_token (ce_cipher env) (cr_access row) = Inr t)"
    using effect(3) by simp
  ultimately show ?thesis by blast
qed

text \<open>The row a sign-in leaves.\<close>

lemma find_snoc: "List.find P xs = None \<Longrightarrow> List.find P (xs @ [x]) = (if P x then Some x else None)"
  by (induction xs) (auto split: if_splits)

lemma store_credentials_row:
  assumes "store_credentials cipher user token expiry cred db = Inr db'"
  shows "\<exists>refresh. stored_row user db' = Some \<lparr>cr_user = user, cr_access = tc_encrypt cipher token,
      cr_refresh = refresh, cr_scopes = scopes_or_default cred, cr_expiry = aware_expiry expiry\<rparr> \<and>
    (case offered_refresh cred of
       Some t \<Rightarrow> refresh = tc_encrypt cipher t
     | None \<Rightarrow> \<exists>row \<in> set (credential_rows db). cr_user row = user \<and> refresh = cr_refresh row)"
proof (cases "List.find (\<lambda>r. cr_user r = user) (credential_rows db)")
  case None
  note new = find_snoc [OF None]
  from None assms obtain t where t: "offered_refresh cred = Some t"
    and db': "db' = db\<lparr>credential_rows := credential_rows db @
      [\<lparr>cr_user = user, cr_access = tc_encrypt cipher token, cr_refresh = tc_encrypt cipher t,
        cr_scopes = scopes_or_default cred, cr_expiry = aware_expiry expiry\<rparr>]\<rparr>"
    by (auto simp: store_credentials_def Let_def split: option.splits)
  show ?thesis using new by (simp add: stored_row_def db' t)
next
  case (Some row)
  then have row: "row \<in> set (credential_rows db)" "cr_user row = user" by (auto simp: find_Some_iff)
  let ?g = "\<lambda>r. r\<lparr>cr_access := tc_encrypt cipher token,
    cr_refresh := (case offered_refresh cred of None \<Rightarrow> cr_refresh r | Some t \<Rightarrow> tc_encrypt cipher t),
    cr_scopes := scopes_or_default cred, cr_expiry := aware_expiry expiry\<rparr>"
  from Some assms have "db' = update_row user ?g db"
    by (simp add: store_credentials_def Let_def update_row_def)
  then have "stored_row user db' = Some (?g row)" using Some
    by (simp add: stored_row_update) (simp add: stored_row_def)
  moreover have "?g row = \<lparr>cr_user = user, cr_access = tc_encrypt cipher token, cr_refresh = (case offered_refresh cred of None \<Rightarrow> cr_refresh row | Some t \<Rightarrow> tc_encrypt cipher t),
    cr_scopes = scopes_or_default cred, cr_expiry = aware_expiry expiry\<rparr>" using row(2) by (cases row) simp
  ultimately show ?thesis using row by (auto split: option.splits)
qed

text \<open>
  C37. After a sign-in a client of the user is built with what Google gave: while the token has not
  expired, a new factory reads back its access token, expiry and scopes from the tables, without
  asking Google, and the refresh token Google gave, or if it gave none the one stored before.
\<close>

theorem sign_in_then_load:
  assumes "admit_user env cred profile db = Inr (user, db')" and "login_db_ok db"
    and "new_cipher (le_fernet env) (le_encryption_key env) = Inr cipher" and "cipher_law cipher"
    and "credentials_readable cipher db" and "ce_cipher cenv = cipher"
    and "oc_expiry cred = Some e" and "utcoffset e = None" and "valid_datetime e"
    and "\<And>l. oc_expiry l = Some e \<Longrightarrow> \<not> ce_expired cenv l"
  shows "\<exists>refresh l. load_credentials cenv (new_factory user) db' =
      (Inr l, (new_factory user)\<lparr>cf_credentials := Some l\<rparr>, db') \<and>
    l = \<lparr>oc_token = oc_token cred, oc_refresh = Some refresh, oc_expiry = Some e, oc_scopes = Some (scopes_or_default cred)\<rparr> \<and>
    (case offered_refresh cred of
       Some t \<Rightarrow> refresh = t
     | None \<Rightarrow> \<exists>row \<in> set (credential_rows db). cr_user row = user \<and> decrypt_token cipher (cr_refresh row) = Inr refresh)"
proof -
  from assms(1,3,7) obtain email token db1 where token: "oc_token cred = Some token"
    and found: "find_or_add_user email db = (user, db1)"
    and stored: "store_credentials cipher user token e cred db1 = Inr db'"
    by (auto simp: admit_user_def split: json.splits if_splits option.splits prod.splits sum.splits)
  have rows: "credential_rows db1 = credential_rows db" by (rule find_or_add_user_ok(3) [OF assms(2) found])
  from store_credentials_row [OF stored] obtain secret where
    row: "stored_row user db' = Some \<lparr>cr_user = user, cr_access = tc_encrypt cipher token, cr_refresh = secret,
      cr_scopes = scopes_or_default cred, cr_expiry = aware_expiry e\<rparr>"
    and secret: "case offered_refresh cred of Some t \<Rightarrow> secret = tc_encrypt cipher t
      | None \<Rightarrow> \<exists>row \<in> set (credential_rows db). cr_user row = user \<and> secret = cr_refresh row"
    unfolding rows by blast
  have dec: "decrypt_token cipher (tc_encrypt cipher t) = Inr t" for t
    using assms(4) by (simp add: cipher_law_def decrypt_token_def)
  have "\<exists>refresh. decrypt_token cipher secret = Inr refresh"
    using secret dec assms(5) by (auto simp: credentials_readable_def list_all_iff isl_def split: option.splits) (metis sum.exhaust_sel isl_def)
  then obtain refresh where refresh: "decrypt_token cipher secret = Inr refresh" ..
  have "load_credentials cenv (new_factory user) db' = load_stored cenv (new_factory user) db'"
    by (simp add: load_credentials_def new_factory_def)
  also have "\<dots> = (Inr \<lparr>oc_token = Some token, oc_refresh = Some refresh, oc_expiry = Some e,
      oc_scopes = Some (scopes_or_default cred)\<rparr>, (new_factory user)\<lparr>cf_credentials := Some
        \<lparr>oc_token = Some token, oc_refresh = Some refresh, oc_expiry = Some e, oc_scopes = Some (scopes_or_default cred)\<rparr>\<rparr>, db')"
    using row refresh dec assms(6,10) naive_expiry_aware [OF assms(8,9)]
    by (simp add: load_stored_def credentials_of_row_def fresh_credentials_def new_factory_def)
  finally show ?thesis using token secret refresh dec by (auto split: option.splits)
qed

section \<open>Samples\<close>

definition sample_expiry :: datetime where
  "sample_expiry = \<lparr>year = 2024, month = 5, day = 2, hour = 10, minute = 0, second = 0, microsecond = 0, utcoffset = None\<rparr>"

definition sample_credentials :: oauth_credentials where
  "sample_credentials = \<lparr>oc_token = Some ''token'', oc_refresh = Some ''refresh'', oc_expiry = Some sample_expiry, oc_scopes = None\<rparr>"

definition sample_credential_db :: login_db where
  "sample_credential_db = \<lparr>users = [\<lparr>usr_id = 3, usr_email = ''bob@example.com''\<rparr>],
     credential_rows = [\<lparr>cr_user = 3, cr_access = ''dlo'', cr_refresh = ''hserfer'', cr_scopes = google_scopes,
       cr_expiry = aware_expiry sample_expiry\<rparr>], next_user = 4\<rparr>"

definition sample_client_env :: "bool \<Rightarrow> client_env" where
  "sample_client_env expired = \<lparr>ce_cipher = sample_cipher, ce_valid = \<lambda>_. \<not> expired, ce_expired = \<lambda>_. expired,
     ce_refresh = \<lambda>c. Refreshed (c\<lparr>oc_token := Some ''new''\<rparr>)\<rparr>"

lemma sample_credential_db_ok:
  "login_db_ok sample_credential_db" "credentials_readable sample_cipher sample_credential_db" "cipher_law sample_cipher"
  by (simp_all add: login_db_ok_def sample_credential_db_def credentials_readable_def decrypt_token_def
      sample_cipher_def cipher_law_def)

lemma load_credentials_effect_witness:
  "\<exists>cred f' db'. load_credentials (sample_client_env True) (new_factory 3) sample_credential_db = (Inr cred, f', db') \<and>
     oc_token cred = Some ''new'' \<and> map cr_refresh (credential_rows db') = [''hserfer''] \<and>
     (\<exists>row. stored_row 3 db' = Some row \<and> decrypt_token sample_cipher (cr_access row) = Inr ''new'')"
proof -
  note sample = sample_credential_db_def sample_client_env_def sample_cipher_def
  have aware: "naive_expiry (aware_expiry sample_expiry) = Inr sample_expiry"
    by (rule naive_expiry_aware) (simp_all add: sample_expiry_def valid_datetime_def valid_ymd_def days_in_month_def)
  have utc: "utc_expiry sample_expiry = Inr (aware_expiry sample_expiry)"
    by (simp add: utc_expiry_def aware_expiry_def sample_expiry_def)
  obtain r f' db' where run: "load_credentials (sample_client_env True) (new_factory 3) sample_credential_db = (r, f', db')"
    by (rule prod_cases3)
  then have "\<exists>cred. r = Inr cred \<and> oc_token cred = Some ''new''"
    by (auto simp: load_credentials_def new_factory_def load_stored_def stored_row_def credentials_of_row_def aware
        fresh_credentials_def store_refreshed_def decrypt_token_def encrypt_token_def utc sample Let_def)
  then obtain cred where cred: "r = Inr cred" "oc_token cred = Some ''new''" by blast
  from load_credentials_effect [OF run] sample_credential_db_ok cred
  have "map cr_refresh (credential_rows db') = map cr_refresh (credential_rows sample_credential_db)"
    "\<exists>row. stored_row 3 db' = Some row \<and> decrypt_token sample_cipher (cr_access row) = Inr ''new''"
    by (auto simp: sample_client_env_def new_factory_def)
  with run cred show ?thesis by (auto simp: sample_credential_db_def)
qed

lemma sign_in_then_load_witness:
  "\<exists>user db' l f'. admit_user sample_login_env sample_credentials [(''email'', JStr ''bob@example.com'')] sample_credential_db = Inr (user, db') \<and>
     load_credentials (sample_client_env False) (new_factory user) db' = (Inr l, f', db') \<and>
     oc_token l = Some ''token'' \<and> oc_refresh l = Some ''refresh''"
proof -
  have "\<not> isl (admit_user sample_login_env sample_credentials [(''email'', JStr ''bob@example.com'')] sample_credential_db)"
    by code_simp
  then obtain user db' where run: "admit_user sample_login_env sample_credentials [(''email'', JStr ''bob@example.com'')]
      sample_credential_db = Inr (user, db')" by (auto simp: isl_def) (metis sum.exhaust surj_pair)
  have "new_cipher (le_fernet sample_login_env) (le_encryption_key sample_login_env) = Inr sample_cipher"
    by (simp add: new_cipher_def sample_login_env_def)
  moreover have "valid_datetime sample_expiry" "utcoffset sample_expiry = None" "oc_expiry sample_credentials = Some sample_expiry"
    by (simp_all add: sample_expiry_def sample_credentials_def valid_datetime_def valid_ymd_def days_in_month_def)
  moreover have "ce_cipher (sample_client_env False) = sample_cipher" "\<not> ce_expired (sample_client_env False) l" for l
    by (simp_all add: sample_client_env_def)
  ultimately have "\<exists>refresh l. load_credentials (sample_client_env False) (new_factory user) db' =
      (Inr l, (new_factory user)\<lparr>cf_credentials := Some l\<rparr>, db') \<and>
    l = \<lparr>oc_token = oc_token sample_credentials, oc_refresh = Some refresh, oc_expiry = Some sample_expiry,
      oc_scopes = Some (scopes_or_default sample_credentials)\<rparr> \<and>
    (case offered_refresh sample_credentials of
       Some t \<Rightarrow> refresh = t
     | None \<Rightarrow> \<exists>row \<in> set (credential_rows sample_credential_db). cr_user row = user \<and>
         decrypt_token sample_cipher (cr_refresh row) = Inr refresh)"
    using sample_credential_db_ok by (intro sign_in_then_load [OF run]) simp_all
  then show ?thesis using run by (auto simp: sample_credentials_def offered_refresh_def)
qed

end
