(* ===== verification/Sync_Task.thy ===== *)
theory Sync_Task
  imports Sync_Properties Sync_Lock Google_Credentials
begin

text \<open>
  The background tasks of \<open>app/workers/tasks.py\<close>, which compose the lock of a user, the token cipher and
  the sync: \<open>_sync_user\<close>, \<open>_enqueue_connected_users\<close> and the trigger of \<open>app/api/routes/sync.py\<close>.

  One task is one definition here: what the renewals and the other workers do to the lock while it syncs is
  the parameter \<open>meanwhile\<close>, and \<open>Sync_Lock\<close> interleaves them. The session, the indexer and the Google
  clients made with the cipher are the parameter \<open>te_sync\<close>. Redis and the queue of Celery answer.
\<close>

record task_env =
  te_fernet :: "string \<Rightarrow> token_cipher option"
  te_encryption_key :: string
  te_lock_ttl :: int
  te_sync :: "token_cipher \<Rightarrow> sync_env"

record task_state =
  ts_lock :: "redis_lock option"
  ts_requests :: "google_request list"
  ts_db :: sync_db

datatype task_result =
    Task_skipped
  | Task_results "(string \<times> sync_result) list"
  | Task_raised py_error

text \<open>The \<open>finally\<close> block releases the lock whatever happened.\<close>

definition finish_task ::
  "nat \<Rightarrow> int \<Rightarrow> (redis_lock option \<Rightarrow> redis_lock option) \<Rightarrow> google_request list \<times> sync_db \<Rightarrow> redis_lock option \<Rightarrow> task_state" where
  "finish_task v later meanwhile st lock =
     \<lparr>ts_lock = fst (release_lock later v (meanwhile lock)), ts_requests = fst st, ts_db = snd st\<rparr>"

definition sync_user_task ::
  "task_env \<Rightarrow> nat \<Rightarrow> nat \<Rightarrow> int \<Rightarrow> int \<Rightarrow> (redis_lock option \<Rightarrow> redis_lock option) \<Rightarrow> task_state \<Rightarrow>
   (task_state \<times> task_result) option" where
  "sync_user_task env user v now later meanwhile s =
     (case set_nx now (te_lock_ttl env) v (ts_lock s) of
        (lock, False) \<Rightarrow> Some (s\<lparr>ts_lock := lock\<rparr>, Task_skipped)
      | (lock, True) \<Rightarrow>
          (case new_cipher (te_fernet env) (te_encryption_key env) of
             Inl e \<Rightarrow> Some (finish_task v later meanwhile (ts_requests s, ts_db s) lock, Task_raised e)
           | Inr cipher \<Rightarrow>
               (case sync_user (te_sync env cipher) user (ts_requests s, ts_db s) of
                  None \<Rightarrow> None
                | Some (st, Inl e) \<Rightarrow> Some (finish_task v later meanwhile st lock, Task_raised e)
                | Some (st, Inr rs) \<Rightarrow> Some (finish_task v later meanwhile st lock, Task_results rs))))"

text \<open>The queue holds the arguments and the expiry, if any, of the tasks.\<close>

type_synonym task_queue = "(string \<times> int option) list"

definition trigger_sync :: "nat \<Rightarrow> task_queue \<Rightarrow> task_queue" where
  "trigger_sync user queue = queue @ [(uuid_str user, None)]"

definition connected_users :: "login_db \<Rightarrow> nat list" where
  "connected_users db = remdups (map cr_user (credential_rows db))"

definition enqueue_connected_users :: "int \<Rightarrow> login_db \<Rightarrow> task_queue \<Rightarrow> nat \<times> task_queue" where
  "enqueue_connected_users ttl db queue =
     (length (connected_users db), queue @ map (\<lambda>u. (uuid_str u, Some ttl)) (connected_users db))"

lemma enqueued_once: "distinct (connected_users db) \<and> set (connected_users db) = cr_user ` set (credential_rows db)"
  by (simp add: connected_users_def)

text \<open>Where the keys of the rows are unique, \<open>distinct\<close> changes nothing: one task per row.\<close>

lemma one_task_per_row:
  "login_db_ok db \<Longrightarrow> snd (enqueue_connected_users ttl db queue) =
    queue @ map (\<lambda>r. (uuid_str (cr_user r), Some ttl)) (credential_rows db)"
  by (simp add: enqueue_connected_users_def connected_users_def login_db_ok_def distinct_remdups_id)

section \<open>A task as a whole\<close>

lemma released_not_mine: "live later (fst (release_lock later v l)) = Some k \<Longrightarrow> lock_value k \<noteq> v"
  by (auto simp: release_lock_def live_def split: option.splits if_splits)

lemma set_nx_cases:
  obtains (taken) k where "live now l = Some k" "set_nx now ttl v l = (Some k, False)"
  | (free) "live now l = None" "set_nx now ttl v l = (Some \<lparr>lock_value = v, lock_expires = now + ttl\<rparr>, True)"
  by (cases "live now l") (auto simp: set_nx_def)

text \<open>
  C28. A sync task is skipped exactly when another one holds the lock of the user, and then sends no
  request and changes nothing. Otherwise, whatever fails, its lock is not left behind, and unless the
  cipher cannot be made it answers for the three services. In any case the index stays consistent and
  no item, chunk or state of another user changes.
\<close>

theorem sync_task_isolated:
  assumes "sync_user_task env user v now later meanwhile s = Some (s', r)" and "index_ok (sd_index (ts_db s))"
    and "other \<noteq> user"
  shows "(r = Task_skipped \<longleftrightarrow> live now (ts_lock s) \<noteq> None) \<and>
    (if r = Task_skipped
     then ts_requests s' = ts_requests s \<and> ts_db s' = ts_db s \<and> live now (ts_lock s') = live now (ts_lock s)
     else (\<forall>k. live later (ts_lock s') = Some k \<longrightarrow> lock_value k \<noteq> v) \<and>
       ((\<exists>rs. r = Task_results rs \<and> map fst rs = [''gmail'', ''google_calendar'', ''google_drive'']) \<or>
        (\<exists>e. new_cipher (te_fernet env) (te_encryption_key env) = Inl e \<and> r = Task_raised e \<and> ts_db s' = ts_db s))) \<and>
    index_ok (sd_index (ts_db s')) \<and>
    own_items other (sd_index (ts_db s')) = own_items other (sd_index (ts_db s)) \<and>
    own_chunks other (sd_index (ts_db s')) = own_chunks other (sd_index (ts_db s)) \<and>
    filter (\<lambda>r. ss_user r \<noteq> user) (sd_states (ts_db s')) = filter (\<lambda>r. ss_user r \<noteq> user) (sd_states (ts_db s))"
proof (cases rule: set_nx_cases [where now = now and l = "ts_lock s" and ttl = "te_lock_ttl env" and v = v])
  case (taken k)
  with assms show ?thesis by (auto simp: sync_user_task_def live_def split: option.splits if_splits)
next
  case free
  let ?lock = "Some \<lparr>lock_value = v, lock_expires = now + te_lock_ttl env\<rparr>"
  have lock: "live later (ts_lock (finish_task v later meanwhile st l)) = Some k \<Longrightarrow> lock_value k \<noteq> v" for st l k
    by (simp add: finish_task_def released_not_mine)
  show ?thesis
  proof (cases "new_cipher (te_fernet env) (te_encryption_key env)")
    case (Inl e)
    with free assms(1) have "s' = finish_task v later meanwhile (ts_requests s, ts_db s) ?lock" "r = Task_raised e"
      by (simp_all add: sync_user_task_def)
    moreover from this have "ts_db s' = ts_db s" by (simp add: finish_task_def)
    ultimately show ?thesis using free assms(2) lock Inl by auto
  next
    case (Inr cipher)
    with free assms(1) obtain hist db q
      where run: "sync_user (te_sync env cipher) user (ts_requests s, ts_db s) = Some ((hist, db), q)"
      and s': "s' = finish_task v later meanwhile (hist, db) ?lock"
      and r: "r = (case q of Inl e \<Rightarrow> Task_raised e | Inr rs \<Rightarrow> Task_results rs)"
      by (auto simp: sync_user_task_def split: option.splits sum.splits)
    have db: "ts_db s' = db" by (simp add: s' finish_task_def)
    from sync_user_isolated [OF assms(2) run assms(3)] r free lock [of "(hist, db)" ?lock] show ?thesis
      unfolding db s' [symmetric] by auto
  qed
qed

section \<open>Samples\<close>

definition sample_task_env :: task_env where
  "sample_task_env = \<lparr>te_fernet = \<lambda>_. Some sample_cipher, te_encryption_key = ''key'', te_lock_ttl = 900,
     te_sync = \<lambda>_. failing_sync_env\<rparr>"

definition sample_task_state :: task_state where
  "sample_task_state = \<lparr>ts_lock = None, ts_requests = [], ts_db = sample_sync_db\<rparr>"

lemma sync_task_isolated_witness:
  "\<exists>s' rs. sync_user_task sample_task_env 7 1 0 60 (\<lambda>l. l) sample_task_state = Some (s', Task_results rs) \<and>
     map fst rs = [''gmail'', ''google_calendar'', ''google_drive''] \<and>
     filter (\<lambda>r. ss_user r \<noteq> 7) (sd_states (ts_db s')) = [(new_sync_row 8 ''gmail'')\<lparr>ss_status := ''completed''\<rparr>]"
proof -
  have cipher: "new_cipher (te_fernet sample_task_env) (te_encryption_key sample_task_env) = Inr sample_cipher"
    by (simp add: new_cipher_def sample_task_env_def)
  have free: "live 0 (ts_lock sample_task_state) = None" by (simp add: live_def sample_task_state_def)
  from failing_sync_user_returns obtain st q where "sync_user failing_sync_env 7 ([], sample_sync_db) = Some (st, q)" by blast
  with cipher free obtain s' r where run: "sync_user_task sample_task_env 7 1 0 60 (\<lambda>l. l) sample_task_state = Some (s', r)"
    by (auto simp: sync_user_task_def set_nx_def sample_task_env_def sample_task_state_def split: sum.splits) (cases q, auto)
  have "index_ok (sd_index (ts_db sample_task_state))"
    by (simp add: sample_task_state_def sample_sync_db_def empty_index_ok)
  from sync_task_isolated [OF run this, of 8] run free cipher
  show ?thesis by (auto simp: sample_task_state_def sample_sync_db_def new_sync_row_def)
qed

end
