(* ===== verification/Readiness.thy ===== *)
theory Readiness
  imports Redis_Cache
begin

text \<open>
  The probes of \<open>app/api/routes/health.py\<close> and \<open>app/api/routes/readiness.py\<close>. The two checks run
  side by side and do not depend on each other; what PostgreSQL and Redis answer within the time
  limit is a parameter, \<open>Inl\<close> an exception or the time limit.
\<close>

definition health :: dict where
  "health = [(''status'', JStr ''ok'')]"

definition check_postgresql :: "'e + 'a \<Rightarrow> bool" where
  "check_postgresql answer \<longleftrightarrow> \<not> isl answer"

definition ping_cache :: "redis_cache \<Rightarrow> py_error + bool \<Rightarrow> py_error + bool" where
  "ping_cache c answer = (case require_client c of Inl e \<Rightarrow> Inl e | Inr _ \<Rightarrow> answer)"

definition check_redis :: "redis_cache \<Rightarrow> py_error + bool \<Rightarrow> bool" where
  "check_redis c answer = (case ping_cache c answer of Inl _ \<Rightarrow> False | Inr b \<Rightarrow> b)"

definition availability :: "bool \<Rightarrow> json" where
  "availability ok = JStr (if ok then ''ok'' else ''unavailable'')"

definition readiness :: "'e + 'a \<Rightarrow> redis_cache \<Rightarrow> py_error + bool \<Rightarrow> nat \<times> dict" where
  "readiness postgresql c redis =
     (let p = check_postgresql postgresql; r = check_redis c redis;
          services = JObj [(''postgresql'', availability p), (''redis'', availability r)] in
      if p \<and> r then (200, [(''status'', JStr ''ready''), (''services'', services)])
      else (503, [(''status'', JStr ''not_ready''), (''services'', services)]))"

lemma ready_iff:
  "fst (readiness postgresql c redis) = 200 \<longleftrightarrow> \<not> isl postgresql \<and> rc_started c \<and> redis = Inr True"
  by (auto simp: readiness_def Let_def check_postgresql_def check_redis_def ping_cache_def require_client_def split: sum.splits)

end
