(* ===== verification/Model_Loading.thy ===== *)
theory Model_Loading
  imports Main
begin

text \<open>
  \<open>_get_model\<close> of \<open>app/retrieval/embeddings.py\<close>: the model of the provider is loaded by the first
  thread that needs it, with a check before and after the lock is taken. The threads of
  \<open>asyncio.to_thread\<close> interleave; loading may fail, and the next thread then tries again. A loaded model
  is a number. \<open>warmup\<close> is a call whose result is dropped.
\<close>

datatype load_phase = Arriving | At_lock | Loading | Returned nat | Failed_to_load

record provider_state =
  pv_model :: "nat option"
  pv_lock :: "nat option"
  pv_loads :: nat
  pv_phase :: "nat \<Rightarrow> load_phase"

definition initial_provider :: provider_state where
  "initial_provider = \<lparr>pv_model = None, pv_lock = None, pv_loads = 0, pv_phase = \<lambda>_. Arriving\<rparr>"

definition thread_goes :: "nat \<Rightarrow> load_phase \<Rightarrow> provider_state \<Rightarrow> provider_state" where
  "thread_goes t p s = s\<lparr>pv_phase := (pv_phase s)(t := p)\<rparr>"

definition first_check :: "nat \<Rightarrow> provider_state \<Rightarrow> provider_state" where
  "first_check t s = thread_goes t (case pv_model s of None \<Rightarrow> At_lock | Some m \<Rightarrow> Returned m) s"

text \<open>The lock is taken and, if the model is there now, released at once.\<close>

definition second_check :: "nat \<Rightarrow> provider_state \<Rightarrow> provider_state" where
  "second_check t s =
     (case pv_model s of
        None \<Rightarrow> thread_goes t Loading (s\<lparr>pv_lock := Some t\<rparr>)
      | Some m \<Rightarrow> thread_goes t (Returned m) s)"

definition model_loaded :: "nat \<Rightarrow> provider_state \<Rightarrow> provider_state" where
  "model_loaded t s =
     thread_goes t (Returned (pv_loads s))
       (s\<lparr>pv_model := Some (pv_loads s), pv_loads := Suc (pv_loads s), pv_lock := None\<rparr>)"

definition loading_fails :: "nat \<Rightarrow> provider_state \<Rightarrow> provider_state" where
  "loading_fails t s = thread_goes t Failed_to_load (s\<lparr>pv_lock := None\<rparr>)"

inductive load_step :: "provider_state \<Rightarrow> provider_state \<Rightarrow> bool" where
  arrive: "pv_phase s t = Arriving \<Longrightarrow> load_step s (first_check t s)"
| enter: "pv_phase s t = At_lock \<Longrightarrow> pv_lock s = None \<Longrightarrow> load_step s (second_check t s)"
| load: "pv_phase s t = Loading \<Longrightarrow> load_step s (model_loaded t s)"
| fails: "pv_phase s t = Loading \<Longrightarrow> load_step s (loading_fails t s)"

definition provider_ok :: "provider_state \<Rightarrow> bool" where
  "provider_ok s \<longleftrightarrow>
     (\<forall>t. pv_phase s t = Loading \<longrightarrow> pv_lock s = Some t \<and> pv_model s = None) \<and>
     (\<forall>t m. pv_phase s t = Returned m \<longrightarrow> pv_model s = Some m) \<and>
     pv_loads s = (case pv_model s of None \<Rightarrow> 0 | Some _ \<Rightarrow> 1)"

lemma load_step_ok: "load_step s s' \<Longrightarrow> provider_ok s \<Longrightarrow> provider_ok s'"
  by (induction rule: load_step.induct)
    (auto simp: provider_ok_def first_check_def second_check_def model_loaded_def loading_fails_def thread_goes_def
      split: option.splits if_splits, (metis option.inject)+)

text \<open>In every interleaving the model is loaded at most once, and every thread that returns has that one.\<close>

lemma model_loaded_once:
  assumes "load_step\<^sup>*\<^sup>* initial_provider s"
  shows "pv_loads s \<le> 1 \<and> (\<forall>t u m n. pv_phase s t = Returned m \<longrightarrow> pv_phase s u = Returned n \<longrightarrow> m = n)"
proof -
  from assms have "provider_ok s"
  proof (induction rule: rtranclp_induct)
    case base
    show ?case by (simp add: provider_ok_def initial_provider_def)
  next
    case (step s s')
    then show ?case using load_step_ok by blast
  qed
  moreover from this have "pv_phase s t = Returned m \<Longrightarrow> pv_phase s u = Returned n \<Longrightarrow> m = n" for t u m n
    unfolding provider_ok_def by (metis option.inject)
  ultimately show ?thesis by (auto simp: provider_ok_def split: option.splits)
qed

end
