(* ===== verification/Embedding_Cache.thy ===== *)
theory Embedding_Cache
  imports Search Database Redis_Cache
begin

text \<open>
  The embedding of a query in \<open>app/retrieval/search.py\<close>: an ordered dictionary in the process (the
  least recently used first), then Redis, then the model, with a lock per key (a \<open>flight\<close>) so
  that one task computes while the others wait.

  Tasks run on one event loop: the code between two awaits is one step, and the steps of the tasks
  interleave freely. A task waits at the two reads of Redis, at the lock, at the thread of the model
  and at the write to Redis; at each of them it may also fail or be cancelled. Between steps time
  passes and other workers may change Redis.

  Parameters: the model, its name, SHA-256 as a hexadecimal string, \<open>float\<close> of a string, and the
  request (user and query) of each task.
\<close>

section \<open>Keys and entries\<close>

record cache_env =
  cv_embedder :: embedder
  cv_model_name :: string
  cv_digest :: "string \<Rightarrow> string"
  cv_float :: "string \<Rightarrow> py_error + rat"
  cv_redis :: "redis_cache option"
  cv_ttl :: int

definition normalized_query :: "string \<Rightarrow> string" where
  "normalized_query query = normalize_space (py_casefold query)"

definition embedding_key :: "cache_env \<Rightarrow> nat \<Rightarrow> string \<Rightarrow> string" where
  "embedding_key env user query =
     ''retrieval:embedding:'' @ uuid_str user @ '':'' @ take 16 (cv_digest env (cv_model_name env)) @ '':'' @
     string_of_nat (emb_dimensions (cv_embedder env)) @ '':'' @ cv_digest env (normalized_query query)"

type_synonym embedding_entries = "(string \<times> rat list) list"

definition max_process_embeddings :: nat where
  "max_process_embeddings = 128"

definition process_embedding :: "string \<Rightarrow> embedding_entries \<Rightarrow> rat list option \<times> embedding_entries" where
  "process_embedding key entries =
     (case dict_get entries key of
        None \<Rightarrow> (None, entries)
      | Some v \<Rightarrow> (Some v, dict_pop key entries @ [(key, v)]))"

fun evict :: "embedding_entries \<Rightarrow> embedding_entries" where
  "evict [] = []"
| "evict (e # entries) = (if max_process_embeddings < length (e # entries) then evict entries else e # entries)"

definition remember_embedding :: "string \<Rightarrow> rat list \<Rightarrow> embedding_entries \<Rightarrow> embedding_entries" where
  "remember_embedding key v entries = evict (dict_pop key entries @ [(key, v)])"

definition float_of_json :: "cache_env \<Rightarrow> json \<Rightarrow> py_error + rat" where
  "float_of_json env v =
     (case v of
        JInt i \<Rightarrow> Inr (of_int i)
      | JFloat r \<Rightarrow> Inr r
      | JBool b \<Rightarrow> Inr (if b then 1 else 0)
      | JStr s \<Rightarrow> cv_float env s
      | _ \<Rightarrow> Inl TypeError)"

fun floats_of_json :: "cache_env \<Rightarrow> json list \<Rightarrow> py_error + rat list" where
  "floats_of_json env [] = Inr []"
| "floats_of_json env (v # vs) =
     (case float_of_json env v of
        Inl e \<Rightarrow> Inl e
      | Inr x \<Rightarrow> (case floats_of_json env vs of Inl e \<Rightarrow> Inl e | Inr xs \<Rightarrow> Inr (x # xs)))"

text \<open>What is read under a key counts if it is a list of the right length.\<close>

definition redis_embedding :: "cache_env \<Rightarrow> redis_cache \<Rightarrow> int \<Rightarrow> redis_store \<Rightarrow> string \<Rightarrow> py_error + rat list option" where
  "redis_embedding env c now store key =
     (case get_json c now store key of
        Inl e \<Rightarrow> Inl e
      | Inr (JList vs) \<Rightarrow>
          if length vs = emb_dimensions (cv_embedder env)
          then (case floats_of_json env vs of Inl e \<Rightarrow> Inl e | Inr xs \<Rightarrow> Inr (Some xs))
          else Inr None
      | Inr _ \<Rightarrow> Inr None)"

section \<open>Tasks\<close>

text \<open>The number is that of the lock the task waits for or holds.\<close>

datatype query_phase =
    Waiting_to_start
  | Reading
  | Waiting nat
  | Rereading nat
  | Computing nat
  | Writing nat "rat list"
  | Answered "rat list" bool
  | Raised py_error

record embedding_state =
  es_now :: int
  es_redis :: redis_store
  es_process :: embedding_entries
  es_flights :: "(string \<times> nat) list"
  es_next_lock :: nat
  es_holder :: "nat \<Rightarrow> nat option"
  es_phase :: "nat \<Rightarrow> query_phase"
  es_computed :: "string list"

text \<open>\<open>es_computed\<close> lists the keys the model was called for; the code does not keep it.\<close>

definition set_phase :: "nat \<Rightarrow> query_phase \<Rightarrow> embedding_state \<Rightarrow> embedding_state" where
  "set_phase t p s = s\<lparr>es_phase := (es_phase s)(t := p)\<rparr>"

text \<open>\<open>_embedding_flight\<close>: the lock of the key, a new one if there is none.\<close>

definition join_flight :: "nat \<Rightarrow> string \<Rightarrow> embedding_state \<Rightarrow> embedding_state" where
  "join_flight t key s =
     (case dict_get (es_flights s) key of
        Some l \<Rightarrow> set_phase t (Waiting l) s
      | None \<Rightarrow>
          set_phase t (Waiting (es_next_lock s))
            (s\<lparr>es_flights := dict_set key (es_next_lock s) (es_flights s), es_next_lock := Suc (es_next_lock s)\<rparr>))"

text \<open>The \<open>finally\<close> block.\<close>

definition leave_flight :: "string \<Rightarrow> nat \<Rightarrow> embedding_state \<Rightarrow> embedding_state" where
  "leave_flight key l s =
     (if dict_get (es_flights s) key = Some l then s\<lparr>es_flights := dict_pop key (es_flights s)\<rparr> else s)"

definition release_flight :: "nat \<Rightarrow> string \<Rightarrow> nat \<Rightarrow> query_phase \<Rightarrow> embedding_state \<Rightarrow> embedding_state" where
  "release_flight t key l p s =
     leave_flight key l (set_phase t p (s\<lparr>es_holder := (es_holder s)(l := None)\<rparr>))"

definition remember :: "string \<Rightarrow> rat list \<Rightarrow> embedding_state \<Rightarrow> embedding_state" where
  "remember key v s = s\<lparr>es_process := remember_embedding key v (es_process s)\<rparr>"

definition call_model :: "nat \<Rightarrow> string \<Rightarrow> nat \<Rightarrow> embedding_state \<Rightarrow> embedding_state" where
  "call_model t key l s = set_phase t (Computing l) (s\<lparr>es_computed := es_computed s @ [key]\<rparr>)"

definition start_query :: "cache_env \<Rightarrow> nat \<Rightarrow> string \<Rightarrow> embedding_state \<Rightarrow> embedding_state" where
  "start_query env t key s =
     (case process_embedding key (es_process s) of
        (Some v, entries) \<Rightarrow> set_phase t (Answered v True) (s\<lparr>es_process := entries\<rparr>)
      | (None, _) \<Rightarrow> if cv_redis env = None then join_flight t key s else set_phase t Reading s)"

definition read_redis :: "cache_env \<Rightarrow> redis_cache \<Rightarrow> nat \<Rightarrow> string \<Rightarrow> embedding_state \<Rightarrow> embedding_state" where
  "read_redis env c t key s =
     (case redis_embedding env c (es_now s) (es_redis s) key of
        Inl e \<Rightarrow> set_phase t (Raised e) s
      | Inr (Some v) \<Rightarrow> set_phase t (Answered v True) (remember key v s)
      | Inr None \<Rightarrow> join_flight t key s)"

definition acquire_flight :: "cache_env \<Rightarrow> nat \<Rightarrow> string \<Rightarrow> nat \<Rightarrow> embedding_state \<Rightarrow> embedding_state" where
  "acquire_flight env t key l s =
     (case process_embedding key (es_process s) of
        (Some v, entries) \<Rightarrow> release_flight t key l (Answered v True) (s\<lparr>es_process := entries\<rparr>)
      | (None, _) \<Rightarrow>
          (let s' = s\<lparr>es_holder := (es_holder s)(l := Some t)\<rparr> in
           if cv_redis env = None then call_model t key l s' else set_phase t (Rereading l) s'))"

definition reread_redis :: "cache_env \<Rightarrow> redis_cache \<Rightarrow> nat \<Rightarrow> string \<Rightarrow> nat \<Rightarrow> embedding_state \<Rightarrow> embedding_state" where
  "reread_redis env c t key l s =
     (case redis_embedding env c (es_now s) (es_redis s) key of
        Inl e \<Rightarrow> release_flight t key l (Raised e) s
      | Inr (Some v) \<Rightarrow> release_flight t key l (Answered v True) (remember key v s)
      | Inr None \<Rightarrow> call_model t key l s)"

definition model_returns :: "cache_env \<Rightarrow> nat \<Rightarrow> string \<Rightarrow> string \<Rightarrow> nat \<Rightarrow> embedding_state \<Rightarrow> embedding_state" where
  "model_returns env t key query l s =
     (case embed_text (cv_embedder env) (normalized_query query) of
        Inl e \<Rightarrow> release_flight t key l (Raised e) s
      | Inr v \<Rightarrow>
          if cv_redis env = None then release_flight t key l (Answered v False) (remember key v s)
          else set_phase t (Writing l v) (remember key v s))"

definition write_redis :: "cache_env \<Rightarrow> redis_cache \<Rightarrow> nat \<Rightarrow> string \<Rightarrow> nat \<Rightarrow> rat list \<Rightarrow> embedding_state \<Rightarrow> embedding_state" where
  "write_redis env c t key l v s =
     (case set_json c (es_now s) key (JList (map JFloat v)) (cv_ttl env) (es_redis s) of
        Inl e \<Rightarrow> release_flight t key l (Raised e) s
      | Inr store \<Rightarrow> release_flight t key l (Answered v False) (s\<lparr>es_redis := store\<rparr>))"

text \<open>An exception at an await; a task that waits for the lock does not hold it.\<close>

definition fail_query :: "nat \<Rightarrow> string \<Rightarrow> py_error \<Rightarrow> embedding_state \<Rightarrow> embedding_state" where
  "fail_query t key e s =
     (case es_phase s t of
        Reading \<Rightarrow> set_phase t (Raised e) s
      | Waiting l \<Rightarrow> leave_flight key l (set_phase t (Raised e) s)
      | Rereading l \<Rightarrow> release_flight t key l (Raised e) s
      | Computing l \<Rightarrow> release_flight t key l (Raised e) s
      | Writing l _ \<Rightarrow> release_flight t key l (Raised e) s
      | _ \<Rightarrow> s)"

section \<open>Interleaving\<close>

definition request_key :: "cache_env \<Rightarrow> (nat \<Rightarrow> nat \<times> string) \<Rightarrow> nat \<Rightarrow> string" where
  "request_key env request t = embedding_key env (fst (request t)) (snd (request t))"

definition embedding_of :: "cache_env \<Rightarrow> (nat \<Rightarrow> nat \<times> string) \<Rightarrow> nat \<Rightarrow> py_error + rat list" where
  "embedding_of env request t = embed_text (cv_embedder env) (normalized_query (snd (request t)))"

text \<open>Other workers run the same code: what is read under the key of a task is its embedding.\<close>

definition redis_sound :: "cache_env \<Rightarrow> (nat \<Rightarrow> nat \<times> string) \<Rightarrow> redis_store \<Rightarrow> bool" where
  "redis_sound env request store \<longleftrightarrow>
     (\<forall>c t now v. cv_redis env = Some c \<longrightarrow> redis_embedding env c now store (request_key env request t) = Inr (Some v) \<longrightarrow>
        embedding_of env request t = Inr v)"

inductive cache_step :: "cache_env \<Rightarrow> (nat \<Rightarrow> nat \<times> string) \<Rightarrow> embedding_state \<Rightarrow> embedding_state \<Rightarrow> bool"
  for env request where
  start: "es_phase s t = Waiting_to_start \<Longrightarrow>
    cache_step env request s (start_query env t (request_key env request t) s)"
| reads: "es_phase s t = Reading \<Longrightarrow> cv_redis env = Some c \<Longrightarrow>
    cache_step env request s (read_redis env c t (request_key env request t) s)"
| acquire: "es_phase s t = Waiting l \<Longrightarrow> es_holder s l = None \<Longrightarrow>
    cache_step env request s (acquire_flight env t (request_key env request t) l s)"
| rereads: "es_phase s t = Rereading l \<Longrightarrow> cv_redis env = Some c \<Longrightarrow>
    cache_step env request s (reread_redis env c t (request_key env request t) l s)"
| computed: "es_phase s t = Computing l \<Longrightarrow>
    cache_step env request s (model_returns env t (request_key env request t) (snd (request t)) l s)"
| writes: "es_phase s t = Writing l v \<Longrightarrow> cv_redis env = Some c \<Longrightarrow>
    cache_step env request s (write_redis env c t (request_key env request t) l v s)"
| fails: "cache_step env request s (fail_query t (request_key env request t) e s)"
| others: "redis_sound env request store \<Longrightarrow> es_now s \<le> now \<Longrightarrow>
    cache_step env request s (s\<lparr>es_now := now, es_redis := store\<rparr>)"

definition initial_embedding_state :: "int \<Rightarrow> redis_store \<Rightarrow> embedding_state" where
  "initial_embedding_state now store = \<lparr>es_now = now, es_redis = store, es_process = [], es_flights = [],
     es_next_lock = 0, es_holder = \<lambda>_. None, es_phase = \<lambda>_. Waiting_to_start, es_computed = []\<rparr>"

definition cache_reachable :: "cache_env \<Rightarrow> (nat \<Rightarrow> nat \<times> string) \<Rightarrow> embedding_state \<Rightarrow> bool" where
  "cache_reachable env request s \<longleftrightarrow>
     (\<exists>now store. redis_sound env request store \<and>
        (cache_step env request)\<^sup>*\<^sup>* (initial_embedding_state now store) s)"

section \<open>The dictionary of the process\<close>

lemma evict_drop: "evict entries = drop (length entries - max_process_embeddings) entries"
proof (induction entries)
  case (Cons e entries)
  then show ?case
    by (cases "length (e # entries) - max_process_embeddings")
      (auto simp: Suc_diff_le)
qed simp

lemma evict_props:
  "length (evict entries) \<le> max_process_embeddings" "set (evict entries) \<subseteq> set entries"
  "distinct (map fst entries) \<Longrightarrow> distinct (map fst (evict entries))"
  "length entries \<le> max_process_embeddings \<Longrightarrow> evict entries = entries"
  by (simp_all add: evict_drop set_drop_subset distinct_drop flip: drop_map)

lemma set_pop: "set (dict_pop key entries) = {e \<in> set entries. fst e \<noteq> key}"
  by (auto simp: dict_pop_def)

lemma distinct_keys_moved: "distinct_keys entries \<Longrightarrow> distinct_keys (dict_pop key entries @ [(key, v)])"
  by (auto simp: distinct_keys_pop set_pop)

lemma touched_entries:
  assumes "process_embedding key entries = (Some v, entries')" and "distinct_keys entries"
  shows "set entries' = set entries" "length entries' = length entries" "distinct_keys entries'" "(key, v) \<in> set entries"
proof -
  from assms(1) have hit: "dict_get entries key = Some v" and entries': "entries' = dict_pop key entries @ [(key, v)]"
    by (auto simp: process_embedding_def split: option.splits)
  show member: "(key, v) \<in> set entries" using hit by (rule map_of_SomeD)
  have same: "e = (key, v)" if "e \<in> set entries" "fst e = key" for e
    using that eq_key_imp_eq_value [OF assms(2) member, of "snd e"] by (cases e rule: prod.exhaust) simp
  have "set entries' = insert (key, v) {e \<in> set entries. fst e \<noteq> key}" by (simp add: entries' set_pop)
  also have "\<dots> = set entries" using member same by blast
  finally show set: "set entries' = set entries" .
  show moved: "distinct_keys entries'" unfolding entries' by (rule distinct_keys_moved [OF assms(2)])
  have "length (map fst entries') = length (map fst entries)"
    using distinct_card [OF moved] distinct_card [OF assms(2)] set by simp
  then show "length entries' = length entries" by simp
qed

lemma remembered_entries:
  assumes "distinct_keys entries"
  shows "distinct_keys (remember_embedding key v entries)"
    and "length (remember_embedding key v entries) \<le> max_process_embeddings"
    and "set (remember_embedding key v entries) \<subseteq> insert (key, v) (set entries)"
  using evict_props(1-3) [of "dict_pop key entries @ [(key, v)]"] distinct_keys_moved [OF assms, of key v]
  by (auto simp: remember_embedding_def set_pop)

section \<open>Answers\<close>

definition phase_ok :: "cache_env \<Rightarrow> (nat \<Rightarrow> nat \<times> string) \<Rightarrow> nat \<Rightarrow> query_phase \<Rightarrow> bool" where
  "phase_ok env request t p \<longleftrightarrow>
     (case p of
        Answered v _ \<Rightarrow> embedding_of env request t = Inr v
      | Writing _ v \<Rightarrow> embedding_of env request t = Inr v
      | _ \<Rightarrow> True)"

definition right_entry :: "cache_env \<Rightarrow> (nat \<Rightarrow> nat \<times> string) \<Rightarrow> string \<times> rat list \<Rightarrow> bool" where
  "right_entry env request e \<longleftrightarrow>
     (\<forall>t. request_key env request t = fst e \<longrightarrow> embedding_of env request t = Inr (snd e))"

definition cache_ok :: "cache_env \<Rightarrow> (nat \<Rightarrow> nat \<times> string) \<Rightarrow> embedding_state \<Rightarrow> bool" where
  "cache_ok env request s \<longleftrightarrow>
     distinct_keys (es_process s) \<and> length (es_process s) \<le> max_process_embeddings \<and>
     (\<forall>e \<in> set (es_process s). right_entry env request e) \<and> redis_sound env request (es_redis s) \<and>
     (\<forall>t. phase_ok env request t (es_phase s t))"

named_theorems cache_intros

lemma phase_ok_simps [simp]:
  "phase_ok env request t Waiting_to_start" "phase_ok env request t Reading" "phase_ok env request t (Waiting l)"
  "phase_ok env request t (Rereading l)" "phase_ok env request t (Computing l)" "phase_ok env request t (Raised e)"
  "phase_ok env request t (Answered v hit) \<longleftrightarrow> embedding_of env request t = Inr v"
  "phase_ok env request t (Writing l v) \<longleftrightarrow> embedding_of env request t = Inr v"
  by (simp_all add: phase_ok_def)

lemma set_phase_ok [cache_intros]:
  "cache_ok env request s \<Longrightarrow> phase_ok env request t p \<Longrightarrow> cache_ok env request (set_phase t p s)"
  by (simp add: cache_ok_def set_phase_def)

lemma unseen_fields_ok [cache_intros]:
  "cache_ok env request s \<Longrightarrow> cache_ok env request (s\<lparr>es_flights := f\<rparr>)"
  "cache_ok env request s \<Longrightarrow> cache_ok env request (s\<lparr>es_next_lock := n\<rparr>)"
  "cache_ok env request s \<Longrightarrow> cache_ok env request (s\<lparr>es_holder := h\<rparr>)"
  "cache_ok env request s \<Longrightarrow> cache_ok env request (s\<lparr>es_computed := c\<rparr>)"
  by (simp_all add: cache_ok_def)

lemma flight_ok [cache_intros]:
  "cache_ok env request s \<Longrightarrow> cache_ok env request (join_flight t key s)"
  "cache_ok env request s \<Longrightarrow> cache_ok env request (leave_flight key l s)"
  "cache_ok env request s \<Longrightarrow> cache_ok env request (call_model t key l s)"
  by (auto simp: join_flight_def leave_flight_def call_model_def intro!: cache_intros split: option.splits)

lemma release_flight_ok [cache_intros]:
  "cache_ok env request s \<Longrightarrow> phase_ok env request t p \<Longrightarrow> cache_ok env request (release_flight t key l p s)"
  unfolding release_flight_def by (intro cache_intros)

lemma remember_ok [cache_intros]:
  assumes "cache_ok env request s" and "right_entry env request (key, v)"
  shows "cache_ok env request (remember key v s)"
  using assms remembered_entries [of "es_process s" key v] by (auto simp: cache_ok_def remember_def)

lemma hit_ok:
  assumes "cache_ok env request s" and "process_embedding (request_key env request t) (es_process s) = (Some v, entries)"
  shows "cache_ok env request (s\<lparr>es_process := entries\<rparr>)" and "embedding_of env request t = Inr v"
  using assms touched_entries [OF assms(2)] by (force simp: cache_ok_def right_entry_def)+

lemma redis_ok [cache_intros]:
  "cache_ok env request s \<Longrightarrow> redis_sound env request store \<Longrightarrow> cache_ok env request (s\<lparr>es_redis := store\<rparr>)"
  by (simp add: cache_ok_def)

text \<open>Queries with the same key have the same embedding, if SHA-256 does not collide on them.\<close>

definition collision_free :: "cache_env \<Rightarrow> (nat \<Rightarrow> nat \<times> string) \<Rightarrow> bool" where
  "collision_free env request \<longleftrightarrow> inj_on (cv_digest env) (range (\<lambda>t. normalized_query (snd (request t))))"

lemma same_key_same_embedding:
  assumes "collision_free env request" and "request_key env request t = request_key env request u"
  shows "embedding_of env request t = embedding_of env request u"
proof -
  from assms(2) have "cv_digest env (normalized_query (snd (request t))) = cv_digest env (normalized_query (snd (request u)))"
    by (simp add: request_key_def embedding_key_def length_uuid_str)
  with assms(1) have "normalized_query (snd (request t)) = normalized_query (snd (request u))"
    unfolding collision_free_def by (rule inj_onD) simp_all
  then show ?thesis by (simp add: embedding_of_def)
qed

lemma right_entryI:
  "collision_free env request \<Longrightarrow> embedding_of env request t = Inr v \<Longrightarrow>
    right_entry env request (request_key env request t, v)"
  unfolding right_entry_def by (metis same_key_same_embedding fst_conv snd_conv)

lemma floats_written: "floats_of_json env (map JFloat v) = Inr v"
  by (induction v) (simp_all add: float_of_json_def)

lemma redis_sound_write:
  assumes "redis_sound env request store" and "collision_free env request" and "cv_redis env = Some c"
    and "set_json c now (request_key env request t) (JList (map JFloat v)) ttl store = Inr store'"
    and "embedding_of env request t = Inr v"
  shows "redis_sound env request store'"
  unfolding redis_sound_def
proof (intro allI impI)
  fix c' u later w
  assume c': "cv_redis env = Some c'" and got: "redis_embedding env c' later store' (request_key env request u) = Inr (Some w)"
  from c' assms(3) have c: "c' = c" by simp
  note set = get_after_set [OF assms(4)]
  show "embedding_of env request u = Inr w"
  proof (cases "request_key env request u = request_key env request t")
    case True
    with got have "w = v"
      by (auto simp: redis_embedding_def c set(1) floats_written split: if_splits)
    with same_key_same_embedding [OF assms(2) True] assms(5) show ?thesis by simp
  next
    case False
    with got have "redis_embedding env c later store (request_key env request u) = Inr (Some w)"
      by (simp add: redis_embedding_def c set(2))
    with assms(1,3) show ?thesis by (simp add: redis_sound_def)
  qed
qed

lemma cache_step_ok:
  assumes "cache_step env request s s'" and "collision_free env request" and ok: "cache_ok env request s"
  shows "cache_ok env request s'"
  using assms(1)
proof (cases rule: cache_step.cases)
  case (start t)
  then show ?thesis using hit_ok [OF ok] ok
    by (auto simp: start_query_def intro!: cache_intros split: prod.splits option.splits)
next
  case (reads t c)
  then have "embedding_of env request t = Inr v" if "redis_embedding env c (es_now s) (es_redis s) (request_key env request t) = Inr (Some v)" for v
    using that ok by (simp add: cache_ok_def redis_sound_def)
  with reads ok assms(2) show ?thesis
    by (auto simp: read_redis_def intro!: cache_intros right_entryI split: sum.splits option.splits)
next
  case (acquire t l)
  then show ?thesis using hit_ok [OF ok] ok
    by (auto simp: acquire_flight_def Let_def intro!: cache_intros split: prod.splits option.splits)
next
  case (rereads t l c)
  then have "embedding_of env request t = Inr v" if "redis_embedding env c (es_now s) (es_redis s) (request_key env request t) = Inr (Some v)" for v
    using that ok by (simp add: cache_ok_def redis_sound_def)
  with rereads ok assms(2) show ?thesis
    by (auto simp: reread_redis_def intro!: cache_intros right_entryI split: sum.splits option.splits)
next
  case (computed t l)
  with ok assms(2) show ?thesis
    by (auto simp: model_returns_def embedding_of_def intro!: cache_intros right_entryI split: sum.splits)
next
  case (writes t l v c)
  from ok writes(2) have v: "embedding_of env request t = Inr v" by (metis cache_ok_def phase_ok_simps(8))
  from ok have "redis_sound env request (es_redis s)" by (simp add: cache_ok_def)
  with v writes ok assms(2) redis_sound_write [OF _ assms(2)] show ?thesis
    by (auto simp: write_redis_def intro!: cache_intros split: sum.splits)
next
  case (fails t e)
  with ok show ?thesis
    by (auto simp: fail_query_def intro!: cache_intros split: query_phase.splits)
next
  case (others store now)
  with ok show ?thesis by (simp add: cache_ok_def)
qed

lemma cache_reachable_ok:
  assumes "cache_reachable env request s" and "collision_free env request"
  shows "cache_ok env request s"
proof -
  from assms(1) obtain now store where sound: "redis_sound env request store"
    and run: "(cache_step env request)\<^sup>*\<^sup>* (initial_embedding_state now store) s"
    by (auto simp: cache_reachable_def)
  from run show ?thesis
  proof (induction rule: rtranclp_induct)
    case base
    show ?case using sound by (simp add: cache_ok_def initial_embedding_state_def)
  next
    case (step s s')
    show ?case by (rule cache_step_ok [OF step(2) assms(2) step.IH])
  qed
qed

text \<open>
  C34. In every interleaving of the tasks, failures and cancellations included, and whatever other
  workers do, each answer is the vector the model gives for the normalized query of its task,
  whether it comes from the process, from Redis or from the model; and the dictionary of the process
  never holds more than 128 entries, one per key, each with the vector of its key.
\<close>

theorem query_embedding_sound:
  assumes "cache_reachable env request s" and "collision_free env request"
  shows "(\<forall>t v hit. es_phase s t = Answered v hit \<longrightarrow>
      embed_text (cv_embedder env) (normalized_query (snd (request t))) = Inr v) \<and>
    length (es_process s) \<le> 128 \<and> distinct_keys (es_process s) \<and>
    (\<forall>t v. (embedding_key env (fst (request t)) (snd (request t)), v) \<in> set (es_process s) \<longrightarrow>
      embed_text (cv_embedder env) (normalized_query (snd (request t))) = Inr v)"
proof -
  note ok = cache_reachable_ok [OF assms]
  from ok have "\<forall>t v hit. es_phase s t = Answered v hit \<longrightarrow> embedding_of env request t = Inr v"
    by (metis cache_ok_def phase_ok_simps(7))
  moreover from ok have "\<forall>t v. (request_key env request t, v) \<in> set (es_process s) \<longrightarrow> embedding_of env request t = Inr v"
    by (fastforce simp: cache_ok_def right_entry_def)
  ultimately show ?thesis using ok
    by (simp add: cache_ok_def embedding_of_def request_key_def max_process_embeddings_def)
qed

end
