(* ===== verification/Embedding_Flight.thy ===== *)
theory Embedding_Flight
  imports Embedding_Cache
begin

text \<open>
  What the flights of \<open>app/retrieval/search.py\<close> promise: the tasks that ask for one key share one
  computation. It holds as long as no task fails and nothing is evicted; when a task fails or is
  cancelled, its \<open>finally\<close> block drops the lock of the key while others still use it.
\<close>

section \<open>The invariant of the locks\<close>

fun held_flight :: "query_phase \<Rightarrow> nat option" where
  "held_flight (Rereading l) = Some l"
| "held_flight (Computing l) = Some l"
| "held_flight (Writing l _) = Some l"
| "held_flight _ = None"

text \<open>
  The invariant is over the lock of each key, the holder of each lock, the phase of each task, the keys in the
  dictionary and the keys computed.
\<close>

definition computing :: "(nat \<Rightarrow> string) \<Rightarrow> (nat \<Rightarrow> query_phase) \<Rightarrow> string \<Rightarrow> bool" where
  "computing key phase k \<longleftrightarrow> (\<exists>t l. phase t = Computing l \<and> key t = k)"

lemma computing_now: "computing key (phase(t := Computing l)) (key t)"
  by (auto simp: computing_def)

lemma computing_other:
  "computing key phase k \<Longrightarrow> (\<forall>l. phase t \<noteq> Computing l) \<or> key t \<noteq> k \<Longrightarrow> computing key (phase(t := p)) k"
  unfolding computing_def by (metis fun_upd_other)

definition flight_inv ::
  "(nat \<Rightarrow> string) \<Rightarrow> (string \<Rightarrow> nat option) \<Rightarrow> (nat \<Rightarrow> nat option) \<Rightarrow> (nat \<Rightarrow> query_phase) \<Rightarrow> string set \<Rightarrow> string list \<Rightarrow> bool" where
  "flight_inv key lock holder phase cached computed \<longleftrightarrow>
     (\<forall>t l. held_flight (phase t) = Some l \<longrightarrow> lock (key t) = Some l \<and> holder l = Some t) \<and>
     (\<forall>t l. phase t = Waiting l \<longrightarrow> lock (key t) = Some l \<or> key t \<in> cached) \<and>
     (\<forall>k \<in> set computed. k \<in> cached \<or> computing key phase k) \<and>
     (\<forall>t l. phase t = Rereading l \<longrightarrow> key t \<notin> set computed) \<and>
     (\<forall>t l v. phase t = Writing l v \<longrightarrow> key t \<in> cached) \<and> distinct computed"

lemma flight_inv_cached_mono:
  "flight_inv key lock holder phase cached computed \<Longrightarrow> cached \<subseteq> cached' \<Longrightarrow>
    flight_inv key lock holder phase cached' computed"
  unfolding flight_inv_def by (intro conjI) (blast | simp)+

lemma flight_inv_one_holder:
  "flight_inv key lock holder phase cached computed \<Longrightarrow> held_flight (phase t) = Some l \<Longrightarrow>
    held_flight (phase u) = Some m \<Longrightarrow> key t = key u \<Longrightarrow> t = u"
  unfolding flight_inv_def by (metis option.inject)

text \<open>A task outside the locks goes on outside them.\<close>

lemma flight_inv_outside:
  assumes "flight_inv key lock holder phase cached computed"
    and "held_flight (phase t) = None" "held_flight p = None" "\<And>l. p \<noteq> Waiting l"
  shows "flight_inv key lock holder (phase(t := p)) cached computed"
proof -
  have "p \<noteq> Rereading l" "p \<noteq> Computing l" "p \<noteq> Writing l v" "phase t \<noteq> Computing l" for l v
    using assms(2,3) by auto
  with assms show ?thesis unfolding flight_inv_def by (intro conjI) (auto split: if_splits intro: computing_now computing_other)
qed

lemma flight_inv_join:
  assumes "flight_inv key lock holder phase cached computed" and "held_flight (phase t) = None"
    and "lock (key t) = Some l \<or> lock (key t) = None"
  shows "flight_inv key (lock(key t := Some l)) holder (phase(t := Waiting l)) cached computed"
proof -
  have "phase t \<noteq> Computing m" for m using assms(2) by auto
  moreover have "m = l" if "held_flight (phase u) = Some m" "key u = key t" for u m
    using that assms(1,3) unfolding flight_inv_def by (metis option.distinct(1) option.inject)
  moreover have "m = l" if "phase u = Waiting m" "key u = key t" "key t \<notin> cached" for u m
    using that assms(1,3) unfolding flight_inv_def by (metis option.distinct(1) option.inject)
  ultimately show ?thesis using assms unfolding flight_inv_def by (intro conjI) (auto split: if_splits intro: computing_now computing_other)
qed

lemma flight_inv_acquire:
  assumes "flight_inv key lock holder phase cached computed" and "phase t = Waiting l"
    and "holder l = None" and "key t \<notin> cached"
  shows "flight_inv key lock (holder(l := Some t)) (phase(t := Rereading l)) cached computed"
proof -
  from assms(1,2,4) have lock: "lock (key t) = Some l" unfolding flight_inv_def by blast
  have "key t \<notin> set computed"
  proof
    assume "key t \<in> set computed"
    with assms(1,4) obtain u m where "phase u = Computing m" "key u = key t"
      unfolding flight_inv_def computing_def by blast
    with assms(1) have "lock (key t) = Some m" "holder m = Some u" unfolding flight_inv_def by (metis held_flight.simps(2))+
    with lock assms(3) show False by simp
  qed
  moreover have "holder m = Some u \<Longrightarrow> m \<noteq> l" for m u using assms(3) by auto
  ultimately show ?thesis using assms(1,2) lock unfolding flight_inv_def
    by (intro conjI) (auto split: if_splits intro: computing_now computing_other)
qed

lemma flight_inv_compute:
  assumes "flight_inv key lock holder phase cached computed" and "phase t = Rereading l"
  shows "flight_inv key lock holder (phase(t := Computing l)) cached (computed @ [key t])"
proof -
  from assms have held: "lock (key t) = Some l" "holder l = Some t" "key t \<notin> set computed"
    unfolding flight_inv_def by (metis held_flight.simps(1))+
  have "key u \<noteq> key t" if "phase u = Rereading m" "u \<noteq> t" for u m
    using flight_inv_one_holder [OF assms(1), of u m t l] that assms(2) by auto
  with assms held show ?thesis unfolding flight_inv_def
    by (intro conjI) (auto split: if_splits intro: computing_now computing_other)
qed

lemma flight_inv_write:
  assumes "flight_inv key lock holder phase cached computed" and "phase t = Computing l" and "key t \<in> cached"
  shows "flight_inv key lock holder (phase(t := Writing l v)) cached computed"
proof -
  from assms(1,2) have "lock (key t) = Some l" "holder l = Some t"
    unfolding flight_inv_def by (metis held_flight.simps(2))+
  with assms show ?thesis unfolding flight_inv_def by (intro conjI) (auto split: if_splits intro: computing_now computing_other)
qed

lemma flight_inv_release:
  assumes "flight_inv key lock holder phase cached computed" and "key t \<in> cached"
    and "holder l = None \<or> holder l = Some t" and "held_flight (phase t) = None \<or> held_flight (phase t) = Some l"
    and "held_flight p = None" "\<And>l. p \<noteq> Waiting l"
  shows "flight_inv key (if lock (key t) = Some l then lock(key t := None) else lock) (holder(l := None)) (phase(t := p)) cached computed"
proof -
  have p: "p \<noteq> Rereading m" "p \<noteq> Computing m" "p \<noteq> Writing m v" for m v using assms(5) by auto
  have other: "m \<noteq> l \<and> (lock (key u) = Some m \<longrightarrow> \<not> (key u = key t \<and> lock (key t) = Some l))"
    if "held_flight (phase u) = Some m" "u \<noteq> t" for u m
    using that assms(1,3) unfolding flight_inv_def by (metis option.distinct(1) option.inject)
  show ?thesis
    unfolding flight_inv_def
  proof (intro conjI allI impI ballI)
    fix u m assume "held_flight ((phase(t := p)) u) = Some m"
    then have u: "held_flight (phase u) = Some m" "u \<noteq> t" using assms(5) by (auto split: if_splits)
    with assms(1) have "lock (key u) = Some m" "holder m = Some u" unfolding flight_inv_def by blast+
    with other [OF u] show "(if lock (key t) = Some l then lock(key t := None) else lock) (key u) = Some m"
      "(holder(l := None)) m = Some u" by auto
  next
    fix u m assume "(phase(t := p)) u = Waiting m"
    then have "phase u = Waiting m" using assms(6) by (auto split: if_splits)
    with assms(1) have "lock (key u) = Some m \<or> key u \<in> cached" unfolding flight_inv_def by blast
    with assms(2) show "(if lock (key t) = Some l then lock(key t := None) else lock) (key u) = Some m \<or> key u \<in> cached"
      by auto
  next
    fix k assume "k \<in> set computed"
    with assms(1) have "k \<in> cached \<or> computing key phase k" unfolding flight_inv_def by blast
    with assms(2) show "k \<in> cached \<or> computing key (phase(t := p)) k" by (metis computing_other)
  next
    fix u m assume "(phase(t := p)) u = Rereading m"
    with p have "phase u = Rereading m" by (auto split: if_splits)
    with assms(1) show "key u \<notin> set computed" unfolding flight_inv_def by blast
  next
    fix u m v assume "(phase(t := p)) u = Writing m v"
    with p have "phase u = Writing m v" by (auto split: if_splits)
    with assms(1) show "key u \<in> cached" unfolding flight_inv_def by blast
  next
    show "distinct computed" using assms(1) unfolding flight_inv_def by blast
  qed
qed

section \<open>Steps\<close>

text \<open>With at most 128 keys nothing is evicted.\<close>

definition few_keys :: "cache_env \<Rightarrow> (nat \<Rightarrow> nat \<times> string) \<Rightarrow> bool" where
  "few_keys env request \<longleftrightarrow>
     finite (range (request_key env request)) \<and> card (range (request_key env request)) \<le> 128"

definition cached_keys :: "embedding_state \<Rightarrow> string set" where
  "cached_keys s = set (map fst (es_process s))"

definition entries_ok :: "cache_env \<Rightarrow> (nat \<Rightarrow> nat \<times> string) \<Rightarrow> embedding_state \<Rightarrow> bool" where
  "entries_ok env request s \<longleftrightarrow>
     distinct_keys (es_process s) \<and> cached_keys s \<subseteq> range (request_key env request)"

lemma keys_of_pop: "set (map fst (dict_pop key entries)) = set (map fst entries) - {key}"
  by (auto simp: set_pop)

lemma remember_all:
  assumes "few_keys env request" and "entries_ok env request s"
  shows "entries_ok env request (remember (request_key env request t) v s)"
    and "cached_keys (remember (request_key env request t) v s) = insert (request_key env request t) (cached_keys s)"
proof -
  let ?key = "request_key env request t"
  let ?new = "dict_pop ?key (es_process s) @ [(?key, v)]"
  have keys: "set (map fst ?new) = insert ?key (cached_keys s)"
    unfolding map_append set_append keys_of_pop by (auto simp: cached_keys_def)
  have distinct: "distinct_keys ?new" using assms(2) unfolding entries_ok_def by (intro distinct_keys_moved) simp
  have "length ?new = card (set (map fst ?new))" using distinct_card [OF distinct] by simp
  also have "\<dots> \<le> card (range (request_key env request))" unfolding keys
    using assms by (intro card_mono) (auto simp: few_keys_def entries_ok_def)
  finally have "length ?new \<le> max_process_embeddings" using assms(1) by (simp add: few_keys_def max_process_embeddings_def)
  then have same: "es_process (remember ?key v s) = ?new"
    by (simp add: remember_def remember_embedding_def evict_props(4) del: length_append)
  show "cached_keys (remember ?key v s) = insert ?key (cached_keys s)"
    unfolding cached_keys_def [of "remember ?key v s"] same keys ..
  then show "entries_ok env request (remember ?key v s)"
    using assms(2) distinct unfolding entries_ok_def same by auto
qed

lemma hit_keeps:
  assumes "entries_ok env request s" and "process_embedding key (es_process s) = (Some v, entries)"
  shows "entries_ok env request (s\<lparr>es_process := entries\<rparr>)"
    and "cached_keys (s\<lparr>es_process := entries\<rparr>) = cached_keys s" and "key \<in> cached_keys s"
proof -
  from assms(1) have distinct: "distinct_keys (es_process s)" by (simp add: entries_ok_def)
  note touched = touched_entries [OF assms(2) distinct]
  show same: "cached_keys (s\<lparr>es_process := entries\<rparr>) = cached_keys s" using touched(1) by (simp add: cached_keys_def)
  show "entries_ok env request (s\<lparr>es_process := entries\<rparr>)"
    using assms(1) touched(3) unfolding entries_ok_def same by simp
  show "key \<in> cached_keys s" using touched(4) by (force simp: cached_keys_def)
qed

lemma miss_uncached: "process_embedding key (es_process s) = (None, entries) \<Longrightarrow> key \<notin> cached_keys s"
  by (auto simp: process_embedding_def cached_keys_def map_of_eq_None_iff split: option.splits)

definition flights_ok :: "cache_env \<Rightarrow> (nat \<Rightarrow> nat \<times> string) \<Rightarrow> embedding_state \<Rightarrow> bool" where
  "flights_ok env request s \<longleftrightarrow>
     entries_ok env request s \<and>
     flight_inv (request_key env request) (dict_get (es_flights s)) (es_holder s) (es_phase s) (cached_keys s) (es_computed s)"

lemma dict_get_fun:
  "dict_get (dict_set k v d) = (dict_get d)(k := Some v)" "dict_get (dict_pop k d) = (dict_get d)(k := None)"
  by (auto simp: fun_eq_iff dict_get_set dict_get_pop)

lemma flights_ok_hit:
  assumes "flights_ok env request s" and "process_embedding key (es_process s) = (Some v, entries)"
  shows "flights_ok env request (s\<lparr>es_process := entries\<rparr>)" and "key \<in> cached_keys (s\<lparr>es_process := entries\<rparr>)"
  using assms(1) hit_keeps [OF _ assms(2), of env request] by (simp_all add: flights_ok_def)

lemma flights_ok_remember:
  assumes "flights_ok env request s" and "few_keys env request"
  shows "flights_ok env request (remember (request_key env request t) v s)"
    and "request_key env request t \<in> cached_keys (remember (request_key env request t) v s)"
    and "es_phase (remember k v s) = es_phase s" "es_holder (remember k v s) = es_holder s"
proof -
  from assms(1) have "entries_ok env request s" by (simp add: flights_ok_def)
  note all = remember_all [OF assms(2) this, of t v]
  have fields: "es_flights (remember k v s) = es_flights s" "es_computed (remember k v s) = es_computed s" for k
    by (simp_all add: remember_def)
  show phase: "es_phase (remember k v s) = es_phase s" "es_holder (remember k v s) = es_holder s" for k
    by (simp_all add: remember_def)
  show "request_key env request t \<in> cached_keys (remember (request_key env request t) v s)" using all(2) by simp
  show "flights_ok env request (remember (request_key env request t) v s)"
    using assms(1) all unfolding flights_ok_def fields phase
    by (auto intro: flight_inv_cached_mono)
qed

lemma flights_ok_outside:
  assumes "flights_ok env request s" and "held_flight (es_phase s t) = None" "held_flight p = None" "\<And>l. p \<noteq> Waiting l"
  shows "flights_ok env request (set_phase t p s)"
  using assms flight_inv_outside by (simp add: flights_ok_def set_phase_def entries_ok_def cached_keys_def)

lemma flights_ok_join:
  assumes "flights_ok env request s" and "held_flight (es_phase s t) = None"
  shows "flights_ok env request (join_flight t (request_key env request t) s)"
proof (cases "dict_get (es_flights s) (request_key env request t)")
  case None
  with assms flight_inv_join [of "request_key env request" "dict_get (es_flights s)" _ _ _ _ t] show ?thesis
    by (simp add: flights_ok_def join_flight_def set_phase_def entries_ok_def cached_keys_def dict_get_fun fun_upd_def)
next
  case (Some l)
  then have "(dict_get (es_flights s))(request_key env request t := Some l) = dict_get (es_flights s)" by auto
  with assms Some flight_inv_join [of "request_key env request" "dict_get (es_flights s)" _ _ _ _ t l] show ?thesis
    by (simp add: flights_ok_def join_flight_def set_phase_def entries_ok_def cached_keys_def)
qed

lemma flights_ok_release:
  assumes "flights_ok env request s" and "request_key env request t \<in> cached_keys s"
    and "es_holder s l = None \<or> es_holder s l = Some t"
    and "held_flight (es_phase s t) = None \<or> held_flight (es_phase s t) = Some l"
    and "held_flight p = None" "\<And>l. p \<noteq> Waiting l"
  shows "flights_ok env request (release_flight t (request_key env request t) l p s)"
proof -
  from assms(1) have "flight_inv (request_key env request) (dict_get (es_flights s)) (es_holder s) (es_phase s)
    (cached_keys s) (es_computed s)" by (simp add: flights_ok_def)
  from flight_inv_release [where key = "request_key env request" and t = t, OF this assms(2-6)] assms(1) show ?thesis
    by (auto simp: flights_ok_def release_flight_def leave_flight_def set_phase_def entries_ok_def cached_keys_def
        dict_get_fun split: if_splits)
qed

lemma flights_ok_call:
  assumes "flights_ok env request s" and "es_phase s t = Rereading l"
  shows "flights_ok env request (call_model t (request_key env request t) l s)"
  using assms flight_inv_compute [of "request_key env request" _ _ "es_phase s" _ _ t]
  by (simp add: flights_ok_def call_model_def set_phase_def entries_ok_def cached_keys_def)

lemma flights_ok_acquire:
  assumes "flights_ok env request s" and "es_phase s t = Waiting l" and "es_holder s l = None"
    and "request_key env request t \<notin> cached_keys s"
  shows "flights_ok env request (set_phase t (Rereading l) (s\<lparr>es_holder := (es_holder s)(l := Some t)\<rparr>))"
  using assms flight_inv_acquire [of "request_key env request" _ "es_holder s" "es_phase s" _ _ t]
  by (simp add: flights_ok_def set_phase_def entries_ok_def cached_keys_def)

lemma flights_ok_write:
  assumes "flights_ok env request s" and "es_phase s t = Computing l" and "request_key env request t \<in> cached_keys s"
  shows "flights_ok env request (set_phase t (Writing l v) s)"
  using assms flight_inv_write [of "request_key env request" _ _ "es_phase s" _ _ t]
  by (simp add: flights_ok_def set_phase_def entries_ok_def cached_keys_def)

lemma phase_after:
  "es_phase (set_phase t p s) = (es_phase s)(t := p)"
  "es_phase (leave_flight key l s) = es_phase s"
  "es_phase (release_flight t key l p s) = (es_phase s)(t := p)"
  by (simp_all add: set_phase_def leave_flight_def release_flight_def)

lemma phase_elsewhere:
  assumes "u \<noteq> t"
  shows "es_phase (set_phase t p s) u = es_phase s u" "es_phase (join_flight t key s) u = es_phase s u"
    "es_phase (release_flight t key l p s) u = es_phase s u" "es_phase (call_model t key l s) u = es_phase s u"
    "es_phase (remember key v s) u = es_phase s u"
  using assms by (auto simp: phase_after join_flight_def call_model_def remember_def set_phase_def split: option.splits)

lemma raised_stays:
  assumes "cache_step env request s s'" and "es_phase s u = Raised e"
  shows "es_phase s' u = Raised e"
  using assms(1)
proof (cases rule: cache_step.cases)
  case (start t)
  then have "u \<noteq> t" using assms(2) by auto
  with start assms(2) show ?thesis
    by (simp add: start_query_def phase_elsewhere split: prod.splits option.splits)
next
  case (reads t c)
  then have "u \<noteq> t" using assms(2) by auto
  with reads assms(2) show ?thesis
    by (simp add: read_redis_def phase_elsewhere split: sum.splits option.splits)
next
  case (acquire t l)
  then have "u \<noteq> t" using assms(2) by auto
  with acquire assms(2) show ?thesis
    by (simp add: acquire_flight_def Let_def phase_elsewhere split: prod.splits option.splits)
next
  case (rereads t l c)
  then have "u \<noteq> t" using assms(2) by auto
  with rereads assms(2) show ?thesis
    by (simp add: reread_redis_def phase_elsewhere split: sum.splits option.splits)
next
  case (computed t l)
  then have "u \<noteq> t" using assms(2) by auto
  with computed assms(2) show ?thesis
    by (simp add: model_returns_def phase_elsewhere split: sum.splits)
next
  case (writes t l v c)
  then have "u \<noteq> t" using assms(2) by auto
  with writes assms(2) show ?thesis
    by (simp add: write_redis_def phase_elsewhere split: sum.splits)
next
  case (fails t f)
  show ?thesis
  proof (cases "u = t")
    case True
    with fails assms(2) show ?thesis by (simp add: fail_query_def)
  next
    case False
    with fails assms(2) show ?thesis
      by (simp add: fail_query_def phase_elsewhere phase_after split: query_phase.splits)
  qed
next
  case (others store now)
  with assms(2) show ?thesis by simp
qed

definition nothing_raised :: "embedding_state \<Rightarrow> bool" where
  "nothing_raised s \<longleftrightarrow> (\<forall>t e. es_phase s t \<noteq> Raised e)"

lemma raised_now:
  "\<not> nothing_raised (set_phase t (Raised e) s)" "\<not> nothing_raised (release_flight t key l (Raised e) s)"
  "\<not> nothing_raised (leave_flight key l (set_phase t (Raised e) s))"
  by (auto simp: nothing_raised_def phase_after)

lemma held_by:
  assumes "flights_ok env request s" and "held_flight (es_phase s t) = Some l"
  shows "es_holder s l = Some t"
  using assms unfolding flights_ok_def flight_inv_def by blast

lemma cache_step_flights:
  assumes "cache_step env request s s'" and "few_keys env request" and ok: "flights_ok env request s"
    and "nothing_raised s'"
  shows "flights_ok env request s'"
  using assms(1)
proof (cases rule: cache_step.cases)
  case (start t)
  note hit = flights_ok_hit [OF ok]
  show ?thesis
  proof (cases "process_embedding (request_key env request t) (es_process s)")
    case (Pair found entries)
    with start ok hit show ?thesis
      by (auto simp: start_query_def intro!: flights_ok_outside flights_ok_join split: option.splits)
  qed
next
  case (reads t c)
  note keep = flights_ok_remember [OF ok assms(2)]
  with reads ok assms(4) show ?thesis
    by (auto simp: read_redis_def raised_now intro!: flights_ok_outside flights_ok_join split: sum.splits option.splits)
next
  case (acquire t l)
  show ?thesis
  proof (cases "process_embedding (request_key env request t) (es_process s)")
    case (Pair found entries)
    show ?thesis
    proof (cases found)
      case None
      let ?held = "set_phase t (Rereading l) (s\<lparr>es_holder := (es_holder s)(l := Some t)\<rparr>)"
      have held: "flights_ok env request ?held"
        using flights_ok_acquire [OF ok acquire(2,3)] miss_uncached Pair None by blast
      have "call_model t (request_key env request t) l (s\<lparr>es_holder := (es_holder s)(l := Some t)\<rparr>) =
          call_model t (request_key env request t) l ?held"
        by (simp add: call_model_def set_phase_def)
      with flights_ok_call [OF held, of t l] held acquire Pair None show ?thesis
        by (auto simp: acquire_flight_def Let_def phase_after)
    next
      case (Some v)
      note hit = flights_ok_hit [OF ok Pair [unfolded Some]]
      have "flights_ok env request (release_flight t (request_key env request t) l (Answered v True) (s\<lparr>es_process := entries\<rparr>))"
        using hit acquire by (intro flights_ok_release) simp_all
      with acquire Pair Some show ?thesis by (simp add: acquire_flight_def)
    qed
  qed
next
  case (rereads t l c)
  have "es_holder s l = Some t" using held_by [OF ok] rereads(2) by simp
  with rereads ok assms(4) flights_ok_remember [OF ok assms(2)] show ?thesis
    by (auto simp: reread_redis_def raised_now intro!: flights_ok_release flights_ok_call split: sum.splits option.splits)
next
  case (computed t l)
  have "es_holder s l = Some t" using held_by [OF ok] computed(2) by simp
  with computed ok assms(4) flights_ok_remember [OF ok assms(2)] show ?thesis
    by (auto simp: model_returns_def raised_now intro!: flights_ok_release flights_ok_write split: sum.splits)
next
  case (writes t l v c)
  have "es_holder s l = Some t" using held_by [OF ok] writes(2) by simp
  moreover have cached: "request_key env request t \<in> cached_keys s"
    using ok writes(2) unfolding flights_ok_def flight_inv_def by blast
  moreover have stored: "flights_ok env request (s\<lparr>es_redis := store\<rparr>)" for store
    using ok by (simp add: flights_ok_def entries_ok_def cached_keys_def)
  moreover have "request_key env request t \<in> cached_keys (s\<lparr>es_redis := store\<rparr>)" for store
    using cached by (simp add: cached_keys_def)
  ultimately show ?thesis using writes assms(4)
    by (auto simp: write_redis_def raised_now intro!: flights_ok_release split: sum.splits)
next
  case (fails t e)
  with ok assms(4) show ?thesis
    by (auto simp: fail_query_def raised_now split: query_phase.splits)
next
  case (others store now)
  with ok show ?thesis by (simp add: flights_ok_def entries_ok_def cached_keys_def)
qed

section \<open>One computation per key\<close>

text \<open>
  C35. As long as no task has failed and there are at most 128 keys, the model is called at most once for
  each key, however many tasks ask for it and however they interleave.
\<close>

theorem queries_share_one_computation:
  assumes "cache_reachable env request s" and "few_keys env request" and "nothing_raised s"
  shows "distinct (es_computed s) \<and>
    (\<forall>t u l m. es_phase s t = Computing l \<longrightarrow> es_phase s u = Computing m \<longrightarrow>
      request_key env request t = request_key env request u \<longrightarrow> t = u)"
proof -
  from assms(1) obtain now store
    where run: "(cache_step env request)\<^sup>*\<^sup>* (initial_embedding_state now store) s"
    by (auto simp: cache_reachable_def)
  from run assms(3) have "flights_ok env request s"
  proof (induction rule: rtranclp_induct)
    case base
    show ?case by (simp add: flights_ok_def entries_ok_def cached_keys_def flight_inv_def initial_embedding_state_def)
  next
    case (step s s')
    have "nothing_raised s" using step.prems raised_stays [OF step(2)] by (auto simp: nothing_raised_def)
    with step cache_step_flights [OF step(2) assms(2)] show ?case by blast
  qed
  then have inv: "flight_inv (request_key env request) (dict_get (es_flights s)) (es_holder s) (es_phase s)
    (cached_keys s) (es_computed s)" by (simp add: flights_ok_def)
  have "t = u" if "es_phase s t = Computing l" "es_phase s u = Computing m"
    "request_key env request t = request_key env request u" for t u l m
    using flight_inv_one_holder [OF inv, of t l u m] that by simp
  with inv show ?thesis unfolding flight_inv_def by blast
qed

section \<open>A waiting task that is cancelled\<close>

lemma three_steps: "R a b \<Longrightarrow> R b c \<Longrightarrow> R c d \<Longrightarrow> R\<^sup>*\<^sup>* a d"
  by (rule converse_rtranclp_into_rtranclp, assumption)+ simp

text \<open>Every lock in use has a number below the next one.\<close>

definition locks_old :: "embedding_state \<Rightarrow> bool" where
  "locks_old s \<longleftrightarrow>
     (\<forall>t l. es_phase s t = Waiting l \<or> held_flight (es_phase s t) = Some l \<longrightarrow> l < es_next_lock s) \<and>
     (\<forall>key l. dict_get (es_flights s) key = Some l \<longrightarrow> l < es_next_lock s) \<and>
     (\<forall>l. es_holder s l \<noteq> None \<longrightarrow> l < es_next_lock s)"

lemma locks_old_phase:
  assumes "locks_old s" and "\<And>l. p = Waiting l \<or> held_flight p = Some l \<Longrightarrow> l < es_next_lock s"
  shows "locks_old (set_phase t p s)"
  using assms by (auto simp: locks_old_def set_phase_def)

lemma locks_old_join: "locks_old s \<Longrightarrow> locks_old (join_flight t key s)"
  by (fastforce simp: locks_old_def join_flight_def set_phase_def dict_get_fun less_Suc_eq split: option.splits if_splits)

lemma locks_old_release:
  assumes "locks_old s" and "held_flight p = None" "\<And>l. p \<noteq> Waiting l"
  shows "locks_old (leave_flight key l (set_phase t p s))" and "locks_old (release_flight t key l p s)"
  using assms by (auto simp: locks_old_def leave_flight_def release_flight_def set_phase_def dict_get_fun split: if_splits)

lemma locks_old_others:
  assumes "locks_old s"
  shows "locks_old (s\<lparr>es_process := entries\<rparr>)" "locks_old (remember key v s)" "locks_old (s\<lparr>es_redis := store\<rparr>)"
    "locks_old (s\<lparr>es_now := now, es_redis := store\<rparr>)"
  using assms by (simp_all add: locks_old_def remember_def)

lemma locks_old_take:
  assumes "locks_old s" and "l < es_next_lock s" and "held_flight p = Some l" "\<And>l. p \<noteq> Waiting l"
  shows "locks_old (set_phase t p (s\<lparr>es_holder := (es_holder s)(l := Some t)\<rparr>))"
    and "locks_old (set_phase t p (s\<lparr>es_holder := (es_holder s)(l := Some t), es_computed := computed\<rparr>))"
  using assms by (auto simp: locks_old_def set_phase_def)

lemma locks_old_call:
  assumes "locks_old s" and "held_flight (es_phase s t) = Some l"
  shows "locks_old (call_model t key l s)"
  using assms by (auto simp: locks_old_def call_model_def set_phase_def)

lemma locks_old_step:
  assumes "cache_step env request s s'" and old: "locks_old s"
  shows "locks_old s'"
  using assms(1)
proof (cases rule: cache_step.cases)
  case (start t)
  then show ?thesis using old
    by (auto simp: start_query_def intro!: locks_old_phase locks_old_join locks_old_others split: prod.splits option.splits)
next
  case (reads t c)
  then show ?thesis using old
    by (auto simp: read_redis_def intro!: locks_old_phase locks_old_join locks_old_others split: sum.splits option.splits)
next
  case (acquire t l)
  then have "l < es_next_lock s" using old unfolding locks_old_def by blast
  with acquire show ?thesis using old
    by (auto simp: acquire_flight_def Let_def call_model_def
        intro!: locks_old_release(2) locks_old_take locks_old_others split: prod.splits option.splits)
next
  case (rereads t l c)
  then show ?thesis using old
    by (auto simp: reread_redis_def intro!: locks_old_release(2) locks_old_call locks_old_others split: sum.splits option.splits)
next
  case (computed t l)
  have "held_flight (es_phase s t) = Some l" using computed(2) by simp
  then have "l < es_next_lock s" using old unfolding locks_old_def by blast
  then have "locks_old (set_phase t (Writing l v) (remember key v s))" for key v
    using old by (auto simp: locks_old_def set_phase_def remember_def)
  with computed show ?thesis using old
    by (auto simp: model_returns_def intro!: locks_old_release(2) locks_old_others split: sum.splits)
next
  case (writes t l v c)
  then show ?thesis using old
    by (auto simp: write_redis_def intro!: locks_old_release(2) locks_old_others split: sum.splits)
next
  case (fails t e)
  then show ?thesis using old
    by (auto simp: fail_query_def intro!: locks_old_release locks_old_phase split: query_phase.splits)
next
  case (others store now)
  with old show ?thesis by (simp add: locks_old_others)
qed

lemma reachable_locks_old:
  assumes "cache_reachable env request s"
  shows "locks_old s"
proof -
  from assms obtain now store where "(cache_step env request)\<^sup>*\<^sup>* (initial_embedding_state now store) s"
    by (auto simp: cache_reachable_def)
  then show ?thesis
  proof (induction rule: rtranclp_induct)
    case base
    show ?case by (simp add: locks_old_def initial_embedding_state_def)
  next
    case (step s s')
    then show ?case by (blast intro: locks_old_step)
  qed
qed

definition redis_misses :: "cache_env \<Rightarrow> embedding_state \<Rightarrow> string \<Rightarrow> bool" where
  "redis_misses env s key \<longleftrightarrow>
     (case cv_redis env of None \<Rightarrow> True | Some c \<Rightarrow> redis_embedding env c (es_now s) (es_redis s) key = Inr None)"

text \<open>A task that starts where the table has no lock for its key computes under a new one.\<close>

lemma starts_computing:
  fixes key env request v s
  defines "key \<equiv> request_key env request v" and "m \<equiv> es_next_lock s"
  assumes "es_phase s v = Waiting_to_start" and "dict_get (es_process s) key = None" and "redis_misses env s key"
    and "dict_get (es_flights s) key = None" and "es_holder s m = None"
  shows "\<exists>s'. (cache_step env request)\<^sup>*\<^sup>* s s' \<and> es_phase s' = (es_phase s)(v := Computing m) \<and>
    es_computed s' = es_computed s @ [key]"
proof -
  note run = start_query_def process_embedding_def join_flight_def acquire_flight_def read_redis_def reread_redis_def
    call_model_def set_phase_def
  have miss: "process_embedding key (es_process s) = (None, es_process s)" using assms(4) by (simp add: process_embedding_def)
  show ?thesis
  proof (cases "cv_redis env")
    case None
    let ?s1 = "start_query env v key s"
    let ?s2 = "acquire_flight env v key m ?s1"
    have "cache_step env request s ?s1" using assms(3) unfolding key_def by (rule cache_step.start)
    moreover have "cache_step env request ?s1 ?s2"
      using assms(3-7) None unfolding key_def by (intro cache_step.acquire) (simp_all add: run m_def)
    ultimately have "(cache_step env request)\<^sup>*\<^sup>* s ?s2" by auto
    moreover have "es_phase ?s2 = (es_phase s)(v := Computing m)" "es_computed ?s2 = es_computed s @ [key]"
      using assms(3-7) None by (simp_all add: run m_def)
    ultimately show ?thesis by blast
  next
    case (Some c)
    with assms(5) have none: "redis_embedding env c (es_now s) (es_redis s) key = Inr None" by (simp add: redis_misses_def)
    let ?s1 = "start_query env v key s"
    let ?s2 = "read_redis env c v key ?s1"
    let ?s3 = "acquire_flight env v key m ?s2"
    let ?s4 = "reread_redis env c v key m ?s3"
    have "cache_step env request s ?s1" using assms(3) unfolding key_def by (rule cache_step.start)
    moreover have "cache_step env request ?s1 ?s2"
      using assms(3-7) Some unfolding key_def by (intro cache_step.reads) (simp_all add: run)
    moreover have "cache_step env request ?s2 ?s3"
      using assms(3-7) Some none unfolding key_def by (intro cache_step.acquire) (simp_all add: run m_def)
    ultimately have "(cache_step env request)\<^sup>*\<^sup>* s ?s3" by (rule three_steps)
    moreover have "cache_step env request ?s3 ?s4"
      using assms(3-7) Some none unfolding key_def by (intro cache_step.rereads) (simp_all add: run m_def)
    ultimately have "(cache_step env request)\<^sup>*\<^sup>* s ?s4" by (rule rtranclp.rtrancl_into_rtrancl)
    moreover have "es_phase ?s4 = (es_phase s)(v := Computing m)" "es_computed ?s4 = es_computed s @ [key]"
      using assms(3-7) Some none by (simp_all add: run m_def)
    ultimately show ?thesis by blast
  qed
qed

text \<open>
  C36. When a task that waits for the lock of a key is cancelled while another task computes under the
  lock, the cancelled task drops the lock from the table although the other one still holds it. A task
  that starts for the key then, with neither cache holding the embedding, computes it under another
  lock while the first is still computing.
\<close>

theorem cancelled_waiter_drops_flight:
  assumes "cache_reachable env request s" and "es_phase s t = Computing l" and "es_phase s u = Waiting l"
    and "es_phase s v = Waiting_to_start" and "request_key env request t = key" "request_key env request u = key"
    and "request_key env request v = key" and "dict_get (es_flights s) key = Some l"
    and "dict_get (es_process s) key = None" and "redis_misses env s key"
  shows "\<exists>s1. cache_step env request s s1 \<and> s1 = fail_query u key e s \<and> es_phase s1 u = Raised e \<and>
    es_phase s1 t = Computing l \<and> es_holder s1 = es_holder s \<and> dict_get (es_flights s1) key = None \<and>
    (\<exists>s2 m. (cache_step env request)\<^sup>*\<^sup>* s1 s2 \<and> m \<noteq> l \<and> es_phase s2 t = Computing l \<and> es_phase s2 v = Computing m \<and>
       es_computed s2 = es_computed s @ [key])"
proof -
  let ?s1 = "fail_query u key e s"
  have old: "locks_old s" using assms(1) by (rule reachable_locks_old)
  have "es_phase s t = Waiting j \<or> held_flight (es_phase s t) = Some j \<Longrightarrow> j < es_next_lock s" for j
    using old unfolding locks_old_def by blast
  from this [of l] have l: "l < es_next_lock s" by (simp add: assms(2))
  have free: "es_holder s (es_next_lock s) = None" using old unfolding locks_old_def by blast
  have "t \<noteq> u" "t \<noteq> v" "u \<noteq> v" using assms(2-4) by auto
  have s1: "?s1 = s\<lparr>es_phase := (es_phase s)(u := Raised e), es_flights := dict_pop key (es_flights s)\<rparr>"
    using assms(3,8) by (simp add: fail_query_def leave_flight_def set_phase_def)
  have failed: "cache_step env request s ?s1" using cache_step.fails [of env request s u e] assms(6) by simp
  have "\<exists>s2. (cache_step env request)\<^sup>*\<^sup>* ?s1 s2 \<and> es_phase s2 = (es_phase ?s1)(v := Computing (es_next_lock ?s1)) \<and>
      es_computed s2 = es_computed ?s1 @ [request_key env request v]"
    using assms(4,7,9,10) \<open>u \<noteq> v\<close> free by (intro starts_computing) (simp_all add: s1 dict_get_pop redis_misses_def split: option.splits)
  then obtain s2 where s2: "(cache_step env request)\<^sup>*\<^sup>* ?s1 s2"
    "es_phase s2 = (es_phase ?s1)(v := Computing (es_next_lock ?s1))" "es_computed s2 = es_computed ?s1 @ [key]"
    unfolding assms(7) by blast
  have "es_phase s2 t = Computing l" "es_phase s2 v = Computing (es_next_lock s)" "es_computed s2 = es_computed s @ [key]"
    using s2(2,3) assms(2) \<open>t \<noteq> u\<close> \<open>t \<noteq> v\<close> by (simp_all add: s1)
  with s2(1) l have "\<exists>s2 m. (cache_step env request)\<^sup>*\<^sup>* ?s1 s2 \<and> m \<noteq> l \<and> es_phase s2 t = Computing l \<and>
      es_phase s2 v = Computing m \<and> es_computed s2 = es_computed s @ [key]"
    by (intro exI [of _ s2] exI [of _ "es_next_lock s"] conjI) simp_all
  with failed show ?thesis using \<open>t \<noteq> u\<close> assms(2)
    by - (rule exI [of _ ?s1], simp add: s1 dict_get_pop)
qed

section \<open>Samples\<close>

definition sample_cache_env :: cache_env where
  "sample_cache_env = \<lparr>cv_embedder = \<lparr>emb_dimensions = 1, emb_encode = map (\<lambda>_. [1])\<rparr>, cv_model_name = ''model'',
     cv_digest = \<lambda>s. s, cv_float = \<lambda>_. Inl TypeError, cv_redis = None, cv_ttl = 3600\<rparr>"

definition sample_request :: "nat \<Rightarrow> nat \<times> string" where
  "sample_request t = (7, ''hi'')"

text \<open>Task 0 computes, and task 1 waits for it.\<close>

lemma sample_waiting_run:
  obtains s where "cache_reachable sample_cache_env sample_request s" "es_phase s 0 = Computing 0" "es_phase s 1 = Waiting 0"
    "es_phase s 2 = Waiting_to_start" "es_process s = []" "dict_get (es_flights s) (request_key sample_cache_env sample_request 0) = Some 0"
proof -
  let ?env = sample_cache_env and ?request = sample_request
  let ?k = "request_key sample_cache_env sample_request 0"
  let ?s0 = "initial_embedding_state 0 []"
  let ?s1 = "start_query ?env 0 ?k ?s0"
  let ?s2 = "acquire_flight ?env 0 ?k 0 ?s1"
  let ?s3 = "start_query ?env 1 ?k ?s2"
  have none: "cv_redis ?env = None" by (simp add: sample_cache_env_def)
  have same: "request_key ?env ?request 1 = ?k" by (simp add: request_key_def sample_request_def)
  note run = start_query_def process_embedding_def initial_embedding_state_def join_flight_def acquire_flight_def
    call_model_def set_phase_def none
  have "cache_step ?env ?request ?s0 ?s1" by (rule cache_step.start) (simp add: initial_embedding_state_def)
  moreover have "cache_step ?env ?request ?s1 ?s2" by (rule cache_step.acquire) (simp_all add: run)
  moreover have "cache_step ?env ?request ?s2 (start_query ?env 1 (request_key ?env ?request 1) ?s2)"
    by (rule cache_step.start) (simp add: run)
  ultimately have "(cache_step ?env ?request)\<^sup>*\<^sup>* ?s0 ?s3" unfolding same by (rule three_steps)
  moreover have "redis_sound ?env ?request []" using none by (simp add: redis_sound_def)
  ultimately have "cache_reachable ?env ?request ?s3" unfolding cache_reachable_def by blast
  then show ?thesis by (rule that) (simp_all add: run)
qed

lemma cancelled_waiter_drops_flight_witness:
  "\<exists>s s1 s2 m. es_phase s 1 = Waiting 0 \<and> s1 = fail_query 1 (request_key sample_cache_env sample_request 0) TypeError s \<and>
     (cache_step sample_cache_env sample_request)\<^sup>*\<^sup>* s1 s2 \<and> es_phase s2 0 = Computing 0 \<and> es_phase s2 2 = Computing m \<and> m \<noteq> 0"
proof -
  have same: "request_key sample_cache_env sample_request t = request_key sample_cache_env sample_request 0" for t
    by (simp add: request_key_def sample_request_def)
  from sample_waiting_run obtain s where
    s: "cache_reachable sample_cache_env sample_request s" "es_phase s 0 = Computing 0" "es_phase s 1 = Waiting 0"
    "es_phase s 2 = Waiting_to_start" "es_process s = []"
    "dict_get (es_flights s) (request_key sample_cache_env sample_request 0) = Some 0" .
  have "redis_misses sample_cache_env s key" for key by (simp add: redis_misses_def sample_cache_env_def)
  from cancelled_waiter_drops_flight [OF s(1-4) refl same same s(6) _ this, of TypeError] s show ?thesis by auto
qed

text \<open>A run of one task that ends with an answer.\<close>

lemma sample_cache_run:
  "\<exists>s. cache_reachable sample_cache_env sample_request s \<and> es_phase s 0 = Answered [1] False \<and> nothing_raised s \<and>
     es_computed s = [request_key sample_cache_env sample_request 0]"
proof -
  let ?k = "request_key sample_cache_env sample_request 0"
  let ?s0 = "initial_embedding_state 0 []"
  let ?s1 = "start_query sample_cache_env 0 ?k ?s0"
  let ?s2 = "acquire_flight sample_cache_env 0 ?k 0 ?s1"
  let ?s3 = "model_returns sample_cache_env 0 ?k (snd (sample_request 0)) 0 ?s2"
  have none: "cv_redis sample_cache_env = None" by (simp add: sample_cache_env_def)
  have embedding: "embed_text (cv_embedder sample_cache_env) (normalized_query (snd (sample_request 0))) = Inr [1]"
    by code_simp
  note run = start_query_def process_embedding_def initial_embedding_state_def join_flight_def acquire_flight_def
    call_model_def leave_flight_def set_phase_def none dict_pop_def
  have "cache_step sample_cache_env sample_request ?s0 ?s1" by (rule cache_step.start) (simp add: initial_embedding_state_def)
  moreover have "cache_step sample_cache_env sample_request ?s1 ?s2" by (rule cache_step.acquire) (simp_all add: run)
  moreover have "cache_step sample_cache_env sample_request ?s2 ?s3" by (rule cache_step.computed) (simp add: run)
  ultimately have "(cache_step sample_cache_env sample_request)\<^sup>*\<^sup>* ?s0 ?s3" by (rule three_steps)
  moreover have "redis_sound sample_cache_env sample_request []" using none by (simp add: redis_sound_def)
  ultimately have "cache_reachable sample_cache_env sample_request ?s3" unfolding cache_reachable_def by blast
  moreover have "es_phase ?s3 0 = Answered [1] False \<and> nothing_raised ?s3 \<and> es_computed ?s3 = [?k]"
    by (simp add: model_returns_def embedding release_flight_def remember_def nothing_raised_def run)
  ultimately show ?thesis by blast
qed

lemma query_embedding_sound_witness:
  "\<exists>s. cache_reachable sample_cache_env sample_request s \<and> es_phase s 0 = Answered [1] False \<and>
     embed_text (cv_embedder sample_cache_env) (normalized_query ''hi'') = Inr [1] \<and> length (es_process s) \<le> 128"
proof -
  from sample_cache_run obtain s where s: "cache_reachable sample_cache_env sample_request s" "es_phase s 0 = Answered [1] False"
    by blast
  have "collision_free sample_cache_env sample_request" by (simp add: collision_free_def sample_cache_env_def)
  from query_embedding_sound [OF s(1) this] s show ?thesis by (force simp: sample_request_def)
qed

lemma queries_share_one_computation_witness:
  "\<exists>s. cache_reachable sample_cache_env sample_request s \<and> length (es_computed s) = 1 \<and> distinct (es_computed s)"
proof -
  from sample_cache_run obtain s where s: "cache_reachable sample_cache_env sample_request s" "nothing_raised s"
    "es_computed s = [request_key sample_cache_env sample_request 0]" by blast
  have "range (request_key sample_cache_env sample_request) = {request_key sample_cache_env sample_request 0}"
    by (auto simp: request_key_def sample_request_def)
  then have "few_keys sample_cache_env sample_request" by (simp add: few_keys_def)
  from queries_share_one_computation [OF s(1) this s(2)] s show ?thesis by auto
qed

end
