(* ===== verification/Spec2Isabelle.thy ===== *)
theory Spec2Isabelle
  imports Query_Properties Sync_Task Readiness Model_Loading Google_Credentials Embedding_Flight
begin

text \<open>
  A verification library of the backend of the Google Workspace orchestrator, the Python package
  \<open>app\<close>. Every theory is a shallow embedding of the code it names: a handler, method or helper is
  one definition of the same name, its data are records and datatypes with the fields and
  constructors of the source, and its exceptions are values.

  \<^bold>\<open>The program.\<close> A user signs in with Google and sends queries in natural language. A query goes
  through \<open>submit_query\<close>: the classifier turns it into an intent, the planner into a plan, a graph of
  steps with references to the data of earlier steps. Both ask a language model and validate what
  it answers. The executor runs the steps in waves through the registry, which hands each to one of
  four agents (Gmail, Calendar, Drive and the search of the workspace index). An operation that
  changes something is not run: the executor stores an approval, and the approval endpoints run it
  when its owner agrees. The synthesizer writes the answer. In the background, workers copy mails,
  events and files into the index that the search reads.

  \<^bold>\<open>Foundations.\<close>
  \<^item> \<open>Py_Prelude\<close>, \<open>Py_Text\<close>, \<open>Py_Regex\<close>: JSON values, dictionaries as association lists in insertion
    order, the operations on strings the code uses, and the collections \<open>dict_simps\<close> and the like the proofs
    share. \<open>Py_Regex\<close> holds the patterns the classifier and the planner search for.
  \<^item> \<open>Gregorian\<close>, \<open>Iso_Datetime\<close>, \<open>Iso_Format\<close>, \<open>Clock\<close>: the calendar, \<open>fromisoformat\<close> on bytes,
    \<open>isoformat\<close>, arithmetic and time zones; dates and ordinals are inverse, and what \<open>isoformat\<close>
    writes is read back.

  \<^bold>\<open>From the query to the plan.\<close>
  \<^item> \<open>Contracts\<close> (\<open>schemas/contracts.py\<close>): the models, their field validation and \<open>validate_graph\<close>, which
    is shown to accept exactly the acyclic plans with declared references.
  \<^item> \<open>Operation_Specs\<close> (\<open>orchestration/operation_specs.py\<close>): the catalog of operations and the validation
    of arguments, at planning time and before a dispatch.
  \<^item> \<open>Language_Model\<close> (\<open>llm\<close>): the prompts and the checks around a completion.
  \<^item> \<open>Temporal\<close>, \<open>Classifier\<close> (\<open>orchestration/temporal.py\<close>, \<open>classifier.py\<close>): each hint denotes what its
    phrase says in the time zone of the user; when a clarification is dropped.
  \<^item> \<open>Planner\<close>, \<open>Planner_Valid\<close>, \<open>Planner_Intent\<close> (\<open>orchestration/planner.py\<close>): the rewriting of a plan
    after its validation, that the result is still valid, and what it keeps of the intent.

  \<^bold>\<open>Execution and consent.\<close>
  \<^item> \<open>Registry\<close> (\<open>orchestration/registry.py\<close>, \<open>core/interfaces.py\<close>) and \<open>Database\<close> (\<open>db/models.py\<close>).
  \<^item> \<open>Executor\<close> (\<open>orchestration/executor.py\<close>): the resolution of references and the loop over waves.
    \<open>Executor_Refinement\<close> states the specification, one ready step at a time, and proves that the loop
    implements it; \<open>Executor_Correct\<close> holds the interface \<open>step_dispatch\<close> and that an accepted plan is
    always run to its end; \<open>Executor_Properties\<close> reads the properties off the trace.
  \<^item> \<open>Approvals\<close> (\<open>api/routes/approvals.py\<close>): both handlers, given the registry; \<open>approve_google_action\<close> in
    \<open>Agents\<close> builds it first, which fails without a usable key. \<open>Orchestration\<close> is the state machine of
    executions, approvals and rejections, with its reachable states: no call that needs consent
    without the consent of its owner, at most one decision per approval, consistent tables.
  \<^item> \<open>Google_Client\<close>, \<open>Gmail_Agent\<close>, \<open>Calendar_Agent\<close>, \<open>Drive_Agent\<close>, \<open>Workspace_Agent\<close> (\<open>agents\<close>):
    every operation with the requests it sends. \<open>Agents\<close> composes them as \<open>orchestration/runtime.py\<close> does
    and carries the consent property down to the requests that reach Google.
  \<^item> \<open>Compaction\<close>, \<open>Synthesis\<close> (\<open>orchestration/compaction.py\<close>, \<open>synthesis.py\<close>): what the model is
    shown of the results, and the answer, which reports every search and every step that did not complete.
  \<^item> \<open>Query_Route\<close>, \<open>Query_Properties\<close> (\<open>api/routes/query.py\<close>, \<open>api/dependencies.py\<close>): the handler that
    composes all of these, with its transaction, and what it guarantees.

  \<^bold>\<open>The index.\<close>
  \<^item> \<open>Chunking\<close>, \<open>Index_Store\<close>, \<open>Normalization\<close> (\<open>retrieval/chunking.py\<close>, \<open>indexer.py\<close>, \<open>embeddings.py\<close>,
    \<open>normalization.py\<close>): how an item becomes rows; indexing replaces the chunks of one item.
    \<open>Model_Loading\<close> interleaves the threads that load the embedding model: it is loaded once.
  \<^item> \<open>Freshness\<close>, \<open>Relevance\<close>, \<open>Search\<close> (\<open>retrieval/freshness.py\<close>, \<open>relevance.py\<close>, \<open>search.py\<close>): a search
    sees rows of its user only.
  \<^item> \<open>Embedding_Cache\<close>, \<open>Embedding_Flight\<close> (\<open>retrieval/search.py\<close>): the cache of query embeddings as
    interleaved tasks, that its answers are right, and when tasks share one computation.
  \<^item> \<open>Sync_Service\<close>, \<open>Sync_Properties\<close> (\<open>sync/service.py\<close>), \<open>Sync_Lock\<close>, \<open>Sync_Task\<close> (\<open>workers/tasks.py\<close>,
    \<open>api/routes/sync.py\<close>): the sync of the three services, the lock of a user with its renewal,
    and the task that composes them.

  \<^bold>\<open>Sign-in.\<close>
  \<^item> \<open>Redis_Cache\<close> (\<open>core/cache.py\<close>), \<open>Token_Cipher\<close> (\<open>auth/security.py\<close>), \<open>Readiness\<close> (\<open>api/routes/health.py\<close>,
    \<open>readiness.py\<close>).
  \<^item> \<open>Google_Login\<close> (\<open>api/routes/auth.py\<close>), \<open>Google_Credentials\<close> (\<open>integrations/google.py\<close>): an attempt
    is used once, its session is recognised by the other endpoints, and the stored credentials are
    read back and refreshed without touching those of another user.

  \<^bold>\<open>Conventions.\<close> A handler takes the state and returns it updated with a value of a sum type:
  \<open>http_error\<close> for an \<open>HTTPException\<close> or an exception that escapes, \<open>py_error\<close> for the exceptions of
  Python, \<open>agent_exception\<close> where a Google error may occur as well. A session that rolls back returns
  the state it started from. What is concurrent is a step relation: the orders of requests in
  \<open>Orchestration\<close>, of workers in \<open>Sync_Lock\<close>, of tasks in \<open>Embedding_Cache\<close>, of threads in
  \<open>Model_Loading\<close>; in a wave of the executor,
  a call sees the calls numbered before it. Interfaces are locales with an interpretation on the
  definitions of the code: the dispatch of a step (\<open>Executor_Correct\<close>), the order of the rows of a search
  (\<open>Search\<close>), the invariants of the index that a sync keeps (\<open>Sync_Properties\<close>), those of the state
  machine (\<open>Orchestration\<close>), and the store of JSON values with an expiry (\<open>Redis_Cache\<close>), on which the sign-in rests.

  \<^bold>\<open>Parameters.\<close> Code that is not in the repository is an argument: the language model, the Google
  client and the OAuth flow, Fernet and SHA-256, the embedding model, what PostgreSQL computes (distance,
  rank, \<open>ILIKE\<close>, the order of rows), time zones, the parser of mail dates, base64 and HTML
  unescaping, the clock and fresh identifiers. Where a property needs a law of one of them, the law
  is a premise with a name (\<open>cipher_law\<close>, \<open>collision_free\<close>, \<open>finite_listing\<close>)
  and a witness shows that it can hold.

  \<^bold>\<open>Loops.\<close> Nothing runs on fuel. The planner and the classifier ask the model at most twice, which a flag of
  the definitions counts. \<open>run_waves\<close> ends because each wave removes a step. \<open>chunk_loop\<close> and
  \<open>sync_pages\<close> may not end, for some overlaps and for a listing that always names a next page; they are
  partial functions whose value \<open>None\<close> is not returning, and that they return is proved for the sizes the
  program uses and for listings that are finite.

  \<^bold>\<open>Limits.\<close> A character is a code point below 256. A float is a rational with the rounding a parameter.
  The database accepts every statement; a key that is unique in the schema is an invariant of the
  tables and not a check. A time limit or a cancellation is an exception at an await only in
  \<open>Embedding_Cache\<close> and \<open>Sync_Lock\<close>. The credentials object of Google, which a client may
  refresh in place, is seen when it is loaded only. Log messages, response models that repeat a record
  and HTTP headers, cookies included, are left out.

  \<^bold>\<open>Not modelled.\<close> \<open>main.py\<close>, \<open>core/config.py\<close>, \<open>db/session.py\<close>, \<open>db/base.py\<close>, \<open>workers/celery_app.py\<close> and
  \<open>alembic\<close> are declarations for FastAPI, pydantic-settings, SQLAlchemy, Celery and Alembic.
  \<open>db/check_connectivity.py\<close> and \<open>retrieval/evaluate.py\<close> are scripts that print. Two helpers at
  the end of \<open>query.py\<close>, which nothing calls, and the construction of the client in \<open>provider.py\<close> are left out.
\<close>

end
